(* ===== verification/Prelude.thy ===== *)
theory Prelude
  imports Main "HOL-Library.Word"
begin

text \<open>
  The vocabulary the component theories share: the machine integers of the sources at their
  width on an LP64 little-endian machine, the kinds of undefined behaviour the sources can
  run into, results that carry such an error, loops over a list whose body may fail, the C heap
  as a store of objects, and the answers of the allocator.
\<close>

section \<open>Machine types\<close>

type_synonym u8 = "8 word"
type_synonym u16 = "16 word"
type_synonym u32 = "32 word"
type_synonym u64 = "64 word"

text \<open>A pointer is a natural number; address 0 is the null pointer.\<close>

type_synonym ptr = nat

abbreviation NULL :: ptr where
  "NULL \<equiv> 0"

section \<open>Undefined behaviour and results\<close>

text \<open>
  \<open>Out_Of_Bounds\<close>: an access behind the end of an array or a shift past the width of its
  operand. \<open>Bad_Pointer\<close>: a null, dangling or otherwise invalid pointer is dereferenced.
  \<open>Div_By_Zero\<close>: an integer is divided by zero. \<open>Signed_Overflow\<close>: the result of an operation on
  values of type \<open>int\<close> is not a value of this type.
\<close>

datatype c_error = Out_Of_Bounds | Bad_Pointer | Div_By_Zero | Signed_Overflow

type_synonym 'a res = "c_error + 'a"

definition ebind :: "'a res \<Rightarrow> ('a \<Rightarrow> 'b res) \<Rightarrow> 'b res" where
  "ebind m f = (case m of Inl e \<Rightarrow> Inl e | Inr x \<Rightarrow> f x)"

text \<open>The result of an operation on values of the 32-bit type \<open>int\<close>.\<close>

definition c_int :: "int \<Rightarrow> int res" where
  "c_int x = (if - (2 ^ 31) \<le> x \<and> x < 2 ^ 31 then Inr x else Inl Signed_Overflow)"

text \<open>A loop over a list whose body may fail.\<close>

fun efold :: "('a \<Rightarrow> 's \<Rightarrow> 's res) \<Rightarrow> 'a list \<Rightarrow> 's \<Rightarrow> 's res" where
  "efold f [] s = Inr s"
| "efold f (x # xs) s = ebind (f x s) (efold f xs)"

section \<open>The heap of objects of one C type\<close>

text \<open>
  \<open>cells\<close> holds the objects that are allocated and not freed; \<open>brk\<close> is the next address the
  allocator hands out. Addresses are not reused, so that a dangling pointer stays recognisable.
\<close>

record 'a heap =
  cells :: "ptr \<Rightarrow> 'a option"
  brk :: ptr

definition heap_empty :: "'a heap" where
  "heap_empty = \<lparr>cells = (\<lambda>_. None), brk = 1\<rparr>"

definition hnew :: "'a \<Rightarrow> 'a heap \<Rightarrow> ptr \<times> 'a heap" where
  "hnew v h = (brk h, h\<lparr>cells := (cells h)(brk h := Some v), brk := Suc (brk h)\<rparr>)"

definition hget :: "'a heap \<Rightarrow> ptr \<Rightarrow> 'a res" where
  "hget h p = (case cells h p of None \<Rightarrow> Inl Bad_Pointer | Some v \<Rightarrow> Inr v)"

definition hput :: "ptr \<Rightarrow> 'a \<Rightarrow> 'a heap \<Rightarrow> 'a heap" where
  "hput p v h = h\<lparr>cells := (cells h)(p := Some v)\<rparr>"

definition hfree :: "ptr \<Rightarrow> 'a heap \<Rightarrow> 'a heap" where
  "hfree p h = h\<lparr>cells := (cells h)(p := None)\<rparr>"

definition heap_ok :: "'a heap \<Rightarrow> bool" where
  "heap_ok h \<longleftrightarrow> 0 < brk h \<and> (\<forall>p v. cells h p = Some v \<longrightarrow> 0 < p \<and> p < brk h)"

section \<open>Answers of the system\<close>

text \<open>
  The calls that can fail at run time (\<open>calloc\<close>, \<open>send\<close>) are answered from a list: the head is
  the answer of the next call, and once the list is used up every call succeeds. A statement
  about all lists is a statement about every pattern of failures.
\<close>

definition answer :: "bool list \<Rightarrow> bool \<times> bool list" where
  "answer bs = (case bs of [] \<Rightarrow> (True, []) | b # bs' \<Rightarrow> (b, bs'))"

section \<open>Lemmas on results and loops\<close>

lemma ebind_simps [simp]:
  "ebind (Inl e) f = Inl e"
  "ebind (Inr x) f = f x"
  by (simp_all add: ebind_def)

lemma ebind_eq_Inr: "ebind m f = Inr y \<longleftrightarrow> (\<exists>x. m = Inr x \<and> f x = Inr y)"
  by (cases m) simp_all

lemma efold_append: "efold f (xs @ ys) s = ebind (efold f xs s) (efold f ys)"
proof (induction xs arbitrary: s)
  case Nil
  then show ?case by simp
next
  case (Cons x xs)
  then show ?case by (cases "f x s") simp_all
qed

text \<open>The rule for a loop: an invariant that the body keeps, with or without an error.\<close>

lemma efold_invariant:
  assumes "efold f xs s = Inr s'" and "I s"
    and "\<And>x t t'. x \<in> set xs \<Longrightarrow> I t \<Longrightarrow> f x t = Inr t' \<Longrightarrow> I t'"
  shows "I s'"
  using assms
proof (induction xs arbitrary: s)
  case Nil
  then show ?case by simp
next
  case (Cons x xs)
  then obtain t where t: "f x s = Inr t" "efold f xs t = Inr s'"
    by (auto simp: ebind_eq_Inr)
  from Cons.prems t(1) have "I t" by auto
  with t(2) show ?case by (rule Cons.IH) (use Cons.prems(3) in auto)
qed

lemma efold_total:
  assumes "I s" and "\<And>x t. x \<in> set xs \<Longrightarrow> I t \<Longrightarrow> \<exists>t'. f x t = Inr t' \<and> I t'"
  shows "\<exists>s'. efold f xs s = Inr s' \<and> I s'"
  using assms
proof (induction xs arbitrary: s)
  case Nil
  then show ?case by simp
next
  case (Cons x xs)
  then obtain t where t: "f x s = Inr t" "I t" by fastforce
  from t(2) have "\<exists>s'. efold f xs t = Inr s' \<and> I s'"
    by (rule Cons.IH) (use Cons.prems(2) in auto)
  with t(1) show ?case by simp
qed

section \<open>Data refinement\<close>

text \<open>
  The contract every data structure below is shown to meet: a representation relation between
  the concrete state and an abstract value, concrete operations that may fail, abstract
  operations and their preconditions. One law, that a single operation simulates its abstract
  counterpart without an error; the consequence for whole runs is proved here once.
\<close>

fun run_pre :: "('o \<Rightarrow> 'a \<Rightarrow> bool) \<Rightarrow> ('o \<Rightarrow> 'a \<Rightarrow> 'a) \<Rightarrow> 'o list \<Rightarrow> 'a \<Rightarrow> bool" where
  "run_pre pre spec [] a \<longleftrightarrow> True"
| "run_pre pre spec (x # xs) a \<longleftrightarrow> pre x a \<and> run_pre pre spec xs (spec x a)"

locale data_refinement =
  fixes rep :: "'m \<Rightarrow> 'a \<Rightarrow> bool"
    and exec :: "'o \<Rightarrow> 'm \<Rightarrow> 'm res"
    and spec :: "'o \<Rightarrow> 'a \<Rightarrow> 'a"
    and pre :: "'o \<Rightarrow> 'a \<Rightarrow> bool"
  assumes exec_step: "rep m a \<Longrightarrow> pre x a \<Longrightarrow> \<exists>m'. exec x m = Inr m' \<and> rep m' (spec x a)"
begin

lemma run_refines:
  assumes "rep m a" and "run_pre pre spec xs a"
  shows "\<exists>m'. efold exec xs m = Inr m' \<and> rep m' (fold spec xs a)"
  using assms
proof (induction xs arbitrary: m a)
  case Nil
  then show ?case by simp
next
  case (Cons x xs)
  from Cons.prems obtain m1 where m1: "exec x m = Inr m1" "rep m1 (spec x a)"
    using exec_step by fastforce
  from Cons.prems(2) have "run_pre pre spec xs (spec x a)" by simp
  from Cons.IH [OF m1(2) this] m1(1) show ?case by simp
qed

lemma run_result:
  assumes "rep m a" and "run_pre pre spec xs a" and "efold exec xs m = Inr m'"
  shows "rep m' (fold spec xs a)"
  using run_refines [OF assms(1,2)] assms(3) by simp

end

section \<open>Lemmas on the heap\<close>

lemma hget_simps [simp]:
  "hget (hput p v h) q = (if q = p then Inr v else hget h q)"
  "hget (hfree p h) q = (if q = p then Inl Bad_Pointer else hget h q)"
  by (simp_all add: hget_def hput_def hfree_def)

lemma cells_simps [simp]:
  "cells (hput p v h) = (cells h)(p := Some v)"
  "cells (hfree p h) = (cells h)(p := None)"
  "brk (hput p v h) = brk h"
  "brk (hfree p h) = brk h"
  by (simp_all add: hput_def hfree_def)

lemma hget_eq_Inr: "hget h p = Inr v \<longleftrightarrow> cells h p = Some v"
  by (simp add: hget_def split: option.splits)

lemma hget_cell [simp]: "cells h p = Some v \<Longrightarrow> hget h p = Inr v"
  by (simp add: hget_eq_Inr)

lemma hnew_simps [simp]:
  "fst (hnew v h) = brk h"
  "cells (snd (hnew v h)) = (cells h)(brk h := Some v)"
  "brk (snd (hnew v h)) = Suc (brk h)"
  by (simp_all add: hnew_def)

lemma heap_ok_empty [simp]: "heap_ok heap_empty"
  by (simp add: heap_ok_def heap_empty_def)

lemma heap_ok_hput [simp]: "heap_ok h \<Longrightarrow> cells h p \<noteq> None \<Longrightarrow> heap_ok (hput p v h)"
  by (auto simp: heap_ok_def)

lemma heap_ok_hfree [simp]: "heap_ok h \<Longrightarrow> heap_ok (hfree p h)"
  by (auto simp: heap_ok_def split: if_splits)

lemma heap_ok_hnew [simp]: "heap_ok h \<Longrightarrow> heap_ok (snd (hnew v h))"
  by (auto simp: heap_ok_def less_SucI split: if_splits)

lemma heap_ok_fresh: "heap_ok h \<Longrightarrow> cells h (brk h) = None"
  by (auto simp: heap_ok_def not_None_eq[symmetric] simp del: not_None_eq intro: ccontr)

lemma heap_ok_brk [simp]: "heap_ok h \<Longrightarrow> 0 < brk h"
  by (simp add: heap_ok_def)

lemma heap_ok_not_null: "heap_ok h \<Longrightarrow> cells h p = Some v \<Longrightarrow> p \<noteq> NULL"
  by (auto simp: heap_ok_def)

lemma answer_Nil [simp]: "answer [] = (True, [])"
  by (simp add: answer_def)

lemma answer_Cons [simp]: "answer (b # bs) = (b, bs)"
  by (simp add: answer_def)

end
