(* ===== verification/HashTable.thy ===== *)
theory HashTable
  imports Prelude
begin

unbundle bit_operations_syntax

text \<open>
  The hash functions of \<open>include/hash.h\<close> at their C widths, and the hash table of the same
  header: an array of \<open>hlist_head\<close> with the singly linked chains of \<open>include/list.h\<close>, whose
  nodes hold the address of the pointer that points at them. The predicate \<open>htab\<close> says which
  chain of nodes each bucket stands for; insertion and removal on pointers are shown to refine
  the operations \<open>bkt_add\<close> and \<open>bkt_del\<close> on these chains, which the file table is built on.
\<close>

section \<open>Hash functions\<close>

text \<open>
  \<open>char\<close> is signed, so a byte is sign-extended before it is added. The loop stops at the
  terminating zero, which is either a character of the list or its end.
\<close>

definition schar :: "char \<Rightarrow> u64" where
  "schar c = scast (of_char c :: u8)"

fun ELFhash_loop :: "u64 \<Rightarrow> string \<Rightarrow> u64" where
  "ELFhash_loop h [] = h"
| "ELFhash_loop h (c # key) =
     (if c = CHR 0x00 then h
      else let h1 = push_bit 4 h + schar c;
               g = h1 AND 0xf0000000;
               h2 = (if g \<noteq> 0 then h1 XOR drop_bit 24 g else h1)
           in ELFhash_loop (h2 AND NOT g) key)"

definition ELFhash :: "string \<Rightarrow> u64" where
  "ELFhash key = ELFhash_loop 0 key"

definition GOLDEN_RATIO_PRIME_32 :: u64 where
  "GOLDEN_RATIO_PRIME_32 = 0x9e370001"

definition hash_32 :: "u32 \<Rightarrow> nat \<Rightarrow> u32" where
  "hash_32 v bits = drop_bit (32 - bits) (ucast ((ucast v :: u64) * GOLDEN_RATIO_PRIME_32))"

definition hash_min :: "u32 \<Rightarrow> nat \<Rightarrow> u32" where
  "hash_min v bits = hash_32 v bits"

text \<open>The shift of \<open>1UL\<close> by 64 or more is undefined, so the search for the logarithm of a value
  that is not a power of two ends in an error.\<close>

function ilog2_loop :: "nat \<Rightarrow> u64 \<Rightarrow> nat res" where
  "ilog2_loop l v =
     (if 64 \<le> l then Inl Out_Of_Bounds
      else if push_bit l 1 = v then Inr l
      else ilog2_loop (Suc l) v)"
  by pat_completeness auto
termination
  by (relation "measure (\<lambda>(l, v). 64 - l)") auto

declare ilog2_loop.simps [simp del]

definition ilog2 :: "u64 \<Rightarrow> nat res" where
  "ilog2 v = ilog2_loop 0 v"

definition FILE_HASH_BITS :: nat where
  "FILE_HASH_BITS = 12"

definition HASH_SIZE :: nat where
  "HASH_SIZE = 2 ^ FILE_HASH_BITS"

definition HASH_BITS :: nat where
  "HASH_BITS = projr (ilog2 (of_nat HASH_SIZE))"

text \<open>The bucket of a key. \<open>hash_add\<close> passes the \<open>unsigned long\<close> to the \<open>uint32_t\<close> parameter of
  \<open>hash_32\<close>; the search goes through an \<open>int\<close>.\<close>

definition slot_ulong :: "u64 \<Rightarrow> nat" where
  "slot_ulong key = unat (hash_min (ucast key) HASH_BITS)"

definition slot_int :: "u64 \<Rightarrow> nat" where
  "slot_int key = (let k = (ucast key :: 32 word) in unat (hash_min (word_of_int (sint k)) HASH_BITS))"

section \<open>Chains of nodes\<close>

text \<open>The value of \<open>pprev\<close>: null, the address of a bucket's \<open>first\<close>, or of a node's \<open>next\<close>.\<close>

datatype hloc = HNil | Head nat | Next ptr

record hmem =
  first :: "nat \<Rightarrow> ptr"
  hnext :: "ptr \<Rightarrow> ptr"
  pprev :: "ptr \<Rightarrow> hloc"

definition INIT_HLIST_HEAD :: "nat \<Rightarrow> hmem \<Rightarrow> hmem" where
  "INIT_HLIST_HEAD b m = m\<lparr>first := (first m)(b := NULL)\<rparr>"

definition INIT_HLIST_NODE :: "ptr \<Rightarrow> hmem \<Rightarrow> hmem res" where
  "INIT_HLIST_NODE n m =
     (if n = NULL then Inl Bad_Pointer
      else Inr (m\<lparr>hnext := (hnext m)(n := NULL), pprev := (pprev m)(n := HNil)\<rparr>))"

definition hlist_add_head :: "ptr \<Rightarrow> nat \<Rightarrow> hmem \<Rightarrow> hmem res" where
  "hlist_add_head n b m =
     (if n = NULL then Inl Bad_Pointer
      else let f = first m b;
               m1 = m\<lparr>hnext := (hnext m)(n := f)\<rparr>;
               m2 = (if f \<noteq> NULL then m1\<lparr>pprev := (pprev m1)(f := Next n)\<rparr> else m1);
               m3 = m2\<lparr>first := (first m2)(b := n)\<rparr>
           in Inr (m3\<lparr>pprev := (pprev m3)(n := Head b)\<rparr>))"

definition hlist_unhashed :: "ptr \<Rightarrow> hmem \<Rightarrow> bool" where
  "hlist_unhashed n m \<longleftrightarrow> pprev m n = HNil"

definition hlist_empty :: "nat \<Rightarrow> hmem \<Rightarrow> bool" where
  "hlist_empty b m \<longleftrightarrow> first m b = NULL"

definition hash_hashed :: "ptr \<Rightarrow> hmem \<Rightarrow> bool" where
  "hash_hashed n m \<longleftrightarrow> \<not> hlist_unhashed n m"

text \<open>The assignment \<open>*pprev = next\<close>.\<close>

fun hstore :: "hloc \<Rightarrow> ptr \<Rightarrow> hmem \<Rightarrow> hmem res" where
  "hstore HNil v m = Inl Bad_Pointer"
| "hstore (Head b) v m = Inr (m\<lparr>first := (first m)(b := v)\<rparr>)"
| "hstore (Next q) v m =
     (if q = NULL then Inl Bad_Pointer else Inr (m\<lparr>hnext := (hnext m)(q := v)\<rparr>))"

definition hlist_del :: "ptr \<Rightarrow> hmem \<Rightarrow> hmem res" where
  "hlist_del n m =
     (let nx = hnext m n; pp = pprev m n
      in ebind (hstore pp nx m) (\<lambda>m.
           Inr (if nx \<noteq> NULL then m\<lparr>pprev := (pprev m)(nx := pp)\<rparr> else m)))"

definition hlist_del_init :: "ptr \<Rightarrow> hmem \<Rightarrow> hmem res" where
  "hlist_del_init n m =
     (if n = NULL then Inl Bad_Pointer
      else if \<not> hlist_unhashed n m then ebind (hlist_del n m) (INIT_HLIST_NODE n)
      else Inr m)"

text \<open>\<open>hlist_for_each_entry\<close> from a node on, and its safe variant with the loop body.\<close>

partial_function (option) hlist_for_each :: "hmem \<Rightarrow> ptr \<Rightarrow> ptr list option" where
  "hlist_for_each m n =
     (if n = NULL then Some []
      else Option.bind (hlist_for_each m (hnext m n)) (\<lambda>xs. Some (n # xs)))"

partial_function (option) hlist_for_each_safe ::
    "(ptr \<Rightarrow> hmem \<Rightarrow> hmem res) \<Rightarrow> ptr \<Rightarrow> hmem \<Rightarrow> hmem res option" where
  "hlist_for_each_safe body pos m =
     (if pos = NULL then Some (Inr m)
      else let n = hnext m pos
           in case body pos m of
                Inl e \<Rightarrow> Some (Inl e)
              | Inr m' \<Rightarrow> hlist_for_each_safe body n m')"

section \<open>The table\<close>

definition hash_init :: "nat \<Rightarrow> hmem \<Rightarrow> hmem" where
  "hash_init sz m = fold INIT_HLIST_HEAD [0..<sz] m"

definition hash_empty :: "nat \<Rightarrow> hmem \<Rightarrow> bool" where
  "hash_empty sz m \<longleftrightarrow> list_all (\<lambda>b. hlist_empty b m) [0..<sz]"

definition hash_add :: "ptr \<Rightarrow> u64 \<Rightarrow> hmem \<Rightarrow> hmem res" where
  "hash_add node key m = hlist_add_head node (slot_ulong key) m"

definition hash_del :: "ptr \<Rightarrow> hmem \<Rightarrow> hmem res" where
  "hash_del node m = hlist_del_init node m"

definition hash_for_each_possible :: "u64 \<Rightarrow> hmem \<Rightarrow> ptr list option" where
  "hash_for_each_possible key m = hlist_for_each m (first m (slot_int key))"

text \<open>The loop over the buckets goes on as long as the loop over a chain has run to its end,
  where the object pointer is null.\<close>

fun hash_for_each_from :: "nat list \<Rightarrow> hmem \<Rightarrow> ptr list option" where
  "hash_for_each_from [] m = Some []"
| "hash_for_each_from (b # bs) m =
     Option.bind (hlist_for_each m (first m b)) (\<lambda>xs.
       Option.bind (hash_for_each_from bs m) (\<lambda>ys. Some (xs @ ys)))"

definition hash_for_each :: "hmem \<Rightarrow> ptr list option" where
  "hash_for_each m = hash_for_each_from [0..<HASH_SIZE] m"

section \<open>Chains as sequences\<close>

type_synonym buckets = "nat \<Rightarrow> ptr list"

definition bkt_add :: "nat \<Rightarrow> ptr \<Rightarrow> buckets \<Rightarrow> buckets" where
  "bkt_add b p B = B(b := p # B b)"

definition bkt_del :: "ptr \<Rightarrow> buckets \<Rightarrow> buckets" where
  "bkt_del p B = (\<lambda>b. remove1 p (B b))"

definition bkt_all :: "buckets \<Rightarrow> ptr list" where
  "bkt_all B = concat (map B [0..<HASH_SIZE])"

datatype hash_op = Hash_Add u64 ptr | Hash_Del ptr

fun hash_exec :: "hash_op \<Rightarrow> hmem \<Rightarrow> hmem res" where
  "hash_exec (Hash_Add k p) m = hash_add p k m"
| "hash_exec (Hash_Del p) m = hash_del p m"

fun bkt_exec :: "hash_op \<Rightarrow> buckets \<Rightarrow> buckets" where
  "bkt_exec (Hash_Add k p) B = bkt_add (slot_ulong k) p B"
| "bkt_exec (Hash_Del p) B = bkt_del p B"

fun bkt_pre :: "hash_op \<Rightarrow> buckets \<Rightarrow> bool" where
  "bkt_pre (Hash_Add k p) B \<longleftrightarrow> p \<noteq> NULL \<and> p \<notin> set (bkt_all B)"
| "bkt_pre (Hash_Del p) B \<longleftrightarrow> p \<in> set (bkt_all B)"

fun hval :: "(nat \<Rightarrow> ptr) \<Rightarrow> (ptr \<Rightarrow> ptr) \<Rightarrow> hloc \<Rightarrow> ptr" where
  "hval f n HNil = NULL"
| "hval f n (Head b) = f b"
| "hval f n (Next q) = n q"

fun hseg :: "(nat \<Rightarrow> ptr) \<Rightarrow> (ptr \<Rightarrow> ptr) \<Rightarrow> (ptr \<Rightarrow> hloc) \<Rightarrow> hloc \<Rightarrow> ptr list \<Rightarrow> bool" where
  "hseg f n p l [] \<longleftrightarrow> hval f n l = NULL"
| "hseg f n p l (x # xs) \<longleftrightarrow> hval f n l = x \<and> p x = l \<and> hseg f n p (Next x) xs"

definition htab :: "hmem \<Rightarrow> buckets \<Rightarrow> bool" where
  "htab m B \<longleftrightarrow>
     distinct (bkt_all B) \<and> NULL \<notin> set (bkt_all B) \<and>
     (\<forall>b < HASH_SIZE. hseg (first m) (hnext m) (pprev m) (Head b) (B b))"

section \<open>Lemmas on the hash functions\<close>

lemma two_power_eq_iff:
  assumes "i < 64" and "j < 64"
  shows "(2 :: u64) ^ i = 2 ^ j \<longleftrightarrow> i = j"
proof
  assume "(2 :: u64) ^ i = 2 ^ j"
  then have "bit ((2 :: u64) ^ i) i = bit ((2 :: u64) ^ j) i" by simp
  with assms show "i = j" by (simp add: bit_exp_iff)
qed simp

lemma ilog2_loop_power:
  assumes "l \<le> k" and "k < 64"
  shows "ilog2_loop l (2 ^ k) = Inr k"
  using assms
proof (induction "k - l" arbitrary: l)
  case 0
  then show ?case by (subst ilog2_loop.simps) simp
next
  case (Suc d)
  then have "ilog2_loop (Suc l) (2 ^ k) = Inr k" by simp
  with Suc show ?case
    by (subst ilog2_loop.simps) (simp add: two_power_eq_iff)
qed

lemma HASH_SIZE_eq: "HASH_SIZE = 4096"
  by (simp add: HASH_SIZE_def FILE_HASH_BITS_def)

lemma HASH_BITS_eq [simp]: "HASH_BITS = 12"
  using ilog2_loop_power [of 0 12] by (simp add: HASH_BITS_def ilog2_def HASH_SIZE_eq)

lemma hash_32_bound:
  assumes "bits \<le> 32"
  shows "unat (hash_32 v bits) < 2 ^ bits"
proof -
  let ?w = "ucast ((ucast v :: u64) * GOLDEN_RATIO_PRIME_32) :: u32"
  have "unat (drop_bit (32 - bits) ?w) = unat ?w div 2 ^ (32 - bits)"
    by (subst unat_drop_bit_eq) (rule drop_bit_eq_div)
  moreover have "unat ?w < 2 ^ bits * 2 ^ (32 - bits)"
    using unsigned_less [where w = ?w] assms by (simp flip: power_add)
  ultimately show ?thesis
    by (simp add: hash_32_def less_mult_imp_div_less)
qed

lemma slot_ulong_less [simp]: "slot_ulong key < HASH_SIZE"
  using hash_32_bound [of 12 "ucast key"]
  by (simp add: slot_ulong_def hash_min_def HASH_SIZE_eq)

lemma slot_int_eq [simp]: "slot_int key = slot_ulong key"
  by (simp add: slot_int_def slot_ulong_def)

section \<open>Lemmas on chains\<close>

lemma hval_upd [simp]:
  "l \<noteq> Next u \<Longrightarrow> hval f (n(u := v)) l = hval f n l"
  "l \<noteq> Head b \<Longrightarrow> hval (f(b := v)) n l = hval f n l"
  by (cases l; simp)+

lemma hseg_upd_next [simp]:
  "l \<noteq> Next u \<Longrightarrow> u \<notin> set xs \<Longrightarrow> hseg f (n(u := v)) p l xs = hseg f n p l xs"
  by (induction xs arbitrary: l) auto

lemma hseg_upd_pprev [simp]:
  "u \<notin> set xs \<Longrightarrow> hseg f n (p(u := v)) l xs = hseg f n p l xs"
  by (induction xs arbitrary: l) auto

lemma hseg_if_pprev [simp]:
  "u \<notin> set xs \<Longrightarrow> hseg f n (\<lambda>a. if a = u then v else p a) l xs = hseg f n p l xs"
  by (induction xs arbitrary: l) auto

lemma hseg_upd_first [simp]:
  "l \<noteq> Head b \<Longrightarrow> hseg (f(b := v)) n p l xs = hseg f n p l xs"
  by (induction xs arbitrary: l) auto

text \<open>No node is in two chains, or twice in one.\<close>

lemma set_bkt_all: "set (bkt_all B) = (\<Union>b < HASH_SIZE. set (B b))"
  by (simp add: bkt_all_def atLeast0LessThan)

lemma concat_upt_disjoint:
  "set (concat (map B [0..<k])) \<inter> S = {} \<longleftrightarrow> (\<forall>b < k. set (B b) \<inter> S = {})"
  by (induction k) (auto simp: less_Suc_eq)

lemma distinct_concat_upt:
  "distinct (concat (map B [0..<k])) \<longleftrightarrow>
     (\<forall>b < k. distinct (B b) \<and> (\<forall>c < b. set (B c) \<inter> set (B b) = {}))"
proof (induction k)
  case 0
  then show ?case by simp
next
  case (Suc k)
  have "distinct (concat (map B [0..<Suc k])) \<longleftrightarrow>
      distinct (concat (map B [0..<k])) \<and> distinct (B k) \<and>
      (\<forall>c < k. set (B c) \<inter> set (B k) = {})"
    by (simp only: upt_Suc_append map_append concat_append distinct_append
          concat_upt_disjoint le0 list.map concat.simps append_Nil2)
  then show ?case unfolding Suc.IH All_less_Suc by blast
qed

lemma distinct_bkt_all:
  "distinct (bkt_all B) \<longleftrightarrow>
     (\<forall>b < HASH_SIZE. distinct (B b)) \<and>
     (\<forall>b < HASH_SIZE. \<forall>c < HASH_SIZE. b \<noteq> c \<longrightarrow> set (B b) \<inter> set (B c) = {})"
    (is "_ \<longleftrightarrow> ?D \<and> ?P")
proof
  assume "distinct (bkt_all B)"
  then have D: ?D and lt: "\<And>b c. c < b \<Longrightarrow> b < HASH_SIZE \<Longrightarrow> set (B c) \<inter> set (B b) = {}"
    unfolding bkt_all_def distinct_concat_upt by blast+
  have "set (B b) \<inter> set (B c) = {}" if "b < HASH_SIZE" "c < HASH_SIZE" "b \<noteq> c" for b c
    using lt [of c b] lt [of b c] that by (cases "c < b") auto
  with D show "?D \<and> ?P" by blast
next
  assume DP: "?D \<and> ?P"
  have "set (B c) \<inter> set (B b) = {}" if "b < HASH_SIZE" "c < b" for b c
    using DP that less_trans [OF that(2,1)] by (metis less_irrefl)
  with DP show "distinct (bkt_all B)"
    unfolding bkt_all_def distinct_concat_upt by blast
qed

lemma set_bkt_add [simp]:
  "b < HASH_SIZE \<Longrightarrow> set (bkt_all (bkt_add b p B)) = insert p (set (bkt_all B))"
  by (auto simp: set_bkt_all bkt_add_def split: if_splits)

lemma set_bkt_del [simp]:
  "distinct (bkt_all B) \<Longrightarrow> set (bkt_all (bkt_del p B)) = set (bkt_all B) - {p}"
  by (fastforce simp: set_bkt_all bkt_del_def distinct_bkt_all)

lemma distinct_bkt_add [simp]:
  assumes "distinct (bkt_all B)" and "p \<notin> set (bkt_all B)"
  shows "distinct (bkt_all (bkt_add b p B))"
  using assms by (auto simp: distinct_bkt_all set_bkt_all bkt_add_def)

lemma distinct_bkt_del [simp]:
  assumes "distinct (bkt_all B)"
  shows "distinct (bkt_all (bkt_del p B))"
  using assms
  by (auto simp: distinct_bkt_all bkt_del_def disjoint_iff dest: notin_set_remove1)

text \<open>Unlinking a node in the middle of a chain.\<close>

fun put_first :: "hloc \<Rightarrow> ptr \<Rightarrow> (nat \<Rightarrow> ptr) \<Rightarrow> (nat \<Rightarrow> ptr)" where
  "put_first (Head b) v f = f(b := v)"
| "put_first l v f = f"

fun put_next :: "hloc \<Rightarrow> ptr \<Rightarrow> (ptr \<Rightarrow> ptr) \<Rightarrow> (ptr \<Rightarrow> ptr)" where
  "put_next (Next q) v n = n(q := v)"
| "put_next l v n = n"

definition repoint :: "ptr \<Rightarrow> hloc \<Rightarrow> (ptr \<Rightarrow> hloc) \<Rightarrow> (ptr \<Rightarrow> hloc)" where
  "repoint v l p = (if v = NULL then p else p(v := l))"

lemma repoint_apply [simp]: "repoint v l p x = (if x = v \<and> v \<noteq> NULL then l else p x)"
  by (simp add: repoint_def)

lemma hseg_repoint [simp]:
  "v = NULL \<or> v \<notin> set xs \<Longrightarrow> hseg f n (repoint v l' p) l xs = hseg f n p l xs"
  by (auto simp: repoint_def)

lemma hseg_pprev:
  "hseg f n p l (ys @ x # zs) \<Longrightarrow> p x = (if ys = [] then l else Next (last ys))"
  by (induction ys arbitrary: l) (auto split: if_splits)

lemma hseg_next: "hseg f n p l (ys @ x # zs) \<Longrightarrow> n x = hd (zs @ [NULL])"
  by (induction ys arbitrary: l) (cases zs; auto)+

lemma hval_put [simp]:
  "l \<noteq> HNil \<Longrightarrow> hval (put_first l v f) (put_next l v n) l = v"
  by (cases l) auto

lemma hval_put_other [simp]:
  "k \<noteq> l \<Longrightarrow> hval (put_first k v f) (put_next k v n) l = hval f n l"
  by (cases l; cases k) auto

lemma hseg_put_other:
  "k \<noteq> l \<Longrightarrow> \<forall>q \<in> set xs. k \<noteq> Next q \<Longrightarrow>
   hseg (put_first k v f) (put_next k v n) p l xs = hseg f n p l xs"
  by (induction xs arbitrary: l) auto

lemma hseg_unlink:
  assumes "hseg f n p l (ys @ x # zs)" and "distinct (ys @ x # zs)"
    and "NULL \<notin> set (ys @ x # zs)" and "l \<noteq> HNil" and "\<forall>q \<in> set (ys @ x # zs). l \<noteq> Next q"
  shows "hseg (put_first (p x) (n x) f) (put_next (p x) (n x) n)
           (repoint (n x) (p x) p) l (ys @ zs)"
  using assms
proof (induction ys arbitrary: l)
  case Nil
  then have x: "hval f n l = x" "p x = l" "hseg f n p (Next x) zs" by simp_all
  show ?case
  proof (cases zs)
    case Nil
    with x \<open>l \<noteq> HNil\<close> show ?thesis by simp
  next
    case (Cons z zs')
    with Nil.prems x show ?thesis by (simp add: hseg_put_other)
  qed
next
  case (Cons y ys)
  let ?p = "repoint (n x) (p x) p"
  have px: "p x \<noteq> l"
    using hseg_pprev [OF Cons.prems(1)] Cons.prems(5) by (auto split: if_splits)
  have nx: "n x \<noteq> y"
    using hseg_next [OF Cons.prems(1)] Cons.prems(2,3) by (cases zs) auto
  have "hseg (put_first (p x) (n x) f) (put_next (p x) (n x) n) ?p (Next y) (ys @ zs)"
    by (rule Cons.IH) (use Cons.prems in auto)
  moreover have "?p y = l" using Cons.prems(1) nx by simp
  ultimately show ?case
    using Cons.prems(1) px by (simp del: repoint_apply)
qed

text \<open>The two table operations, on a table that represents the chains \<open>B\<close>.\<close>

lemma htab_chain:
  assumes "htab m B" and "b < HASH_SIZE"
  shows "hseg (first m) (hnext m) (pprev m) (Head b) (B b)" "distinct (B b)" "NULL \<notin> set (B b)"
    and "first m b = hd (B b @ [NULL])"
proof -
  show "hseg (first m) (hnext m) (pprev m) (Head b) (B b)"
    using assms by (simp add: htab_def)
  then show "first m b = hd (B b @ [NULL])" by (cases "B b") auto
  show "distinct (B b)" "NULL \<notin> set (B b)"
    using assms by (simp_all add: htab_def distinct_bkt_all set_bkt_all)
qed

lemma htab_other_chain:
  assumes "htab m B" and "b < HASH_SIZE" and "c < HASH_SIZE" and "c \<noteq> b" and "q \<in> set (B b)"
  shows "q \<notin> set (B c)"
  using assms by (auto simp: htab_def distinct_bkt_all disjoint_iff)

lemma htab_hlist_add_head:
  assumes m: "htab m B" and p: "p \<noteq> NULL" "p \<notin> set (bkt_all B)" and b: "b < HASH_SIZE"
  shows "\<exists>m'. hlist_add_head p b m = Inr m' \<and> htab m' (bkt_add b p B)"
proof -
  note chain = htab_chain [OF m]
  let ?f = "first m b"
  let ?m' = "m\<lparr>first := (first m)(b := p), hnext := (hnext m)(p := ?f),
      pprev := (repoint ?f (Next p) (pprev m))(p := Head b)\<rparr>"
  have run: "hlist_add_head p b m = Inr ?m'"
    using p by (simp add: hlist_add_head_def Let_def repoint_def)
  have pB: "p \<notin> set (B c)" if "c < HASH_SIZE" for c
    using p that by (simp add: set_bkt_all)
  have same: "hseg (first ?m') (hnext ?m') (pprev ?m') (Head b) (p # B b)"
    using chain [OF b] p(1) pB [OF b] by (cases "B b") auto
  have other: "hseg (first ?m') (hnext ?m') (pprev ?m') (Head c) (B c)"
    if c: "c < HASH_SIZE" "c \<noteq> b" for c
  proof -
    have "?f \<notin> set (B c)"
      using chain(4) [OF b] chain(3) [OF c(1)] htab_other_chain [OF m b c]
      by (cases "B b") auto
    with pB [OF c(1)] show ?thesis using chain(1) [OF c(1)] c by simp
  qed
  have "htab ?m' (bkt_add b p B)"
    unfolding htab_def
  proof (intro conjI allI impI)
    show "distinct (bkt_all (bkt_add b p B))" "NULL \<notin> set (bkt_all (bkt_add b p B))"
      using m p b by (simp_all add: htab_def)
    fix c assume "c < HASH_SIZE"
    then show "hseg (first ?m') (hnext ?m') (pprev ?m') (Head c) (bkt_add b p B c)"
      using same other unfolding bkt_add_def by (cases "c = b") auto
  qed
  with run show ?thesis by blast
qed

lemma hlist_del_init_eq:
  assumes "n \<noteq> NULL" and "pprev m n \<noteq> HNil" and "pprev m n \<noteq> Next NULL"
  shows "hlist_del_init n m = Inr (m\<lparr>
      first := put_first (pprev m n) (hnext m n) (first m),
      hnext := (put_next (pprev m n) (hnext m n) (hnext m))(n := NULL),
      pprev := (repoint (hnext m n) (pprev m n) (pprev m))(n := HNil)\<rparr>)"
  using assms
  by (cases "pprev m n")
     (auto simp: hlist_del_init_def hlist_unhashed_def hlist_del_def INIT_HLIST_NODE_def Let_def
        repoint_def)

lemma htab_hlist_del_init:
  assumes m: "htab m B" and p: "p \<in> set (bkt_all B)"
  shows "\<exists>m'. hlist_del_init p m = Inr m' \<and> htab m' (bkt_del p B) \<and> hlist_unhashed p m'"
proof -
  note chain = htab_chain [OF m]
  from p obtain b where b: "b < HASH_SIZE" "p \<in> set (B b)" by (auto simp: set_bkt_all)
  then obtain ys zs where split: "B b = ys @ p # zs" using split_list by metis
  let ?pp = "pprev m p" and ?nx = "hnext m p"
  have pp: "?pp = (if ys = [] then Head b else Next (last ys))"
    using hseg_pprev chain(1) [OF b(1)] split by metis
  have nx: "?nx = hd (zs @ [NULL])" using hseg_next chain(1) [OF b(1)] split by metis
  have "last ys \<noteq> NULL" if "ys \<noteq> []"
    using last_in_set [OF that] chain(3) [OF b(1)] split by (metis UnI1 set_append)
  then have nn: "p \<noteq> NULL" "?pp \<noteq> HNil" "?pp \<noteq> Next NULL" and d: "p \<notin> set ys" "p \<notin> set zs"
    using chain(2,3) [OF b(1)] split pp by (auto split: if_splits)
  have ppb: "?pp = Head b \<and> ys = [] \<or> (\<exists>q \<in> set (B b). ?pp = Next q)"
    using pp split last_in_set [of ys] by (cases "ys = []") simp_all
  have nxb: "?nx = NULL \<or> ?nx \<in> set (B b)" using nx split by (cases zs) simp_all
  let ?f = "put_first ?pp ?nx (first m)" and ?n = "put_next ?pp ?nx (hnext m)"
    and ?p = "repoint ?nx ?pp (pprev m)"
  let ?m' = "m\<lparr>first := ?f, hnext := ?n(p := NULL), pprev := ?p(p := HNil)\<rparr>"
  have same: "hseg ?f ?n ?p (Head b) (ys @ zs)"
    using hseg_unlink [of "first m" "hnext m" "pprev m" "Head b" ys p zs] chain [OF b(1)] split
    by simp
  have other: "hseg ?f ?n ?p (Head c) (B c) \<and> p \<notin> set (B c)" if c: "c < HASH_SIZE" "c \<noteq> b" for c
  proof -
    note oc = htab_other_chain [OF m b(1) c]
    have "\<forall>q \<in> set (B c). ?pp \<noteq> Next q" using oc ppb by auto
    moreover have "?pp \<noteq> Head c" using ppb c by auto
    moreover have "?nx = NULL \<or> ?nx \<notin> set (B c)" using oc nxb by blast
    moreover have "p \<notin> set (B c)" using oc b(2) by blast
    ultimately show ?thesis
      using chain(1) [OF c(1)] by (simp add: hseg_put_other del: repoint_apply)
  qed
  have "bkt_del p B b = ys @ zs"
    using split d by (simp add: bkt_del_def remove1_append)
  then have "hseg (first ?m') (hnext ?m') (pprev ?m') (Head c) (bkt_del p B c)"
    if "c < HASH_SIZE" for c
    using that same other d
    by (cases "c = b") (simp_all add: bkt_del_def remove1_idem del: repoint_apply)
  then have "htab ?m' (bkt_del p B)"
    using m by (simp add: htab_def)
  moreover have "hlist_unhashed p ?m'" by (simp add: hlist_unhashed_def)
  ultimately show ?thesis using hlist_del_init_eq [OF nn] by auto
qed

lemma htab_hash_init: "htab (hash_init HASH_SIZE m) (\<lambda>_. [])"
proof -
  have "first (fold INIT_HLIST_HEAD bs m) = (\<lambda>b. if b \<in> set bs then NULL else first m b)" for bs
    by (induction bs arbitrary: m) (auto simp: INIT_HLIST_HEAD_def fun_eq_iff)
  moreover have "bkt_all (\<lambda>_. []) = []" by (simp add: bkt_all_def)
  ultimately show ?thesis by (simp add: htab_def hash_init_def)
qed

lemma hlist_for_each_hseg:
  "hseg f (hnext m) p l xs \<Longrightarrow> NULL \<notin> set xs \<Longrightarrow>
   hlist_for_each m (hval f (hnext m) l) = Some xs"
proof (induction xs arbitrary: l)
  case Nil
  then show ?case by (simp add: hlist_for_each.simps)
next
  case (Cons x xs)
  from Cons.prems have "hlist_for_each m (hval f (hnext m) (Next x)) = Some xs"
    by (intro Cons.IH) simp_all
  with Cons.prems show ?case by (simp add: hlist_for_each.simps [of m x])
qed

lemma hlist_for_each_bucket:
  "htab m B \<Longrightarrow> b < HASH_SIZE \<Longrightarrow> hlist_for_each m (first m b) = Some (B b)"
  using hlist_for_each_hseg [of "first m" m "pprev m" "Head b" "B b"] htab_chain [of m B b] by simp

lemma hash_for_each_all: "htab m B \<Longrightarrow> hash_for_each m = Some (bkt_all B)"
proof -
  assume m: "htab m B"
  have "hash_for_each_from bs m = Some (concat (map B bs))" if "\<forall>b \<in> set bs. b < HASH_SIZE" for bs
    using that by (induction bs) (simp_all add: hlist_for_each_bucket [OF m])
  then show ?thesis by (simp add: hash_for_each_def bkt_all_def)
qed

section \<open>The table operations refine operations on chains\<close>

interpretation hsh: data_refinement htab hash_exec bkt_exec bkt_pre
proof
  fix m B x
  assume m: "htab m B" and pre: "bkt_pre x B"
  show "\<exists>m'. hash_exec x m = Inr m' \<and> htab m' (bkt_exec x B)"
  proof (cases x)
    case (Hash_Add k p)
    with pre htab_hlist_add_head [OF m, of p "slot_ulong k"] show ?thesis
      by (simp add: hash_add_def)
  next
    case (Hash_Del p)
    with pre htab_hlist_del_init [OF m, of p] show ?thesis by (auto simp: hash_del_def)
  qed
qed

text \<open>
  C28. The bucket of a name is the same whether its ELF hash reaches \<open>hash_32\<close> as an
  \<open>unsigned long\<close> (as in \<open>file_entry_add\<close>) or through an \<open>int\<close> (as in
  \<open>__file_table_search\<close>), \<open>ilog2\<close> of the table size stops with the number of hash bits, and
  every bucket index stays inside the array.
\<close>

theorem slot_agrees_and_in_bounds:
  "slot_int (ELFhash name) = slot_ulong (ELFhash name) \<and>
   ilog2 (of_nat HASH_SIZE) = Inr FILE_HASH_BITS \<and>
   slot_ulong (ELFhash name) < HASH_SIZE"
  using ilog2_loop_power [of 0 12] slot_ulong_less [of "ELFhash name"]
  by (simp add: ilog2_def HASH_SIZE_eq FILE_HASH_BITS_def)

text \<open>
  C27. After \<open>hash_init\<close>, every sequence of \<open>hash_add\<close> and \<open>hash_del\<close> calls that inserts only
  unhashed nodes and removes only hashed ones runs without a bad pointer access, and the
  pointers of the table then represent the chains the same calls give on plain sequences:
  \<open>hash_for_each\<close> terminates and visits every node once, \<open>hash_for_each_possible\<close> visits the
  chain of the key's bucket.
\<close>

theorem hash_ops_refine_chains:
  assumes "run_pre bkt_pre bkt_exec ops (\<lambda>_. [])"
  shows "\<exists>m'. efold hash_exec ops (hash_init HASH_SIZE m) = Inr m' \<and>
      (let B = fold bkt_exec ops (\<lambda>_. []) in
         htab m' B \<and> hash_for_each m' = Some (bkt_all B) \<and> distinct (bkt_all B) \<and>
         (\<forall>key. hash_for_each_possible key m' = Some (B (slot_ulong key))))"
proof -
  let ?B = "fold bkt_exec ops (\<lambda>_. [])"
  obtain m' where m': "efold hash_exec ops (hash_init HASH_SIZE m) = Inr m'" "htab m' ?B"
    using hsh.run_refines [OF htab_hash_init assms] by blast
  then show ?thesis
    by (auto simp: Let_def hash_for_each_all hash_for_each_possible_def hlist_for_each_bucket
          htab_def)
qed

theorem hash_ops_refine_chains_witness:
  "\<exists>m'. efold hash_exec [Hash_Add (ELFhash ''1/a'') 7, Hash_Add (ELFhash ''1/b'') 9, Hash_Del 7]
        (hash_init HASH_SIZE \<lparr>first = (\<lambda>_. 0), hnext = (\<lambda>_. 0), pprev = (\<lambda>_. HNil)\<rparr>) = Inr m' \<and>
      hash_for_each_possible (ELFhash ''1/b'') m' = Some [9]"
proof -
  let ?ops = "[Hash_Add (ELFhash ''1/a'') 7, Hash_Add (ELFhash ''1/b'') 9, Hash_Del 7]"
  have empty: "bkt_all (\<lambda>_. []) = []" by (simp add: bkt_all_def)
  have pre: "run_pre bkt_pre bkt_exec ?ops (\<lambda>_. [])" by (simp add: empty)
  have "fold bkt_exec ?ops (\<lambda>_. []) (slot_ulong (ELFhash ''1/b'')) = [9]"
    by (simp add: bkt_add_def bkt_del_def)
  then show ?thesis
    using hash_ops_refine_chains [OF pre, of "\<lparr>first = (\<lambda>_. 0), hnext = (\<lambda>_. 0), pprev = (\<lambda>_. HNil)\<rparr>"]
    by (auto simp: Let_def)
qed

end
