(* ===== verification/LinkedList.thy ===== *)
theory LinkedList
  imports Prelude
begin

text \<open>
  The circular doubly linked lists of \<open>include/list.h\<close> and \<open>utility/list.c\<close>, at the level of
  their pointers: every \<open>struct list_head\<close> is an address, its two fields are two functions on
  addresses. The predicate \<open>dll\<close> says which sequence of nodes a list head stands for, and the
  lemmas show that the operations of the code act on that sequence as insertion in front,
  insertion at the back and removal, and that the two traversal macros visit exactly it.
\<close>

section \<open>Nodes and operations\<close>

record lmem =
  prv :: "ptr \<Rightarrow> ptr"
  nxt :: "ptr \<Rightarrow> ptr"

definition LIST_NULL :: int where
  "LIST_NULL = -1"

definition LIST_SUCCESS :: int where
  "LIST_SUCCESS = 1"

definition set_next :: "ptr \<Rightarrow> ptr \<Rightarrow> lmem \<Rightarrow> lmem res" where
  "set_next a v m = (if a = NULL then Inl Bad_Pointer else Inr (m\<lparr>nxt := (nxt m)(a := v)\<rparr>))"

definition set_prev :: "ptr \<Rightarrow> ptr \<Rightarrow> lmem \<Rightarrow> lmem res" where
  "set_prev a v m = (if a = NULL then Inl Bad_Pointer else Inr (m\<lparr>prv := (prv m)(a := v)\<rparr>))"

definition INIT_LIST_HEAD :: "ptr \<Rightarrow> lmem \<Rightarrow> lmem res" where
  "INIT_LIST_HEAD h m = ebind (set_next h h m) (set_prev h h)"

definition INIT_LIST_ELM :: "ptr \<Rightarrow> lmem \<Rightarrow> lmem res" where
  "INIT_LIST_ELM le m = ebind (set_next le NULL m) (set_prev le NULL)"

definition list_empty :: "ptr \<Rightarrow> lmem \<Rightarrow> bool" where
  "list_empty head m \<longleftrightarrow> head = nxt m head"

definition list_first :: "ptr \<Rightarrow> lmem \<Rightarrow> ptr" where
  "list_first head m = nxt m head"

definition list_unattached :: "ptr \<Rightarrow> lmem \<Rightarrow> bool" where
  "list_unattached le m \<longleftrightarrow> nxt m le = NULL \<and> prv m le = NULL"

definition listelm_detach :: "ptr \<Rightarrow> ptr \<Rightarrow> lmem \<Rightarrow> (int \<times> lmem) res" where
  "listelm_detach p n m =
     ebind (set_prev n p m) (\<lambda>m. ebind (set_next p n m) (\<lambda>m. Inr (LIST_SUCCESS, m)))"

definition listelm_add :: "ptr \<Rightarrow> ptr \<Rightarrow> ptr \<Rightarrow> lmem \<Rightarrow> (int \<times> lmem) res" where
  "listelm_add le p n m =
     ebind (set_next p le m) (\<lambda>m. ebind (set_prev le p m) (\<lambda>m. ebind (set_next le n m)
       (\<lambda>m. ebind (set_prev n le m) (\<lambda>m. Inr (LIST_SUCCESS, m)))))"

definition list_add :: "ptr \<Rightarrow> ptr \<Rightarrow> lmem \<Rightarrow> (int \<times> lmem) res" where
  "list_add head le m =
     (if head = NULL \<or> le = NULL then Inr (LIST_NULL, m)
      else ebind (listelm_add le head (nxt m head) m) (\<lambda>(_, m). Inr (LIST_SUCCESS, m)))"

definition list_add_tail :: "ptr \<Rightarrow> ptr \<Rightarrow> lmem \<Rightarrow> (int \<times> lmem) res" where
  "list_add_tail head le m =
     (if head = NULL \<or> le = NULL then Inr (LIST_NULL, m)
      else ebind (listelm_add le (prv m head) head m) (\<lambda>(_, m). Inr (LIST_SUCCESS, m)))"

definition list_del :: "ptr \<Rightarrow> lmem \<Rightarrow> (int \<times> lmem) res" where
  "list_del le m =
     (if le = NULL then Inr (LIST_NULL, m)
      else if list_unattached le m then Inr (LIST_NULL, m)
      else ebind (listelm_detach (prv m le) (nxt m le) m) (\<lambda>(_, m).
           ebind (set_prev le NULL m) (\<lambda>m. ebind (set_next le NULL m)
             (\<lambda>m. Inr (LIST_SUCCESS, m)))))"

definition list_del_init :: "ptr \<Rightarrow> lmem \<Rightarrow> (int \<times> lmem) res" where
  "list_del_init le m =
     ebind (list_del le m) (\<lambda>(ret, m).
       ebind (set_prev le le m) (\<lambda>m. ebind (set_next le le m) (\<lambda>m. Inr (ret, m))))"

text \<open>
  The macro \<open>list_for_each\<close>: the nodes visited from \<open>cur\<close> on. A traversal that never meets
  the head again does not return (\<open>None\<close>); one that runs into a null pointer is an error.
\<close>

partial_function (option) list_for_each :: "lmem \<Rightarrow> ptr \<Rightarrow> ptr \<Rightarrow> ptr list res option" where
  "list_for_each m head cur =
     (if cur = head then Some (Inr [])
      else if cur = NULL then Some (Inl Bad_Pointer)
      else Option.bind (list_for_each m head (nxt m cur))
             (\<lambda>r. Some (ebind r (\<lambda>xs. Inr (cur # xs)))))"

text \<open>
  The macro \<open>list_for_each_safe\<close> with its body: the successor is read before the body runs,
  so that the body may unlink the node it is given.
\<close>

partial_function (option) list_for_each_safe ::
    "(ptr \<Rightarrow> lmem \<Rightarrow> lmem res) \<Rightarrow> ptr \<Rightarrow> ptr \<Rightarrow> ptr \<Rightarrow> lmem \<Rightarrow> lmem res option" where
  "list_for_each_safe body head pos tmp m =
     (if pos = head then Some (Inr m)
      else case body pos m of
             Inl e \<Rightarrow> Some (Inl e)
           | Inr m' \<Rightarrow> (if tmp = NULL then Some (Inl Bad_Pointer)
                        else list_for_each_safe body head tmp (nxt m' tmp) m'))"

text \<open>The loop body of \<open>__peer_id_list_destroy\<close> and \<open>file_table_delete_owner\<close>: unlink a node
  that satisfies a condition on its object.\<close>

definition unlink_if :: "(ptr \<Rightarrow> bool) \<Rightarrow> ptr \<Rightarrow> lmem \<Rightarrow> lmem res" where
  "unlink_if P pos m = (if P pos then ebind (list_del pos m) (\<lambda>(_, m). Inr m) else Inr m)"

text \<open>The three ways the program changes a list, and what they do to the sequence of nodes.\<close>

datatype list_op = Add ptr | Add_Tail ptr | Del ptr

fun list_exec :: "ptr \<Rightarrow> list_op \<Rightarrow> lmem \<Rightarrow> lmem res" where
  "list_exec h (Add x) m = ebind (list_add h x m) (\<lambda>(_, m). Inr m)"
| "list_exec h (Add_Tail x) m = ebind (list_add_tail h x m) (\<lambda>(_, m). Inr m)"
| "list_exec h (Del x) m = ebind (list_del x m) (\<lambda>(_, m). Inr m)"

fun seq_exec :: "list_op \<Rightarrow> ptr list \<Rightarrow> ptr list" where
  "seq_exec (Add x) xs = x # xs"
| "seq_exec (Add_Tail x) xs = xs @ [x]"
| "seq_exec (Del x) xs = remove1 x xs"

text \<open>A node is inserted only while it is in no list, and unlinked only while it is in this one.\<close>

fun seq_pre :: "ptr \<Rightarrow> list_op \<Rightarrow> ptr list \<Rightarrow> bool" where
  "seq_pre h (Add x) xs \<longleftrightarrow> x \<noteq> NULL \<and> x \<notin> set (h # xs)"
| "seq_pre h (Add_Tail x) xs \<longleftrightarrow> x \<noteq> NULL \<and> x \<notin> set (h # xs)"
| "seq_pre h (Del x) xs \<longleftrightarrow> x \<in> set xs"

section \<open>The sequence a head stands for\<close>

fun links :: "(ptr \<Rightarrow> ptr) \<Rightarrow> (ptr \<Rightarrow> ptr) \<Rightarrow> ptr \<Rightarrow> ptr list \<Rightarrow> ptr \<Rightarrow> bool" where
  "links n p a [] b \<longleftrightarrow> n a = b \<and> p b = a"
| "links n p a (x # xs) b \<longleftrightarrow> n a = x \<and> p x = a \<and> links n p x xs b"

definition dll :: "lmem \<Rightarrow> ptr \<Rightarrow> ptr list \<Rightarrow> bool" where
  "dll m h xs \<longleftrightarrow> distinct (h # xs) \<and> NULL \<notin> set (h # xs) \<and> links (nxt m) (prv m) h xs h"

section \<open>Lemmas\<close>

lemma links_append [simp]:
  "links n p a (xs @ y # ys) b \<longleftrightarrow> links n p a xs y \<and> links n p y ys b"
  by (induction xs arbitrary: a) auto

lemma links_upd_nxt [simp]:
  "u \<noteq> a \<Longrightarrow> u \<notin> set xs \<Longrightarrow> links (n(u := v)) p a xs b = links n p a xs b"
  by (induction xs arbitrary: a) auto

lemma links_upd_prv [simp]:
  "u \<noteq> b \<Longrightarrow> u \<notin> set xs \<Longrightarrow> links n (p(u := v)) a xs b = links n p a xs b"
  by (induction xs arbitrary: a) auto

lemma links_first: "links n p a xs b \<Longrightarrow> n a = hd (xs @ [b])"
  by (cases xs) auto

lemma links_last: "links n p a xs b \<Longrightarrow> p b = last (a # xs)"
  by (induction xs arbitrary: a) auto

lemmas list_op_defs = set_next_def set_prev_def listelm_detach_def listelm_add_def

lemma INIT_LIST_HEAD_dll:
  assumes "h \<noteq> NULL"
  shows "\<exists>m'. INIT_LIST_HEAD h m = Inr m' \<and> dll m' h []"
  using assms by (simp add: INIT_LIST_HEAD_def list_op_defs dll_def)

lemma list_empty_iff: "dll m h xs \<Longrightarrow> list_empty h m \<longleftrightarrow> xs = []"
  by (cases xs) (auto simp: dll_def list_empty_def)

lemma list_first_hd: "dll m h (x # xs) \<Longrightarrow> list_first h m = x"
  by (simp add: dll_def list_first_def)

lemma list_add_step:
  assumes "dll m h xs" and "le \<noteq> NULL" and "le \<notin> set (h # xs)"
  shows "\<exists>m'. list_add h le m = Inr (LIST_SUCCESS, m') \<and> dll m' h (le # xs)"
  using assms by (cases xs) (auto simp: list_add_def list_op_defs dll_def)

lemma list_add_tail_step:
  assumes "dll m h xs" and "le \<noteq> NULL" and "le \<notin> set (h # xs)"
  shows "\<exists>m'. list_add_tail h le m = Inr (LIST_SUCCESS, m') \<and> dll m' h (xs @ [le])"
  using assms by (cases xs rule: rev_cases) (auto simp: list_add_tail_def list_op_defs dll_def)

lemma dll_node_attached:
  assumes "dll m h (ys @ le # zs)"
  shows "prv m le = last (h # ys)" and "nxt m le = hd (zs @ [h])"
  using assms by (auto simp: dll_def dest: links_first links_last)

lemma list_del_step:
  assumes "dll m h (ys @ le # zs)"
  shows "\<exists>m'. list_del le m = Inr (LIST_SUCCESS, m') \<and> dll m' h (ys @ zs) \<and>
      list_unattached le m' \<and> (\<forall>q. q \<notin> set (h # ys @ le # zs) \<longrightarrow> nxt m' q = nxt m q)"
  using assms
  by (cases ys rule: rev_cases; cases zs)
     (auto simp: list_del_def list_op_defs dll_def list_unattached_def)

lemma list_del_unattached:
  "list_unattached le m \<Longrightarrow> list_del le m = Inr (LIST_NULL, m)"
  by (simp add: list_del_def)

lemma list_for_each_links:
  "links (nxt m) (prv m) a xs h \<Longrightarrow> NULL \<notin> set xs \<Longrightarrow> h \<notin> set xs \<Longrightarrow>
   list_for_each m h (nxt m a) = Some (Inr xs)"
proof (induction xs arbitrary: a)
  case Nil
  then show ?case by (simp add: list_for_each.simps)
next
  case (Cons x xs)
  then have "list_for_each m h (nxt m x) = Some (Inr xs)" by auto
  with Cons.prems show ?case by (auto simp: list_for_each.simps [of m h x])
qed

lemma list_for_each_dll: "dll m h xs \<Longrightarrow> list_for_each m h (nxt m h) = Some (Inr xs)"
  by (rule list_for_each_links) (auto simp: dll_def)

text \<open>A node of the list leaves the rest of the list intact when it is unlinked or kept.\<close>

lemma unlink_if_step:
  assumes "dll m h (ys @ x # zs)"
  shows "\<exists>m'. unlink_if P x m = Inr m' \<and> dll m' h (if P x then ys @ zs else ys @ x # zs)"
  using assms list_del_step [OF assms] by (auto simp: unlink_if_def)

lemma list_for_each_safe_unlink:
  assumes "dll m h (ys @ xs)" and "pos = hd (xs @ [h])" and "tmp = nxt m pos"
  shows "\<exists>m'. list_for_each_safe (unlink_if P) h pos tmp m = Some (Inr m') \<and>
              dll m' h (ys @ filter (\<lambda>y. \<not> P y) xs)"
  using assms
proof (induction xs arbitrary: m ys pos tmp)
  case Nil
  then show ?case by (simp add: list_for_each_safe.simps)
next
  case (Cons x xs)
  let ?ys = "if P x then ys else ys @ [x]"
  from Cons.prems(1) have h: "x \<noteq> h" "h \<noteq> NULL" by (auto simp: dll_def)
  obtain m1 where m1: "unlink_if P x m = Inr m1" "dll m1 h (?ys @ xs)"
    using unlink_if_step [OF Cons.prems(1), of P] by (auto split: if_splits)
  have tmp: "tmp = hd (xs @ [h])"
    using Cons.prems dll_node_attached(2) [OF Cons.prems(1)] by simp
  have "tmp \<noteq> NULL"
    using Cons.prems(1) tmp by (cases xs) (auto simp: dll_def)
  moreover obtain m2 where
    "list_for_each_safe (unlink_if P) h tmp (nxt m1 tmp) m1 = Some (Inr m2)"
    "dll m2 h (?ys @ filter (\<lambda>y. \<not> P y) xs)"
    using Cons.IH [OF m1(2) tmp refl] by auto
  ultimately show ?case
    using Cons.prems(2) h m1(1) by (auto simp: list_for_each_safe.simps [of _ h x])
qed

section \<open>The list operations refine operations on sequences\<close>

lemma list_del_remove1:
  assumes "dll m h xs" and "x \<in> set xs"
  shows "\<exists>m'. list_del x m = Inr (LIST_SUCCESS, m') \<and> dll m' h (remove1 x xs)"
proof -
  from assms(2) obtain ys zs where xs: "xs = ys @ x # zs" by (auto dest: split_list)
  with assms(1) have "x \<notin> set ys" by (auto simp: dll_def)
  with list_del_step [of m h ys x zs] assms(1) xs show ?thesis
    by (auto simp: remove1_append)
qed

interpretation lst: data_refinement "\<lambda>m xs. dll m h xs" "list_exec h" seq_exec "seq_pre h"
proof
  fix m xs x
  assume m: "dll m h xs" and pre: "seq_pre h x xs"
  show "\<exists>m'. list_exec h x m = Inr m' \<and> dll m' h (seq_exec x xs)"
  proof (cases x)
    case (Add p)
    with pre list_add_step [OF m, of p] show ?thesis by auto
  next
    case (Add_Tail p)
    with pre list_add_tail_step [OF m, of p] show ?thesis by auto
  next
    case (Del p)
    with pre list_del_remove1 [OF m, of p] show ?thesis by auto
  qed
qed

text \<open>
  C26. Starting from \<open>INIT_LIST_HEAD\<close>, every sequence of \<open>list_add\<close>, \<open>list_add_tail\<close> and
  \<open>list_del\<close> calls that inserts only unlinked nodes and unlinks only linked ones runs without a
  bad pointer access; afterwards the pointers of the list form exactly the sequence that the
  same insertions and removals give on a plain sequence, and \<open>list_for_each\<close> terminates and
  visits that sequence in order.
\<close>

theorem list_ops_refine_sequences:
  assumes "h \<noteq> NULL" and "run_pre (seq_pre h) seq_exec ops []"
  shows "\<exists>m0 m'. INIT_LIST_HEAD h m = Inr m0 \<and> efold (list_exec h) ops m0 = Inr m' \<and>
      dll m' h (fold seq_exec ops []) \<and>
      list_for_each m' h (nxt m' h) = Some (Inr (fold seq_exec ops []))"
proof -
  obtain m0 where m0: "INIT_LIST_HEAD h m = Inr m0" "dll m0 h []"
    using INIT_LIST_HEAD_dll [OF assms(1)] by blast
  obtain m' where "efold (list_exec h) ops m0 = Inr m'" "dll m' h (fold seq_exec ops [])"
    using lst.run_refines [OF m0(2) assms(2)] by blast
  with m0 show ?thesis using list_for_each_dll by blast
qed

theorem list_ops_refine_sequences_witness:
  "\<exists>m0 m'. INIT_LIST_HEAD 1 \<lparr>prv = (\<lambda>_. 0), nxt = (\<lambda>_. 0)\<rparr> = Inr m0 \<and>
      efold (list_exec 1) [Add 2, Add_Tail 3, Add 4, Del 2] m0 = Inr m' \<and>
      dll m' 1 [4, 3] \<and> list_for_each m' 1 (nxt m' 1) = Some (Inr [4, 3])"
  using list_ops_refine_sequences
    [of 1 "[Add 2, Add_Tail 3, Add 4, Del 2]" "\<lparr>prv = (\<lambda>_. 0), nxt = (\<lambda>_. 0)\<rparr>"]
  by simp

end
