(* ===== verification/FileTable.thy ===== *)
theory FileTable
  imports HashTable LinkedList "HOL-Library.More_List" "HOL-Library.Multiset"
begin

text \<open>
  The file table (\<open>file_table.c\<close>, \<open>include/file_table.h\<close>, \<open>include/trans_file_table.h\<close>): which
  files exist, the timestamp of their last change, and the peers that own a copy. The hash
  table keeps pointers to heap-allocated entries; \<open>ft_map\<close> is the finite map from names to
  entries that it stands for, \<open>ft_inv\<close> the invariant, and the lemmas show that every operation
  keeps the invariant and acts on the map as its specification says.

  Locking is not represented: an operation runs as a whole, as the table mutex makes it do.
\<close>

section \<open>Data\<close>

definition MAX_PEER_ENTRIES :: nat where
  "MAX_PEER_ENTRIES = 16"

definition MAX_FILE_ENTRIES :: nat where
  "MAX_FILE_ENTRIES = 4096"

definition MAX_NAME_LEN :: nat where
  "MAX_NAME_LEN = 128"

text \<open>The enumerations \<open>file_type\<close> and \<open>operation_type\<close>, by their values in the 16-bit fields.\<close>

definition REGULAR :: u16 where "REGULAR = 0"
definition DIRECTORY :: u16 where "DIRECTORY = 1"
definition SOFT_LINK :: u16 where "SOFT_LINK = 2"

definition FILE_NONE :: u16 where "FILE_NONE = 0"
definition FILE_ADD :: u16 where "FILE_ADD = 1"
definition FILE_DELETE :: u16 where "FILE_DELETE = 2"
definition FILE_MODIFY :: u16 where "FILE_MODIFY = 3"

lemmas op_type_defs = FILE_NONE_def FILE_ADD_def FILE_DELETE_def FILE_MODIFY_def

record peer_id =
  pid_ip :: u32
  pid_port :: u16

text \<open>An entry as it travels in a packet. \<open>te_owners\<close> is the whole array of 16 owners, of which
  the first \<open>te_owner_n\<close> are in use.\<close>

record trans_file_entry =
  te_name :: string
  te_timestamp :: u64
  te_op_type :: u16
  te_file_type :: u16
  te_owner_n :: u16
  te_owners :: "peer_id list"

text \<open>A table as it travels. The array has 4096 elements; \<open>tft_entries\<close> is a prefix of it and
  the elements behind the prefix are zero, as \<open>calloc\<close> and \<open>bzero\<close> left them.\<close>

record trans_file_table =
  tft_n :: int
  tft_entries :: "trans_file_entry list"

text \<open>A stored entry; the list of \<open>struct peer_id_list\<close> nodes at \<open>owner_head\<close> is the list of
  the peers in it.\<close>

record file_entry =
  fe_name :: string
  fe_timestamp :: u64
  fe_type :: u32
  fe_owners :: "peer_id list"

text \<open>The table, with the part of the C heap that holds its entries and the answers the
  allocator is going to give.\<close>

record file_table =
  ft_n :: int
  file_htable :: buckets
  ft_heap :: "file_entry heap"
  ft_callocs :: "bool list"

definition pid_zero :: peer_id where
  "pid_zero = \<lparr>pid_ip = 0, pid_port = 0\<rparr>"

definition te_zero :: trans_file_entry where
  "te_zero = \<lparr>te_name = [], te_timestamp = 0, te_op_type = 0, te_file_type = 0,
     te_owner_n = 0, te_owners = replicate MAX_PEER_ENTRIES pid_zero\<rparr>"

definition tft_zero :: trans_file_table where
  "tft_zero = \<lparr>tft_n = 0, tft_entries = []\<rparr>"

definition fe_zero :: file_entry where
  "fe_zero = \<lparr>fe_name = [], fe_timestamp = 0, fe_type = 0, fe_owners = []\<rparr>"

text \<open>\<open>strcpy\<close> into an array of \<open>MAX_NAME_LEN\<close> characters, and access to an element of a
  travelling table.\<close>

definition strcpy_name :: "string \<Rightarrow> string res" where
  "strcpy_name s = (if length s < MAX_NAME_LEN then Inr s else Inl Out_Of_Bounds)"

definition tft_get :: "trans_file_table \<Rightarrow> nat \<Rightarrow> trans_file_entry res" where
  "tft_get t i =
     (if i < MAX_FILE_ENTRIES then Inr (nth_default te_zero (tft_entries t) i)
      else Inl Out_Of_Bounds)"

definition tft_set :: "nat \<Rightarrow> trans_file_entry \<Rightarrow> trans_file_table \<Rightarrow> trans_file_table res" where
  "tft_set i te t =
     (if i < MAX_FILE_ENTRIES
      then Inr (t\<lparr>tft_entries :=
             (tft_entries t @ replicate (Suc i - length (tft_entries t)) te_zero)[i := te]\<rparr>)
      else Inl Out_Of_Bounds)"

section \<open>Owners\<close>

fun already_in_owners :: "peer_id list \<Rightarrow> peer_id \<Rightarrow> bool" where
  "already_in_owners [] owner = False"
| "already_in_owners (p # ps) owner = (if pid_ip p = pid_ip owner then True else already_in_owners ps owner)"

text \<open>The loop of \<open>__peer_id_list_add\<close>: \<open>k\<close> iterations are left, the next one is for index \<open>i\<close>.\<close>

fun peer_id_list_add_from ::
    "nat \<Rightarrow> nat \<Rightarrow> trans_file_entry \<Rightarrow> bool list \<Rightarrow> peer_id list \<Rightarrow> (bool list \<times> peer_id list) res" where
  "peer_id_list_add_from 0 i te al ow = Inr (al, ow)"
| "peer_id_list_add_from (Suc k) i te al ow =
     (case answer al of
        (False, al') \<Rightarrow> Inr (al', ow)
      | (True, al') \<Rightarrow>
          if i < MAX_PEER_ENTRIES
          then let p = te_owners te ! i
               in peer_id_list_add_from k (Suc i) te al'
                    (if \<not> already_in_owners ow p then ow @ [p] else ow)
          else Inl Out_Of_Bounds)"

definition peer_id_list_add ::
    "trans_file_entry \<Rightarrow> bool list \<Rightarrow> peer_id list \<Rightarrow> (bool list \<times> peer_id list) res" where
  "peer_id_list_add te al ow = peer_id_list_add_from (unat (te_owner_n te)) 0 te al ow"

definition peer_id_list_destroy :: "peer_id list \<Rightarrow> peer_id list" where
  "peer_id_list_destroy ow = filter (\<lambda>_. False) ow"

definition peer_id_list_replace_fe ::
    "file_entry \<Rightarrow> trans_file_entry \<Rightarrow> bool list \<Rightarrow> (bool list \<times> file_entry) res" where
  "peer_id_list_replace_fe fe te al =
     ebind (peer_id_list_add te al (peer_id_list_destroy (fe_owners fe))) (\<lambda>(al, ow).
       Inr (al, fe\<lparr>fe_owners := ow\<rparr>))"

definition peer_id_list_replace :: "file_table \<Rightarrow> ptr \<Rightarrow> trans_file_entry \<Rightarrow> file_table res" where
  "peer_id_list_replace ft p te =
     ebind (hget (ft_heap ft) p) (\<lambda>fe.
     ebind (peer_id_list_replace_fe fe te (ft_callocs ft)) (\<lambda>(al, fe).
       Inr (ft\<lparr>ft_heap := hput p fe (ft_heap ft), ft_callocs := al\<rparr>)))"

section \<open>Entries\<close>

definition file_entry_alloc :: "file_table \<Rightarrow> ptr \<times> file_table" where
  "file_entry_alloc ft =
     (case answer (ft_callocs ft) of
        (False, al) \<Rightarrow> (NULL, ft\<lparr>ft_callocs := al\<rparr>)
      | (True, al) \<Rightarrow>
          (let (p, h) = hnew fe_zero (ft_heap ft)
           in (p, ft\<lparr>ft_heap := h, ft_callocs := al\<rparr>)))"

definition file_entry_add :: "file_table \<Rightarrow> ptr \<Rightarrow> file_table res" where
  "file_entry_add ft p =
     (if p = NULL then Inr ft
      else ebind (hget (ft_heap ft) p) (\<lambda>fe.
        Inr (ft\<lparr>file_htable := bkt_add (slot_ulong (ELFhash (fe_name fe))) p (file_htable ft),
                ft_n := ft_n ft + 1\<rparr>)))"

definition file_entry_fill_from :: "file_table \<Rightarrow> ptr \<Rightarrow> trans_file_entry \<Rightarrow> file_table res" where
  "file_entry_fill_from ft p te =
     (if p = NULL then Inr ft
      else ebind (hget (ft_heap ft) p) (\<lambda>fe.
           ebind (strcpy_name (te_name te)) (\<lambda>name.
           ebind (peer_id_list_add te (ft_callocs ft) (fe_owners fe)) (\<lambda>(al, ow).
             Inr (ft\<lparr>ft_heap := hput p (fe\<lparr>fe_name := name, fe_timestamp := te_timestamp te,
                        fe_type := ucast (te_file_type te), fe_owners := ow\<rparr>) (ft_heap ft),
                     ft_callocs := al\<rparr>)))))"

text \<open>The loop of \<open>trans_entry_fill_from\<close> over the owners.\<close>

fun fill_owners :: "peer_id list \<Rightarrow> trans_file_entry \<Rightarrow> trans_file_entry res" where
  "fill_owners [] te = Inr te"
| "fill_owners (p # ps) te =
     (let i = unat (te_owner_n te)
      in if i < MAX_PEER_ENTRIES
         then fill_owners ps (te\<lparr>te_owners := (te_owners te)[i := p], te_owner_n := te_owner_n te + 1\<rparr>)
         else Inl Out_Of_Bounds)"

definition trans_entry_fill_from ::
    "trans_file_entry \<Rightarrow> file_table \<Rightarrow> ptr \<Rightarrow> trans_file_entry res" where
  "trans_entry_fill_from te ft p =
     (if p = NULL then Inr te
      else ebind (hget (ft_heap ft) p) (\<lambda>fe.
           ebind (strcpy_name (fe_name fe)) (\<lambda>name.
             fill_owners (fe_owners fe)
               (te_zero\<lparr>te_name := name, te_timestamp := fe_timestamp fe,
                        te_file_type := ucast (fe_type fe)\<rparr>))))"

definition file_entry_update :: "file_table \<Rightarrow> ptr \<Rightarrow> trans_file_entry \<Rightarrow> (int \<times> file_table) res" where
  "file_entry_update ft p te =
     (if p = NULL then Inr (-1, ft)
      else ebind (hget (ft_heap ft) p) (\<lambda>fe.
        if te_timestamp te > fe_timestamp fe
        then ebind (peer_id_list_replace_fe (fe\<lparr>fe_timestamp := te_timestamp te\<rparr>) te (ft_callocs ft))
               (\<lambda>(al, fe). Inr (0, ft\<lparr>ft_heap := hput p fe (ft_heap ft), ft_callocs := al\<rparr>))
        else if te_timestamp te = fe_timestamp fe
        then ebind (peer_id_list_add te (ft_callocs ft) (fe_owners fe))
               (\<lambda>(al, ow). Inr (0, ft\<lparr>ft_heap := hput p (fe\<lparr>fe_owners := ow\<rparr>) (ft_heap ft),
                                      ft_callocs := al\<rparr>))
        else Inr (-1, ft)))"

definition file_entry_update_timestamp :: "file_table \<Rightarrow> ptr \<Rightarrow> u64 \<Rightarrow> file_table res" where
  "file_entry_update_timestamp ft p ts =
     ebind (hget (ft_heap ft) p) (\<lambda>fe.
       Inr (ft\<lparr>ft_heap := hput p (fe\<lparr>fe_timestamp := ts\<rparr>) (ft_heap ft)\<rparr>))"

definition file_entry_delete :: "file_table \<Rightarrow> ptr \<Rightarrow> file_table res" where
  "file_entry_delete ft p =
     (if p = NULL then Inr ft
      else ebind (hget (ft_heap ft) p) (\<lambda>fe.
        Inr (ft\<lparr>file_htable := bkt_del p (file_htable ft), ft_heap := hfree p (ft_heap ft),
                ft_n := ft_n ft - 1\<rparr>)))"

section \<open>The table\<close>

fun search_chain :: "file_entry heap \<Rightarrow> string \<Rightarrow> ptr list \<Rightarrow> ptr res" where
  "search_chain h name [] = Inr NULL"
| "search_chain h name (p # ps) =
     ebind (hget h p) (\<lambda>fe. if fe_name fe = name then Inr p else search_chain h name ps)"

definition file_table_search :: "file_table \<Rightarrow> string \<Rightarrow> ptr res" where
  "file_table_search ft name =
     search_chain (ft_heap ft) name (file_htable ft (slot_int (ELFhash name)))"

definition file_table_init :: "file_table \<Rightarrow> file_table" where
  "file_table_init ft = ft\<lparr>ft_n := 0, file_htable := (\<lambda>b. [])\<rparr>"

definition file_table_find :: "file_table \<Rightarrow> trans_file_entry \<Rightarrow> ptr res" where
  "file_table_find ft te = file_table_search ft (te_name te)"

definition file_table_add :: "file_table \<Rightarrow> trans_file_entry \<Rightarrow> (ptr \<times> file_table) res" where
  "file_table_add ft te =
     ebind (file_table_search ft (te_name te)) (\<lambda>p.
       if p = NULL
       then let (p, ft) = file_entry_alloc ft
            in if p = NULL then Inr (p, ft)
               else ebind (file_entry_fill_from ft p te) (\<lambda>ft.
                    ebind (file_entry_add ft p) (\<lambda>ft. Inr (p, ft)))
       else ebind (file_entry_update ft p te) (\<lambda>(_, ft). Inr (p, ft)))"

definition file_table_update :: "file_table \<Rightarrow> trans_file_entry \<Rightarrow> (int \<times> file_table) res" where
  "file_table_update ft te =
     ebind (file_table_search ft (te_name te)) (\<lambda>p.
       if p = NULL then Inr (-1, ft)
       else ebind (file_entry_update ft p te) (\<lambda>(_, ft). Inr (0, ft)))"

definition file_table_delete :: "file_table \<Rightarrow> trans_file_entry \<Rightarrow> (int \<times> file_table) res" where
  "file_table_delete ft te =
     ebind (file_table_search ft (te_name te)) (\<lambda>p.
       if p \<noteq> NULL then ebind (file_entry_delete ft p) (\<lambda>ft. Inr (0, ft))
       else Inr (-1, ft))"

text \<open>The body of the loop over all entries in \<open>file_table_delete_owner\<close>.\<close>

definition delete_owner_entry :: "u32 \<Rightarrow> ptr \<Rightarrow> file_table \<Rightarrow> file_table res" where
  "delete_owner_entry i p ft =
     ebind (hget (ft_heap ft) p) (\<lambda>fe.
       let ow = filter (\<lambda>q. \<not> pid_ip q = i) (fe_owners fe);
           ft = ft\<lparr>ft_heap := hput p (fe\<lparr>fe_owners := ow\<rparr>) (ft_heap ft)\<rparr>
       in Inr (if ow = []
               then ft\<lparr>file_htable := bkt_del p (file_htable ft), ft_heap := hfree p (ft_heap ft)\<rparr>
               else ft))"

definition file_table_delete_owner :: "file_table \<Rightarrow> u32 \<Rightarrow> file_table res" where
  "file_table_delete_owner ft i = efold (delete_owner_entry i) (bkt_all (file_htable ft)) ft"

definition file_table_destroy :: "file_table \<Rightarrow> file_table res" where
  "file_table_destroy ft = efold (\<lambda>p ft. file_entry_delete ft p) (bkt_all (file_htable ft)) ft"

text \<open>What \<open>file_table_print\<close> prints, line by line.\<close>

fun print_entries :: "file_entry heap \<Rightarrow> ptr list \<Rightarrow> (string \<times> u64) list res" where
  "print_entries h [] = Inr []"
| "print_entries h (p # ps) =
     ebind (hget h p) (\<lambda>fe. ebind (print_entries h ps) (\<lambda>ls.
       Inr ((fe_name fe, fe_timestamp fe) # ls)))"

definition file_table_print :: "file_table \<Rightarrow> (string \<times> u64) list res" where
  "file_table_print ft = print_entries (ft_heap ft) (bkt_all (file_htable ft))"

text \<open>The body of the loop in \<open>trans_table_fill_from\<close>.\<close>

definition table_fill_entry :: "file_table \<Rightarrow> ptr \<Rightarrow> trans_file_table \<Rightarrow> trans_file_table res" where
  "table_fill_entry ft p t =
     ebind (tft_get t (nat (tft_n t))) (\<lambda>te.
     ebind (trans_entry_fill_from te ft p) (\<lambda>te.
     ebind (tft_set (nat (tft_n t)) te t) (\<lambda>t.
       Inr (t\<lparr>tft_n := tft_n t + 1\<rparr>))))"

definition trans_table_fill_from :: "file_table \<Rightarrow> trans_file_table res" where
  "trans_table_fill_from ft = efold (table_fill_entry ft) (bkt_all (file_htable ft)) tft_zero"

fun same_owners_from :: "peer_id list \<Rightarrow> nat \<Rightarrow> trans_file_entry \<Rightarrow> bool res" where
  "same_owners_from [] n te = Inr True"
| "same_owners_from (p # ps) n te =
     (if n < MAX_PEER_ENTRIES
      then if pid_ip p \<noteq> pid_ip (te_owners te ! n) \<or> pid_port p \<noteq> pid_port (te_owners te ! n)
           then Inr False
           else same_owners_from ps (Suc n) te
      else Inl Out_Of_Bounds)"

definition has_same_owners :: "file_table \<Rightarrow> ptr \<Rightarrow> trans_file_entry \<Rightarrow> bool res" where
  "has_same_owners ft p te =
     (if p = NULL then Inr False
      else ebind (hget (ft_heap ft) p) (\<lambda>fe.
        if length (fe_owners fe) \<noteq> unat (te_owner_n te) then Inr False
        else same_owners_from (fe_owners fe) 0 te))"

section \<open>The map a table stands for\<close>

definition in_table :: "file_table \<Rightarrow> ptr \<Rightarrow> file_entry \<Rightarrow> bool" where
  "in_table ft p fe \<longleftrightarrow> p \<in> set (bkt_all (file_htable ft)) \<and> cells (ft_heap ft) p = Some fe"

definition entry_ok :: "file_entry \<Rightarrow> bool" where
  "entry_ok fe \<longleftrightarrow> length (fe_name fe) < MAX_NAME_LEN \<and> distinct (map pid_ip (fe_owners fe))"

text \<open>The chains hold valid pointers, no pointer twice; every entry hangs in the bucket of its
  name, no two entries have the same name, names fit their buffer, and no peer owns a file
  twice.\<close>

definition ft_inv :: "file_table \<Rightarrow> bool" where
  "ft_inv ft \<longleftrightarrow>
     heap_ok (ft_heap ft) \<and> distinct (bkt_all (file_htable ft)) \<and>
     (\<forall>p \<in> set (bkt_all (file_htable ft)). \<exists>fe. cells (ft_heap ft) p = Some fe \<and> entry_ok fe) \<and>
     (\<forall>b < HASH_SIZE. \<forall>p \<in> set (file_htable ft b). \<forall>fe.
        cells (ft_heap ft) p = Some fe \<longrightarrow> slot_ulong (ELFhash (fe_name fe)) = b) \<and>
     (\<forall>p fe q ge. in_table ft p fe \<longrightarrow> in_table ft q ge \<longrightarrow> fe_name fe = fe_name ge \<longrightarrow> p = q)"

definition ft_ptr :: "file_table \<Rightarrow> string \<Rightarrow> ptr" where
  "ft_ptr ft name =
     (case find (\<lambda>p. map_option fe_name (cells (ft_heap ft) p) = Some name)
             (file_htable ft (slot_ulong (ELFhash name))) of
        None \<Rightarrow> NULL | Some p \<Rightarrow> p)"

definition ft_map :: "file_table \<Rightarrow> string \<Rightarrow> file_entry option" where
  "ft_map ft name = cells (ft_heap ft) (ft_ptr ft name)"

text \<open>The number the field \<open>n\<close> is meant to hold.\<close>

definition ft_counted :: "file_table \<Rightarrow> bool" where
  "ft_counted ft \<longleftrightarrow> ft_n ft = int (length (bkt_all (file_htable ft)))"

section \<open>Specifications on maps\<close>

definition owners_add :: "peer_id list \<Rightarrow> peer_id list \<Rightarrow> peer_id list" where
  "owners_add ps ow = fold (\<lambda>p ow. if already_in_owners ow p then ow else ow @ [p]) ps ow"

definition te_owner_list :: "trans_file_entry \<Rightarrow> peer_id list" where
  "te_owner_list te = take (unat (te_owner_n te)) (te_owners te)"

definition te_ok :: "trans_file_entry \<Rightarrow> bool" where
  "te_ok te \<longleftrightarrow> length (te_name te) < MAX_NAME_LEN \<and> length (te_owners te) = MAX_PEER_ENTRIES \<and>
     unat (te_owner_n te) \<le> MAX_PEER_ENTRIES"

definition entry_of :: "trans_file_entry \<Rightarrow> file_entry" where
  "entry_of te = \<lparr>fe_name = te_name te, fe_timestamp = te_timestamp te,
     fe_type = ucast (te_file_type te), fe_owners = owners_add (te_owner_list te) []\<rparr>"

definition entry_merge :: "file_entry \<Rightarrow> trans_file_entry \<Rightarrow> file_entry" where
  "entry_merge fe te =
     (if fe_timestamp fe < te_timestamp te
      then fe\<lparr>fe_timestamp := te_timestamp te, fe_owners := owners_add (te_owner_list te) []\<rparr>
      else if fe_timestamp fe = te_timestamp te
      then fe\<lparr>fe_owners := owners_add (te_owner_list te) (fe_owners fe)\<rparr>
      else fe)"

definition entry_drop :: "u32 \<Rightarrow> file_entry \<Rightarrow> file_entry option" where
  "entry_drop i fe =
     (let ow = filter (\<lambda>q. pid_ip q \<noteq> i) (fe_owners fe)
      in if ow = [] then None else Some (fe\<lparr>fe_owners := ow\<rparr>))"

section \<open>Lemmas on the map\<close>

lemma ft_inv_heap: "ft_inv ft \<Longrightarrow> heap_ok (ft_heap ft)"
  by (simp add: ft_inv_def)

lemma ft_inv_distinct: "ft_inv ft \<Longrightarrow> distinct (bkt_all (file_htable ft))"
  by (simp add: ft_inv_def)

lemma ft_inv_cell:
  "ft_inv ft \<Longrightarrow> p \<in> set (bkt_all (file_htable ft)) \<Longrightarrow> \<exists>fe. in_table ft p fe \<and> entry_ok fe"
  by (auto simp: ft_inv_def in_table_def)

lemma ft_inv_entry_ok: "ft_inv ft \<Longrightarrow> in_table ft p fe \<Longrightarrow> entry_ok fe"
  using ft_inv_cell [of ft p] by (auto simp: in_table_def)

lemma ft_inv_unique:
  "ft_inv ft \<Longrightarrow> in_table ft p fe \<Longrightarrow> in_table ft q ge \<Longrightarrow> fe_name fe = fe_name ge \<Longrightarrow> p = q"
  unfolding ft_inv_def by blast

lemma in_table_fun: "in_table ft p fe \<Longrightarrow> in_table ft p ge \<Longrightarrow> ge = fe"
  by (simp add: in_table_def)

lemma in_table_not_null: "ft_inv ft \<Longrightarrow> in_table ft p fe \<Longrightarrow> p \<noteq> NULL"
  by (auto simp: in_table_def dest: heap_ok_not_null [OF ft_inv_heap])

lemma in_table_bucket:
  assumes "ft_inv ft" and "in_table ft p fe"
  shows "p \<in> set (file_htable ft (slot_ulong (ELFhash (fe_name fe))))"
  using assms unfolding ft_inv_def in_table_def set_bkt_all by auto

lemma bucket_in_table:
  assumes "p \<in> set (file_htable ft (slot_ulong k))" and "cells (ft_heap ft) p = Some fe"
  shows "in_table ft p fe"
  using assms slot_ulong_less unfolding in_table_def set_bkt_all by blast

lemma ft_ptr_in:
  assumes inv: "ft_inv ft" and p: "in_table ft p fe"
  shows "ft_ptr ft (fe_name fe) = p"
proof -
  let ?b = "file_htable ft (slot_ulong (ELFhash (fe_name fe)))"
  let ?P = "\<lambda>q. map_option fe_name (cells (ft_heap ft) q) = Some (fe_name fe)"
  have "p \<in> set ?b" "?P p" using in_table_bucket [OF inv p] p by (simp_all add: in_table_def)
  then obtain q where q: "find ?P ?b = Some q"
    by (cases "find ?P ?b") (auto simp: find_None_iff)
  then have "q \<in> set ?b" "?P q" by (auto simp: find_Some_iff)
  then obtain ge where ge: "cells (ft_heap ft) q = Some ge" "fe_name ge = fe_name fe" by auto
  with bucket_in_table [OF \<open>q \<in> set ?b\<close> ge(1)] ft_inv_unique [OF inv _ p] have "q = p" by blast
  with q show ?thesis by (simp add: ft_ptr_def)
qed

lemma ft_ptr_not_in:
  assumes "\<And>p fe. in_table ft p fe \<Longrightarrow> fe_name fe \<noteq> name"
  shows "ft_ptr ft name = NULL"
proof (cases "find (\<lambda>p. map_option fe_name (cells (ft_heap ft) p) = Some name)
    (file_htable ft (slot_ulong (ELFhash name)))")
  case None
  then show ?thesis by (simp add: ft_ptr_def)
next
  case (Some q)
  then have "q \<in> set (file_htable ft (slot_ulong (ELFhash name)))"
    and "map_option fe_name (cells (ft_heap ft) q) = Some name"
    by (auto simp: find_Some_iff)
  with bucket_in_table assms show ?thesis by blast
qed

lemma ft_map_iff:
  assumes "ft_inv ft"
  shows "ft_map ft name = Some fe \<longleftrightarrow> (\<exists>p. in_table ft p fe \<and> fe_name fe = name)"
proof
  assume L: "ft_map ft name = Some fe"
  then have "ft_ptr ft name \<noteq> NULL"
    unfolding ft_map_def by (rule heap_ok_not_null [OF ft_inv_heap [OF assms]])
  then have "\<not> (\<forall>p ge. in_table ft p ge \<longrightarrow> fe_name ge \<noteq> name)"
    by (rule contrapos_nn) (rule ft_ptr_not_in, simp)
  then obtain p ge where p: "in_table ft p ge" "fe_name ge = name" by auto
  with ft_ptr_in [OF assms p(1)] L show "\<exists>p. in_table ft p fe \<and> fe_name fe = name"
    by (auto simp: ft_map_def in_table_def)
next
  assume "\<exists>p. in_table ft p fe \<and> fe_name fe = name"
  then show "ft_map ft name = Some fe"
  proof (elim exE conjE)
    fix p assume p: "in_table ft p fe" and "fe_name fe = name"
    with ft_ptr_in [OF assms p] show ?thesis by (simp add: ft_map_def in_table_def)
  qed
qed

lemma ft_map_name: "ft_inv ft \<Longrightarrow> ft_map ft name = Some fe \<Longrightarrow> fe_name fe = name"
  by (simp add: ft_map_iff)

lemma ft_map_Some:
  "ft_inv ft \<Longrightarrow> ft_map ft name = Some fe \<Longrightarrow> in_table ft (ft_ptr ft name) fe"
  by (auto simp: ft_map_iff ft_ptr_in)

lemma ft_map_None:
  assumes "ft_inv ft"
  shows "ft_map ft name = None \<longleftrightarrow> ft_ptr ft name = NULL"
proof
  assume "ft_map ft name = None"
  then have "in_table ft p fe \<Longrightarrow> fe_name fe \<noteq> name" for p fe
    using ft_map_iff [OF assms, of name fe] by auto
  then show "ft_ptr ft name = NULL" by (rule ft_ptr_not_in)
next
  assume "ft_ptr ft name = NULL"
  then show "ft_map ft name = None"
    using in_table_not_null [OF assms ft_map_Some [OF assms, of name]]
    by (cases "ft_map ft name") auto
qed

lemma ft_map_ext:
  assumes "ft_inv ft" and "\<And>n fe. M n = Some fe \<longleftrightarrow> (\<exists>p. in_table ft p fe \<and> fe_name fe = n)"
  shows "ft_map ft = M"
proof
  fix n
  have "ft_map ft n = Some fe \<longleftrightarrow> M n = Some fe" for fe
    unfolding ft_map_iff [OF assms(1)] assms(2) ..
  then show "ft_map ft n = M n" by (cases "M n") (metis option.exhaust, simp)
qed

text \<open>The search of the code finds the pointer.\<close>

lemma search_chain_find:
  "\<forall>p \<in> set ps. cells h p \<noteq> None \<Longrightarrow>
   search_chain h name ps =
     Inr (case find (\<lambda>p. map_option fe_name (cells h p) = Some name) ps of
            None \<Rightarrow> NULL | Some p \<Rightarrow> p)"
  by (induction ps) auto

lemma file_table_search_ptr:
  assumes "ft_inv ft"
  shows "file_table_search ft name = Inr (ft_ptr ft name)"
proof -
  have "cells (ft_heap ft) p \<noteq> None" if "p \<in> set (file_htable ft (slot_ulong (ELFhash name)))" for p
  proof -
    from that have "p \<in> set (bkt_all (file_htable ft))"
      unfolding set_bkt_all using slot_ulong_less by blast
    with ft_inv_cell [OF assms] show ?thesis by (auto simp: in_table_def)
  qed
  then show ?thesis by (simp add: file_table_search_def ft_ptr_def search_chain_find)
qed

section \<open>The three elementary changes of a table\<close>

text \<open>An entry is overwritten under its own name.\<close>

lemma ft_put:
  assumes inv: "ft_inv ft" and p: "in_table ft p fe" and new: "fe_name fe' = fe_name fe" "entry_ok fe'"
    and ft': "file_htable ft' = file_htable ft" "ft_heap ft' = hput p fe' (ft_heap ft)"
  shows "ft_inv ft'" and "ft_map ft' = (ft_map ft)(fe_name fe \<mapsto> fe')"
proof -
  have in': "in_table ft' q ge \<longleftrightarrow> (if q = p then ge = fe' else in_table ft q ge)" for q ge
    using p by (auto simp: in_table_def ft')
  have names: "in_table ft' q ge \<Longrightarrow> \<exists>ge'. in_table ft q ge' \<and> fe_name ge' = fe_name ge" for q ge
    using in' p new by (cases "q = p") auto
  show inv': "ft_inv ft'"
    unfolding ft_inv_def
  proof (intro conjI ballI allI impI)
    show "heap_ok (ft_heap ft')" "distinct (bkt_all (file_htable ft'))"
      using inv p by (simp_all add: ft' ft_inv_heap ft_inv_distinct in_table_def)
    fix q assume "q \<in> set (bkt_all (file_htable ft'))"
    then show "\<exists>fe. cells (ft_heap ft') q = Some fe \<and> entry_ok fe"
      using ft_inv_cell [OF inv] new by (auto simp: ft' in_table_def)
  next
    fix b q ge assume "b < HASH_SIZE" "q \<in> set (file_htable ft' b)" "cells (ft_heap ft') q = Some ge"
    then show "slot_ulong (ELFhash (fe_name ge)) = b"
      using inv p new unfolding ft_inv_def in_table_def by (auto simp: ft' split: if_splits)
  next
    fix q ge r he assume "in_table ft' q ge" "in_table ft' r he" "fe_name ge = fe_name he"
    then show "q = r" using names ft_inv_unique [OF inv] by metis
  qed
  show "ft_map ft' = (ft_map ft)(fe_name fe \<mapsto> fe')"
  proof (rule ft_map_ext [OF inv'])
    fix n ge
    show "((ft_map ft)(fe_name fe \<mapsto> fe')) n = Some ge \<longleftrightarrow> (\<exists>q. in_table ft' q ge \<and> fe_name ge = n)"
    proof (cases "n = fe_name fe")
      case True
      have "in_table ft' q ge \<and> fe_name ge = n \<longleftrightarrow> q = p \<and> ge = fe'" for q
        using in' True new(1) ft_inv_unique [OF inv p, of q ge] by auto
      then show ?thesis using True by auto
    next
      case False
      then have "in_table ft' q ge \<and> fe_name ge = n \<longleftrightarrow> in_table ft q ge \<and> fe_name ge = n" for q
        using in' p new(1) by (auto simp: in_table_def)
      then show ?thesis using False by (simp add: ft_map_iff [OF inv])
    qed
  qed
qed

text \<open>A new entry is hashed in under a name the table does not have.\<close>

lemma ft_insert:
  assumes inv: "ft_inv ft" and p: "p \<notin> set (bkt_all (file_htable ft))"
    and new: "ft_map ft (fe_name fe) = None" "entry_ok fe" and h: "heap_ok (ft_heap ft')"
    and ft': "file_htable ft' = bkt_add (slot_ulong (ELFhash (fe_name fe))) p (file_htable ft)"
      "cells (ft_heap ft') = (cells (ft_heap ft))(p := Some fe)"
  shows "ft_inv ft'" and "ft_map ft' = (ft_map ft)(fe_name fe \<mapsto> fe)"
proof -
  have in': "in_table ft' q ge \<longleftrightarrow> (q = p \<and> ge = fe \<or> in_table ft q ge)" for q ge
    using p by (auto simp: in_table_def ft')
  have fresh: "in_table ft q ge \<Longrightarrow> fe_name ge \<noteq> fe_name fe" for q ge
    using new(1) ft_map_iff [OF inv, of "fe_name ge" ge] by auto
  show inv': "ft_inv ft'"
    unfolding ft_inv_def
  proof (intro conjI ballI allI impI)
    show "heap_ok (ft_heap ft')" "distinct (bkt_all (file_htable ft'))"
      using h inv p by (simp_all add: ft' ft_inv_distinct)
    fix q assume "q \<in> set (bkt_all (file_htable ft'))"
    then show "\<exists>fe. cells (ft_heap ft') q = Some fe \<and> entry_ok fe"
      using ft_inv_cell [OF inv] new(2) by (auto simp: ft' in_table_def)
  next
    fix b q ge
    assume b: "b < HASH_SIZE" "q \<in> set (file_htable ft' b)" "cells (ft_heap ft') q = Some ge"
    show "slot_ulong (ELFhash (fe_name ge)) = b"
    proof (cases "q = p")
      case True
      with b p show ?thesis by (auto simp: ft' bkt_add_def set_bkt_all split: if_splits)
    next
      case False
      with b have "q \<in> set (file_htable ft b)" "cells (ft_heap ft) q = Some ge"
        by (auto simp: ft' bkt_add_def split: if_splits)
      with b(1) inv show ?thesis unfolding ft_inv_def by blast
    qed
  next
    fix q ge r he assume "in_table ft' q ge" "in_table ft' r he" "fe_name ge = fe_name he"
    then show "q = r" using in' fresh ft_inv_unique [OF inv] by metis
  qed
  show "ft_map ft' = (ft_map ft)(fe_name fe \<mapsto> fe)"
  proof (rule ft_map_ext [OF inv'])
    fix n ge
    show "((ft_map ft)(fe_name fe \<mapsto> fe)) n = Some ge \<longleftrightarrow> (\<exists>q. in_table ft' q ge \<and> fe_name ge = n)"
    proof (cases "n = fe_name fe")
      case True
      have "in_table ft' q ge \<and> fe_name ge = n \<longleftrightarrow> q = p \<and> ge = fe" for q
        using in' True fresh [of q ge] by auto
      then show ?thesis using True by auto
    next
      case False
      then have "in_table ft' q ge \<and> fe_name ge = n \<longleftrightarrow> in_table ft q ge \<and> fe_name ge = n" for q
        using in' by auto
      then show ?thesis using False by (simp add: ft_map_iff [OF inv])
    qed
  qed
qed

text \<open>An entry is unhashed and freed.\<close>

lemma ft_remove:
  assumes inv: "ft_inv ft" and p: "in_table ft p fe"
    and ft': "file_htable ft' = bkt_del p (file_htable ft)"
      "heap_ok (ft_heap ft')" "cells (ft_heap ft') = (cells (ft_heap ft))(p := None)"
  shows "ft_inv ft'" and "ft_map ft' = (ft_map ft)(fe_name fe := None)"
proof -
  have in': "in_table ft' q ge \<longleftrightarrow> q \<noteq> p \<and> in_table ft q ge" for q ge
    using ft_inv_distinct [OF inv] by (auto simp: in_table_def ft')
  show inv': "ft_inv ft'"
    unfolding ft_inv_def
  proof (intro conjI ballI allI impI)
    show "heap_ok (ft_heap ft')" "distinct (bkt_all (file_htable ft'))"
      using inv ft'(2) by (simp_all add: ft'(1) ft_inv_distinct)
    fix q assume "q \<in> set (bkt_all (file_htable ft'))"
    then show "\<exists>fe. cells (ft_heap ft') q = Some fe \<and> entry_ok fe"
      using ft_inv_cell [OF inv, of q] ft_inv_distinct [OF inv] by (auto simp: ft' in_table_def)
  next
    fix b q ge
    assume b: "b < HASH_SIZE" "q \<in> set (file_htable ft' b)" "cells (ft_heap ft') q = Some ge"
    then have "q \<in> set (file_htable ft b)" "cells (ft_heap ft) q = Some ge"
      by (auto simp: ft' bkt_del_def split: if_splits dest: notin_set_remove1)
    with b(1) inv show "slot_ulong (ELFhash (fe_name ge)) = b" unfolding ft_inv_def by blast
  next
    fix q ge r he assume "in_table ft' q ge" "in_table ft' r he" "fe_name ge = fe_name he"
    then show "q = r" using in' ft_inv_unique [OF inv] by metis
  qed
  show "ft_map ft' = (ft_map ft)(fe_name fe := None)"
  proof (rule ft_map_ext [OF inv'])
    fix n ge
    show "((ft_map ft)(fe_name fe := None)) n = Some ge \<longleftrightarrow> (\<exists>q. in_table ft' q ge \<and> fe_name ge = n)"
    proof (cases "n = fe_name fe")
      case True
      have "\<not> (in_table ft' q ge \<and> fe_name ge = n)" for q
        using in' True ft_inv_unique [OF inv p, of q ge] by auto
      then show ?thesis using True by auto
    next
      case False
      then have "in_table ft' q ge \<and> fe_name ge = n \<longleftrightarrow> in_table ft q ge \<and> fe_name ge = n" for q
        using in' p by (auto simp: in_table_def)
      then show ?thesis using False by (simp add: ft_map_iff [OF inv])
    qed
  qed
qed

section \<open>Lemmas on owners\<close>

lemma already_in_owners_iff: "already_in_owners ow p \<longleftrightarrow> pid_ip p \<in> pid_ip ` set ow"
  by (induction ow) auto

lemma owners_add_Cons:
  "owners_add (p # ps) ow = owners_add ps (if already_in_owners ow p then ow else ow @ [p])"
  by (simp add: owners_add_def)

lemma owners_add_Nil [simp]: "owners_add [] ow = ow"
  by (simp add: owners_add_def)

lemma owners_add_distinct:
  "distinct (map pid_ip ow) \<Longrightarrow> distinct (map pid_ip (owners_add ps ow))"
  by (induction ps arbitrary: ow) (auto simp: owners_add_Cons already_in_owners_iff)

lemma owners_add_ips: "pid_ip ` set (owners_add ps ow) = pid_ip ` set ow \<union> pid_ip ` set ps"
  by (induction ps arbitrary: ow) (auto simp: owners_add_Cons already_in_owners_iff)

lemma owners_add_keeps: "\<exists>zs. owners_add ps ow = ow @ zs"
proof (induction ps arbitrary: ow)
  case Nil
  then show ?case by simp
next
  case (Cons p ps)
  obtain zs where
    "owners_add ps (if already_in_owners ow p then ow else ow @ [p]) =
       (if already_in_owners ow p then ow else ow @ [p]) @ zs"
    using Cons by blast
  then show ?case by (cases "already_in_owners ow p") (simp_all add: owners_add_Cons)
qed

text \<open>Whatever the allocator answers, the loop adds the owners before the first failure; if it
  always succeeds, it adds them all.\<close>

lemma peer_id_list_add_from_prefix:
  assumes "i + k \<le> MAX_PEER_ENTRIES" and "length (te_owners te) = MAX_PEER_ENTRIES"
  shows "\<exists>al' j. j \<le> k \<and> (al = [] \<longrightarrow> j = k \<and> al' = []) \<and>
      peer_id_list_add_from k i te al ow = Inr (al', owners_add (take j (drop i (te_owners te))) ow)"
  using assms
proof (induction k arbitrary: i al ow)
  case 0
  then show ?case by auto
next
  case (Suc k)
  obtain ok al1 where a: "answer al = (ok, al1)" by (cases "answer al")
  show ?case
  proof (cases ok)
    case False
    with a have "al \<noteq> []" by (auto simp: answer_def)
    with a False show ?thesis by (auto intro!: exI [of _ "0::nat"])
  next
    case True
    let ?p = "te_owners te ! i"
    let ?ow = "if already_in_owners ow ?p then ow else ow @ [?p]"
    from Suc.prems have i: "i < MAX_PEER_ENTRIES" "Suc i + k \<le> MAX_PEER_ENTRIES" by auto
    from Suc.IH [OF i(2) Suc.prems(2), of al1 ?ow] obtain al' j where
      j: "j \<le> k" "al1 = [] \<longrightarrow> j = k \<and> al' = []"
        "peer_id_list_add_from k (Suc i) te al1 ?ow =
           Inr (al', owners_add (take j (drop (Suc i) (te_owners te))) ?ow)" by blast
    have "drop i (te_owners te) = ?p # drop (Suc i) (te_owners te)"
      using i(1) Suc.prems(2) by (simp add: Cons_nth_drop_Suc)
    with a True i(1) j have "peer_id_list_add_from (Suc k) i te al ow =
        Inr (al', owners_add (take (Suc j) (drop i (te_owners te))) ow)"
      by (auto simp: Let_def owners_add_Cons)
    moreover have "al = [] \<longrightarrow> Suc j = Suc k \<and> al' = []" using a j(2) by auto
    ultimately show ?thesis using j(1) by (metis Suc_le_mono)
  qed
qed

lemma peer_id_list_add_prefix:
  assumes "te_ok te"
  shows "\<exists>al' j. (al = [] \<longrightarrow> take j (te_owner_list te) = te_owner_list te \<and> al' = []) \<and>
      peer_id_list_add te al ow = Inr (al', owners_add (take j (te_owner_list te)) ow)"
proof -
  let ?n = "unat (te_owner_n te)"
  obtain al' j where j: "j \<le> ?n" "al = [] \<longrightarrow> j = ?n \<and> al' = []"
    "peer_id_list_add te al ow = Inr (al', owners_add (take j (te_owners te)) ow)"
    using peer_id_list_add_from_prefix [of 0 ?n te al ow] assms
    by (auto simp: te_ok_def peer_id_list_add_def)
  have "take j (te_owners te) = take j (te_owner_list te)"
    using j(1) by (simp add: te_owner_list_def min_def)
  moreover have "al = [] \<longrightarrow> take j (te_owner_list te) = te_owner_list te \<and> al' = []"
    using j(2) by (simp add: te_owner_list_def)
  ultimately show ?thesis using j(3) by (intro exI conjI) simp_all
qed

lemma peer_id_list_add_all:
  assumes "te_ok te"
  shows "peer_id_list_add te [] ow = Inr ([], owners_add (te_owner_list te) ow)"
  using peer_id_list_add_prefix [OF assms, of "[]" ow] by auto

section \<open>Lemmas on entries\<close>

lemma hput_same: "cells h p = Some v \<Longrightarrow> hput p v h = h"
  by (simp add: hput_def fun_upd_idem)

lemma entry_ok_owners [simp]:
  "entry_ok fe \<Longrightarrow> entry_ok (fe\<lparr>fe_timestamp := t\<rparr>)"
  "entry_ok fe \<Longrightarrow> entry_ok (fe\<lparr>fe_owners := owners_add ps (fe_owners fe)\<rparr>)"
  "entry_ok fe \<Longrightarrow> entry_ok (fe\<lparr>fe_owners := owners_add ps []\<rparr>)"
  "entry_ok fe \<Longrightarrow> entry_ok (fe\<lparr>fe_timestamp := t, fe_owners := owners_add ps []\<rparr>)"
  by (simp_all add: entry_ok_def owners_add_distinct)

lemma entry_ok_of: "te_ok te \<Longrightarrow> entry_ok (entry_of te)"
  by (simp add: entry_ok_def entry_of_def te_ok_def owners_add_distinct)

lemma entry_merge_name [simp]: "fe_name (entry_merge fe te) = fe_name fe"
  by (simp add: entry_merge_def)

lemma entry_of_name [simp]: "fe_name (entry_of te) = te_name te"
  by (simp add: entry_of_def)

text \<open>An update overwrites one entry; without a failing allocation it merges.\<close>

lemma file_entry_update_step:
  assumes p: "p \<noteq> NULL" "cells (ft_heap ft) p = Some fe" and fe: "entry_ok fe" and te: "te_ok te"
  shows "\<exists>al fe'. file_entry_update ft p te =
      Inr (if te_timestamp te < fe_timestamp fe then -1 else 0,
           ft\<lparr>ft_heap := hput p fe' (ft_heap ft), ft_callocs := al\<rparr>) \<and>
      fe_name fe' = fe_name fe \<and> entry_ok fe' \<and>
      (ft_callocs ft = [] \<longrightarrow> al = [] \<and> fe' = entry_merge fe te)"
proof -
  consider (newer) "fe_timestamp fe < te_timestamp te" | (same) "te_timestamp te = fe_timestamp fe"
    | (older) "te_timestamp te < fe_timestamp fe" using linorder_less_linear by blast
  then show ?thesis
  proof cases
    case newer
    obtain al j where j: "ft_callocs ft = [] \<longrightarrow> take j (te_owner_list te) = te_owner_list te \<and> al = []"
      "peer_id_list_add te (ft_callocs ft) [] = Inr (al, owners_add (take j (te_owner_list te)) [])"
      using peer_id_list_add_prefix [OF te, of "ft_callocs ft" "[]"] by blast
    let ?fe = "fe\<lparr>fe_timestamp := te_timestamp te, fe_owners := owners_add (take j (te_owner_list te)) []\<rparr>"
    have "file_entry_update ft p te = Inr (0, ft\<lparr>ft_heap := hput p ?fe (ft_heap ft), ft_callocs := al\<rparr>)"
      using newer p j(2) by (simp add: file_entry_update_def peer_id_list_replace_fe_def peer_id_list_destroy_def)
    moreover have "ft_callocs ft = [] \<longrightarrow> al = [] \<and> ?fe = entry_merge fe te"
      using newer j(1) by (simp add: entry_merge_def)
    ultimately show ?thesis using newer fe by (intro exI [of _ al] exI [of _ ?fe]) (auto dest: less_not_sym)
  next
    case same
    obtain al j where j: "ft_callocs ft = [] \<longrightarrow> take j (te_owner_list te) = te_owner_list te \<and> al = []"
      "peer_id_list_add te (ft_callocs ft) (fe_owners fe) =
         Inr (al, owners_add (take j (te_owner_list te)) (fe_owners fe))"
      using peer_id_list_add_prefix [OF te, of "ft_callocs ft" "fe_owners fe"] by blast
    let ?fe = "fe\<lparr>fe_owners := owners_add (take j (te_owner_list te)) (fe_owners fe)\<rparr>"
    have "file_entry_update ft p te = Inr (0, ft\<lparr>ft_heap := hput p ?fe (ft_heap ft), ft_callocs := al\<rparr>)"
      using same p j(2) by (simp add: file_entry_update_def)
    moreover have "ft_callocs ft = [] \<longrightarrow> al = [] \<and> ?fe = entry_merge fe te"
      using same j(1) by (simp add: entry_merge_def)
    ultimately show ?thesis using same fe by (intro exI [of _ al] exI [of _ ?fe]) simp
  next
    case older
    then have "file_entry_update ft p te =
        Inr (-1, ft\<lparr>ft_heap := hput p fe (ft_heap ft), ft_callocs := ft_callocs ft\<rparr>)"
      using p less_imp_neq [OF older] by (simp add: file_entry_update_def hput_same less_not_sym)
    moreover have "entry_merge fe te = fe" using older by (auto simp: entry_merge_def)
    ultimately show ?thesis using older fe by (intro exI [of _ "ft_callocs ft"] exI [of _ fe]) simp
  qed
qed

section \<open>Lemmas on the table operations\<close>

text \<open>What \<open>file_table_add\<close> stores, given what was stored before.\<close>

definition add_spec :: "file_entry option \<Rightarrow> trans_file_entry \<Rightarrow> file_entry" where
  "add_spec old te = (case old of None \<Rightarrow> entry_of te | Some fe \<Rightarrow> entry_merge fe te)"

lemma length_bkt_add:
  assumes "distinct (bkt_all B)" and "p \<notin> set (bkt_all B)" and "b < HASH_SIZE"
  shows "length (bkt_all (bkt_add b p B)) = Suc (length (bkt_all B))"
proof -
  have "length (bkt_all (bkt_add b p B)) = card (insert p (set (bkt_all B)))"
    using distinct_card [OF distinct_bkt_add [OF assms(1,2), of b]] set_bkt_add [OF assms(3)] by simp
  then show ?thesis using assms(2) distinct_card [OF assms(1)] by simp
qed

lemma length_bkt_del:
  assumes "distinct (bkt_all B)" and "p \<in> set (bkt_all B)"
  shows "Suc (length (bkt_all (bkt_del p B))) = length (bkt_all B)"
proof -
  have "length (bkt_all (bkt_del p B)) = card (set (bkt_all B) - {p})"
    using distinct_card [OF distinct_bkt_del [OF assms(1), of p]] set_bkt_del [OF assms(1)] by simp
  then show ?thesis
    using distinct_card [OF assms(1)] card_Suc_Diff1 [OF finite_set assms(2)] by simp
qed

lemma brk_not_in_table: "ft_inv ft \<Longrightarrow> brk (ft_heap ft) \<notin> set (bkt_all (file_htable ft))"
  using ft_inv_cell [of ft "brk (ft_heap ft)"] heap_ok_fresh [OF ft_inv_heap, of ft]
  by (auto simp: in_table_def)

text \<open>The new entry of \<open>file_table_add\<close>: allocated, filled and linked.\<close>

lemma file_table_add_new:
  assumes inv: "ft_inv ft" and te: "te_ok te" and new: "ft_map ft (te_name te) = None"
    and al: "answer (ft_callocs ft) = (True, al)"
  shows "\<exists>ft' fe' al'. file_table_add ft te = Inr (brk (ft_heap ft), ft') \<and> ft_inv ft' \<and>
      fe_name fe' = te_name te \<and> in_table ft' (brk (ft_heap ft)) fe' \<and>
      ft_map ft' = (ft_map ft)(te_name te \<mapsto> fe') \<and> ft_n ft' = ft_n ft + 1 \<and>
      length (bkt_all (file_htable ft')) = Suc (length (bkt_all (file_htable ft))) \<and>
      ft_callocs ft' = al' \<and> (ft_callocs ft = [] \<longrightarrow> al' = [] \<and> fe' = entry_of te)"
proof -
  let ?p = "brk (ft_heap ft)"
  let ?h = "snd (hnew fe_zero (ft_heap ft))"
  have heap: "heap_ok (ft_heap ft)" using inv by (rule ft_inv_heap)
  obtain al' j where j: "al = [] \<longrightarrow> take j (te_owner_list te) = te_owner_list te \<and> al' = []"
    "peer_id_list_add te al [] = Inr (al', owners_add (take j (te_owner_list te)) [])"
    using peer_id_list_add_prefix [OF te, of al "[]"] by blast
  let ?fe = "\<lparr>fe_name = te_name te, fe_timestamp = te_timestamp te,
     fe_type = ucast (te_file_type te), fe_owners = owners_add (take j (te_owner_list te)) []\<rparr>"
  let ?ft = "ft\<lparr>ft_heap := hput ?p ?fe ?h, ft_callocs := al',
      file_htable := bkt_add (slot_ulong (ELFhash (te_name te))) ?p (file_htable ft), ft_n := ft_n ft + 1\<rparr>"
  have p: "?p \<noteq> NULL" using heap by (auto simp: heap_ok_def)
  have alloc: "file_entry_alloc ft = (?p, ft\<lparr>ft_heap := ?h, ft_callocs := al\<rparr>)"
    using al by (simp add: file_entry_alloc_def hnew_def)
  have fill: "file_entry_fill_from (ft\<lparr>ft_heap := ?h, ft_callocs := al\<rparr>) ?p te =
      Inr (ft\<lparr>ft_heap := hput ?p ?fe ?h, ft_callocs := al'\<rparr>)"
    using p te j(2) by (simp add: file_entry_fill_from_def hget_def fe_zero_def strcpy_name_def te_ok_def)
  have "file_table_search ft (te_name te) = Inr NULL"
    using file_table_search_ptr [OF inv] ft_map_None [OF inv] new by simp
  then have run: "file_table_add ft te = Inr (?p, ?ft)"
    using p by (simp add: file_table_add_def alloc fill file_entry_add_def)
  have ok: "entry_ok ?fe" using te by (simp add: entry_ok_def te_ok_def owners_add_distinct)
  note ins = ft_insert [OF inv brk_not_in_table [OF inv] _ ok, of ?ft]
  have ins: "ft_inv ?ft" "ft_map ?ft = (ft_map ft)(te_name te \<mapsto> ?fe)"
    using ins heap new by simp_all
  have tab: "in_table ?ft ?p ?fe"
    by (simp add: in_table_def)
  have len: "length (bkt_all (file_htable ?ft)) = Suc (length (bkt_all (file_htable ft)))"
    using length_bkt_add [OF ft_inv_distinct [OF inv] brk_not_in_table [OF inv]] by simp
  have "ft_callocs ft = [] \<longrightarrow> al' = [] \<and> ?fe = entry_of te"
    using j(1) al by (auto simp: entry_of_def)
  with run ins tab len show ?thesis by (intro exI [of _ ?ft] exI [of _ ?fe] exI [of _ al']) simp
qed

lemma file_table_add_old:
  assumes inv: "ft_inv ft" and te: "te_ok te" and old: "ft_map ft (te_name te) = Some fe"
  shows "\<exists>ft' fe' al'. file_table_add ft te = Inr (ft_ptr ft (te_name te), ft') \<and>
      file_table_update ft te = Inr (0, ft') \<and> ft_inv ft' \<and>
      fe_name fe' = te_name te \<and> in_table ft' (ft_ptr ft (te_name te)) fe' \<and>
      ft_map ft' = (ft_map ft)(te_name te \<mapsto> fe') \<and> ft_n ft' = ft_n ft \<and>
      file_htable ft' = file_htable ft \<and>
      ft_callocs ft' = al' \<and> (ft_callocs ft = [] \<longrightarrow> al' = [] \<and> fe' = entry_merge fe te)"
proof -
  let ?p = "ft_ptr ft (te_name te)"
  have p: "in_table ft ?p fe" and name: "fe_name fe = te_name te"
    using ft_map_Some [OF inv old] ft_map_name [OF inv old] by simp_all
  have nn: "?p \<noteq> NULL" using in_table_not_null [OF inv p] .
  obtain al fe' where u: "file_entry_update ft ?p te =
      Inr (if te_timestamp te < fe_timestamp fe then -1 else 0,
           ft\<lparr>ft_heap := hput ?p fe' (ft_heap ft), ft_callocs := al\<rparr>)"
      "fe_name fe' = fe_name fe" "entry_ok fe'"
      "ft_callocs ft = [] \<longrightarrow> al = [] \<and> fe' = entry_merge fe te"
    using file_entry_update_step [OF nn _ ft_inv_entry_ok [OF inv p] te] p
    unfolding in_table_def by blast
  let ?ft = "ft\<lparr>ft_heap := hput ?p fe' (ft_heap ft), ft_callocs := al\<rparr>"
  have "file_table_add ft te = Inr (?p, ?ft)" "file_table_update ft te = Inr (0, ?ft)"
    using nn u(1) by (simp_all add: file_table_add_def file_table_update_def file_table_search_ptr [OF inv])
  moreover have "ft_inv ?ft" "ft_map ?ft = (ft_map ft)(te_name te \<mapsto> fe')"
    using ft_put [OF inv p u(2,3), of ?ft] name by simp_all
  moreover have "in_table ?ft ?p fe'" using p by (simp add: in_table_def)
  ultimately show ?thesis using u(2,4) name by (intro exI [of _ ?ft] exI [of _ fe'] exI [of _ al]) simp
qed

text \<open>The outcome of \<open>file_table_add\<close> for every answer of the allocator.\<close>

lemma file_table_add_total:
  assumes inv: "ft_inv ft" and te: "te_ok te"
  shows "\<exists>p ft'. file_table_add ft te = Inr (p, ft') \<and> ft_inv ft' \<and>
      (ft_counted ft \<longrightarrow> ft_counted ft') \<and>
      (if p = NULL then False \<in> set (ft_callocs ft) \<and> ft_map ft' = ft_map ft \<and> ft_map ft (te_name te) = None
       else \<exists>fe'. in_table ft' p fe' \<and> fe_name fe' = te_name te \<and>
              ft_map ft' = (ft_map ft)(te_name te \<mapsto> fe'))"
proof (cases "ft_map ft (te_name te)")
  case None
  show ?thesis
  proof (cases "answer (ft_callocs ft)")
    case (Pair ok al)
    show ?thesis
    proof (cases ok)
      case True
      with Pair have "answer (ft_callocs ft) = (True, al)" by simp
      from file_table_add_new [OF inv te None this] obtain ft' fe' where
        *: "file_table_add ft te = Inr (brk (ft_heap ft), ft')" "ft_inv ft'"
        "fe_name fe' = te_name te" "in_table ft' (brk (ft_heap ft)) fe'"
        "ft_map ft' = (ft_map ft)(te_name te \<mapsto> fe')" "ft_n ft' = ft_n ft + 1"
        "length (bkt_all (file_htable ft')) = Suc (length (bkt_all (file_htable ft)))" by blast
      then show ?thesis
        using in_table_not_null [OF *(2,4)]
        by (intro exI [of _ "brk (ft_heap ft)"] exI [of _ ft']) (auto simp: ft_counted_def)
    next
      case False
      let ?ft = "ft\<lparr>ft_callocs := al\<rparr>"
      have "file_table_add ft te = Inr (NULL, ?ft)"
        using None Pair False by (simp add: file_table_add_def file_table_search_ptr [OF inv]
          ft_map_None [OF inv] file_entry_alloc_def)
      moreover have "ft_inv ?ft" using inv by (simp add: ft_inv_def in_table_def)
      moreover have "ft_map ?ft = ft_map ft" by (simp add: ft_map_def ft_ptr_def fun_eq_iff)
      moreover have "False \<in> set (ft_callocs ft)"
        using Pair False by (auto simp: answer_def split: list.splits)
      ultimately show ?thesis using None by (auto simp: ft_counted_def)
    qed
  qed
next
  case (Some fe)
  from file_table_add_old [OF inv te Some] obtain ft' fe' where
    *: "file_table_add ft te = Inr (ft_ptr ft (te_name te), ft')" "ft_inv ft'"
    "fe_name fe' = te_name te" "in_table ft' (ft_ptr ft (te_name te)) fe'"
    "ft_map ft' = (ft_map ft)(te_name te \<mapsto> fe')" "ft_n ft' = ft_n ft"
    "file_htable ft' = file_htable ft" by blast
  then show ?thesis
    using in_table_not_null [OF *(2,4)]
    by (intro exI [of _ "ft_ptr ft (te_name te)"] exI [of _ ft']) (auto simp: ft_counted_def)
qed

text \<open>The outcome when memory does not run out.\<close>

lemma file_table_add_spec:
  assumes inv: "ft_inv ft" and te: "te_ok te" and al: "ft_callocs ft = []"
  shows "\<exists>ft'. file_table_add ft te = Inr (ft_ptr ft' (te_name te), ft') \<and> ft_inv ft' \<and>
      ft_callocs ft' = [] \<and>
      ft_map ft' = (ft_map ft)(te_name te \<mapsto> add_spec (ft_map ft (te_name te)) te)"
proof (cases "ft_map ft (te_name te)")
  case None
  obtain ft' fe' where *: "file_table_add ft te = Inr (brk (ft_heap ft), ft')" "ft_inv ft'"
    "fe_name fe' = te_name te" "in_table ft' (brk (ft_heap ft)) fe'"
    "ft_map ft' = (ft_map ft)(te_name te \<mapsto> fe')" "ft_callocs ft' = [] \<and> fe' = entry_of te"
    using file_table_add_new [OF inv te None, of "[]"] al by auto
  with ft_ptr_in [OF *(2,4)] None show ?thesis by (auto simp: add_spec_def)
next
  case (Some fe)
  obtain ft' fe' where *: "file_table_add ft te = Inr (ft_ptr ft (te_name te), ft')" "ft_inv ft'"
    "fe_name fe' = te_name te" "in_table ft' (ft_ptr ft (te_name te)) fe'"
    "ft_map ft' = (ft_map ft)(te_name te \<mapsto> fe')" "ft_callocs ft' = [] \<and> fe' = entry_merge fe te"
    using file_table_add_old [OF inv te Some] al by blast
  with ft_ptr_in [OF *(2,4)] Some show ?thesis by (auto simp: add_spec_def)
qed

lemma file_entry_delete_step:
  assumes inv: "ft_inv ft" and p: "in_table ft p fe"
  shows "\<exists>ft'. file_entry_delete ft p = Inr ft' \<and> ft_inv ft' \<and> ft_callocs ft' = ft_callocs ft \<and>
      file_htable ft' = bkt_del p (file_htable ft) \<and> ft_n ft' = ft_n ft - 1 \<and>
      cells (ft_heap ft') = (cells (ft_heap ft))(p := None) \<and>
      ft_map ft' = (ft_map ft)(fe_name fe := None)"
proof -
  let ?ft = "ft\<lparr>file_htable := bkt_del p (file_htable ft), ft_heap := hfree p (ft_heap ft),
                ft_n := ft_n ft - 1\<rparr>"
  have "file_entry_delete ft p = Inr ?ft"
    using p in_table_not_null [OF inv p] by (simp add: file_entry_delete_def in_table_def)
  moreover have "ft_inv ?ft" "ft_map ?ft = (ft_map ft)(fe_name fe := None)"
    using ft_remove [OF inv p, of ?ft] ft_inv_heap [OF inv] by simp_all
  ultimately show ?thesis by (intro exI [of _ ?ft]) simp
qed

lemma counted_delete:
  assumes "ft_inv ft" and "in_table ft p fe" and "file_htable ft' = bkt_del p (file_htable ft)"
    and "ft_n ft' = ft_n ft - 1" and "ft_counted ft"
  shows "ft_counted ft'"
  using assms length_bkt_del [OF ft_inv_distinct [OF assms(1)], of p]
  by (auto simp: ft_counted_def in_table_def)

lemma file_table_delete_spec:
  assumes inv: "ft_inv ft"
  shows "\<exists>ft'. file_table_delete ft te = Inr (if ft_map ft (te_name te) = None then -1 else 0, ft') \<and>
      ft_inv ft' \<and> ft_callocs ft' = ft_callocs ft \<and> (ft_counted ft \<longrightarrow> ft_counted ft') \<and>
      ft_map ft' = (ft_map ft)(te_name te := None)"
proof (cases "ft_map ft (te_name te)")
  case None
  then have "file_table_delete ft te = Inr (-1, ft)"
    by (simp add: file_table_delete_def file_table_search_ptr [OF inv] ft_map_None [OF inv])
  with None inv show ?thesis by (auto simp: fun_upd_idem)
next
  case (Some fe)
  note p = ft_map_Some [OF inv Some]
  from file_entry_delete_step [OF inv p] obtain ft' where ft':
    "file_entry_delete ft (ft_ptr ft (te_name te)) = Inr ft'" "ft_inv ft'"
    "ft_callocs ft' = ft_callocs ft" "file_htable ft' = bkt_del (ft_ptr ft (te_name te)) (file_htable ft)"
    "ft_n ft' = ft_n ft - 1" "ft_map ft' = (ft_map ft)(fe_name fe := None)" by blast
  have "file_table_delete ft te = Inr (0, ft')"
    using ft'(1) in_table_not_null [OF inv p]
    by (simp add: file_table_delete_def file_table_search_ptr [OF inv])
  with ft' Some ft_map_name [OF inv Some] counted_delete [OF inv p] show ?thesis by auto
qed

text \<open>One round of the loop of \<open>file_table_delete_owner\<close>.\<close>

lemma delete_owner_entry_step:
  assumes inv: "ft_inv ft" and p: "in_table ft p fe"
  shows "\<exists>ft'. delete_owner_entry i p ft = Inr ft' \<and> ft_inv ft' \<and> ft_callocs ft' = ft_callocs ft \<and>
      ft_n ft' = ft_n ft \<and>
      (\<forall>q ge. in_table ft' q ge \<longleftrightarrow> (if q = p then entry_drop i fe = Some ge else in_table ft q ge))"
proof -
  let ?ow = "filter (\<lambda>q. \<not> pid_ip q = i) (fe_owners fe)"
  let ?fe = "fe\<lparr>fe_owners := ?ow\<rparr>"
  let ?ft1 = "ft\<lparr>ft_heap := hput p ?fe (ft_heap ft)\<rparr>"
  let ?ft2 = "?ft1\<lparr>file_htable := bkt_del p (file_htable ?ft1), ft_heap := hfree p (ft_heap ?ft1)\<rparr>"
  have run: "delete_owner_entry i p ft = Inr (if ?ow = [] then ?ft2 else ?ft1)"
    using p by (simp add: delete_owner_entry_def in_table_def Let_def)
  have ok: "entry_ok ?fe"
    using ft_inv_entry_ok [OF inv p] by (simp add: entry_ok_def distinct_map_filter)
  have inv1: "ft_inv ?ft1" using ft_put [OF inv p _ ok, of ?ft1] by simp
  have p1: "in_table ?ft1 p ?fe" using p by (simp add: in_table_def)
  have inv2: "ft_inv ?ft2" using ft_remove [OF inv1 p1, of ?ft2] ft_inv_heap [OF inv1] by simp
  have in1: "in_table ?ft1 q ge \<longleftrightarrow> (if q = p then ge = ?fe else in_table ft q ge)" for q ge
    using p by (auto simp: in_table_def)
  have in2: "in_table ?ft2 q ge \<longleftrightarrow> q \<noteq> p \<and> in_table ft q ge" for q ge
    using ft_inv_distinct [OF inv] by (auto simp: in_table_def)
  show ?thesis
  proof (cases "?ow = []")
    case True
    with run inv2 in2 show ?thesis
      by (intro exI [of _ ?ft2]) (auto simp: entry_drop_def Let_def)
  next
    case False
    with run inv1 in1 show ?thesis
      by (intro exI [of _ ?ft1]) (auto simp: entry_drop_def Let_def)
  qed
qed

lemma delete_owner_loop:
  assumes "ft_inv ft" and "distinct ps" and "set ps \<subseteq> set (bkt_all (file_htable ft))"
  shows "\<exists>ft'. efold (delete_owner_entry i) ps ft = Inr ft' \<and> ft_inv ft' \<and>
      ft_callocs ft' = ft_callocs ft \<and> ft_n ft' = ft_n ft \<and>
      (\<forall>q ge. in_table ft' q ge \<longleftrightarrow>
         (if q \<in> set ps then \<exists>fe. in_table ft q fe \<and> entry_drop i fe = Some ge else in_table ft q ge))"
  using assms
proof (induction ps arbitrary: ft)
  case Nil
  then show ?case by simp
next
  case (Cons p ps)
  obtain fe where fe: "in_table ft p fe" using Cons.prems ft_inv_cell by fastforce
  from delete_owner_entry_step [OF Cons.prems(1) fe, of i] obtain ft1 where
    ft1: "delete_owner_entry i p ft = Inr ft1" "ft_inv ft1" "ft_callocs ft1 = ft_callocs ft"
      "ft_n ft1 = ft_n ft"
      "\<And>q ge. in_table ft1 q ge \<longleftrightarrow> (if q = p then entry_drop i fe = Some ge else in_table ft q ge)"
    by blast
  have "q \<in> set (bkt_all (file_htable ft1))" if "q \<in> set ps" for q
  proof -
    from that Cons.prems obtain ge where "in_table ft q ge" using ft_inv_cell by fastforce
    with that Cons.prems(2) have "in_table ft1 q ge" using ft1(5) by auto
    then show ?thesis by (simp add: in_table_def)
  qed
  then have sub: "set ps \<subseteq> set (bkt_all (file_htable ft1))" by blast
  from Cons.IH [OF ft1(2) _ sub] Cons.prems(2) obtain ft' where
    ft': "efold (delete_owner_entry i) ps ft1 = Inr ft'" "ft_inv ft'" "ft_callocs ft' = ft_callocs ft1"
      "ft_n ft' = ft_n ft1"
      "\<And>q ge. in_table ft' q ge \<longleftrightarrow>
         (if q \<in> set ps then \<exists>fe. in_table ft1 q fe \<and> entry_drop i fe = Some ge else in_table ft1 q ge)"
    by auto
  have "in_table ft' q ge \<longleftrightarrow> (if q \<in> set (p # ps) then \<exists>fe. in_table ft q fe \<and> entry_drop i fe = Some ge
      else in_table ft q ge)" for q ge
  proof (cases "q = p")
    case True
    have "(\<exists>fe. in_table ft p fe \<and> entry_drop i fe = Some ge) \<longleftrightarrow> entry_drop i fe = Some ge"
      using fe in_table_fun [OF fe] by blast
    with True ft'(5) [of q ge] ft1(5) [of q ge] Cons.prems(2) show ?thesis by simp
  next
    case False
    with ft'(5) [of q ge] ft1(5) [of q] show ?thesis by simp
  qed
  with ft1 ft' show ?case by (intro exI [of _ ft']) simp
qed

lemma file_table_delete_owner_spec:
  assumes inv: "ft_inv ft"
  shows "\<exists>ft'. file_table_delete_owner ft i = Inr ft' \<and> ft_inv ft' \<and>
      ft_callocs ft' = ft_callocs ft \<and> ft_n ft' = ft_n ft \<and>
      ft_map ft' = (\<lambda>n. Option.bind (ft_map ft n) (entry_drop i))"
proof -
  from delete_owner_loop [OF inv ft_inv_distinct [OF inv] order_refl, of i] obtain ft' where
    ft': "file_table_delete_owner ft i = Inr ft'" "ft_inv ft'" "ft_callocs ft' = ft_callocs ft"
      "ft_n ft' = ft_n ft" and
    tab: "\<And>q ge. in_table ft' q ge \<longleftrightarrow> (if q \<in> set (bkt_all (file_htable ft))
        then \<exists>fe. in_table ft q fe \<and> entry_drop i fe = Some ge else in_table ft q ge)"
    unfolding file_table_delete_owner_def by blast
  have tab: "in_table ft' q ge \<longleftrightarrow> (\<exists>fe. in_table ft q fe \<and> entry_drop i fe = Some ge)" for q ge
    using tab [of q ge] by (auto simp: in_table_def)
  have name: "entry_drop i fe = Some ge \<Longrightarrow> fe_name ge = fe_name fe" for fe ge
    by (auto simp: entry_drop_def Let_def split: if_splits)
  have "ft_map ft' = (\<lambda>n. Option.bind (ft_map ft n) (entry_drop i))"
  proof (rule ft_map_ext [OF ft'(2)])
    fix n ge
    show "Option.bind (ft_map ft n) (entry_drop i) = Some ge \<longleftrightarrow>
        (\<exists>p. in_table ft' p ge \<and> fe_name ge = n)"
      unfolding tab bind_eq_Some_conv ft_map_iff [OF inv] using name by fastforce
  qed
  with ft' show ?thesis by blast
qed

text \<open>The loop of \<open>file_table_destroy\<close>.\<close>

lemma destroy_loop:
  assumes "ft_inv ft" and "distinct ps" and "set ps \<subseteq> set (bkt_all (file_htable ft))"
  shows "\<exists>ft'. efold (\<lambda>p ft. file_entry_delete ft p) ps ft = Inr ft' \<and> ft_inv ft' \<and>
      ft_n ft' = ft_n ft - int (length ps) \<and>
      set (bkt_all (file_htable ft')) = set (bkt_all (file_htable ft)) - set ps \<and>
      (\<forall>p \<in> set ps. cells (ft_heap ft') p = None) \<and>
      (\<forall>p. p \<notin> set ps \<longrightarrow> cells (ft_heap ft') p = cells (ft_heap ft) p)"
  using assms
proof (induction ps arbitrary: ft)
  case Nil
  then show ?case by simp
next
  case (Cons p ps)
  obtain fe where fe: "in_table ft p fe" using Cons.prems ft_inv_cell by fastforce
  from file_entry_delete_step [OF Cons.prems(1) fe] obtain ft1 where
    ft1: "file_entry_delete ft p = Inr ft1" "ft_inv ft1" "ft_n ft1 = ft_n ft - 1"
      "file_htable ft1 = bkt_del p (file_htable ft)" "cells (ft_heap ft1) = (cells (ft_heap ft))(p := None)"
    by blast
  have set1: "set (bkt_all (file_htable ft1)) = set (bkt_all (file_htable ft)) - {p}"
    using ft_inv_distinct [OF Cons.prems(1)] by (simp add: ft1)
  then have sub: "set ps \<subseteq> set (bkt_all (file_htable ft1))" using Cons.prems by auto
  from Cons.IH [OF ft1(2) _ sub] Cons.prems(2) obtain ft' where
    "efold (\<lambda>p ft. file_entry_delete ft p) ps ft1 = Inr ft'" "ft_inv ft'"
      "ft_n ft' = ft_n ft1 - int (length ps)"
      "set (bkt_all (file_htable ft')) = set (bkt_all (file_htable ft1)) - set ps"
      "\<forall>p \<in> set ps. cells (ft_heap ft') p = None"
      "\<forall>p. p \<notin> set ps \<longrightarrow> cells (ft_heap ft') p = cells (ft_heap ft1) p" by auto
  with ft1 set1 Cons.prems(2) show ?case by (intro exI [of _ ft']) auto
qed

lemma file_table_destroy_spec:
  assumes inv: "ft_inv ft"
  shows "\<exists>ft'. file_table_destroy ft = Inr ft' \<and> ft_inv ft' \<and> bkt_all (file_htable ft') = [] \<and>
      ft_n ft' = ft_n ft - int (length (bkt_all (file_htable ft))) \<and>
      (\<forall>p \<in> set (bkt_all (file_htable ft)). cells (ft_heap ft') p = None)"
  using destroy_loop [OF inv ft_inv_distinct [OF inv] order_refl]
  by (auto simp: file_table_destroy_def)

section \<open>Snapshots\<close>

definition te_of :: "file_entry \<Rightarrow> trans_file_entry" where
  "te_of fe = \<lparr>te_name = fe_name fe, te_timestamp = fe_timestamp fe, te_op_type = 0,
     te_file_type = ucast (fe_type fe), te_owner_n = of_nat (length (fe_owners fe)),
     te_owners = fe_owners fe @ replicate (MAX_PEER_ENTRIES - length (fe_owners fe)) pid_zero\<rparr>"

lemma fill_owners_spec:
  assumes "te_owner_n te = of_nat k" and "length (te_owners te) = MAX_PEER_ENTRIES" and "k \<le> MAX_PEER_ENTRIES"
  shows "fill_owners ps te =
     (if k + length ps \<le> MAX_PEER_ENTRIES
      then Inr (te\<lparr>te_owners := take k (te_owners te) @ ps @ drop (k + length ps) (te_owners te),
                   te_owner_n := of_nat (k + length ps)\<rparr>)
      else Inl Out_Of_Bounds)"
  using assms
proof (induction ps arbitrary: k te)
  case Nil
  then show ?case by simp
next
  case (Cons p ps)
  have k: "unat (te_owner_n te) = k"
    using Cons.prems(1,3) by (simp add: unat_of_nat MAX_PEER_ENTRIES_def take_bit_nat_eq_self)
  show ?case
  proof (cases "k < MAX_PEER_ENTRIES")
    case True
    let ?te = "te\<lparr>te_owners := (te_owners te)[k := p], te_owner_n := te_owner_n te + 1\<rparr>"
    have "te_owner_n ?te = of_nat (Suc k)" using Cons.prems(1) by simp
    from Cons.IH [OF this] True Cons.prems(2)
    have "fill_owners ps ?te =
       (if Suc k + length ps \<le> MAX_PEER_ENTRIES
        then Inr (?te\<lparr>te_owners := take (Suc k) (te_owners ?te) @ ps @
                       drop (Suc k + length ps) (te_owners ?te),
                     te_owner_n := of_nat (Suc k + length ps)\<rparr>)
        else Inl Out_Of_Bounds)" by simp
    moreover have "take (Suc k) ((te_owners te)[k := p]) = take k (te_owners te) @ [p]"
      using True Cons.prems(2) by (simp add: take_Suc_conv_app_nth)
    ultimately show ?thesis using k True by (simp add: Let_def)
  next
    case False
    with k show ?thesis by (simp add: Let_def)
  qed
qed

lemma trans_entry_fill_from_spec:
  assumes "p \<noteq> NULL" and "cells (ft_heap ft) p = Some fe" and "length (fe_name fe) < MAX_NAME_LEN"
  shows "trans_entry_fill_from te ft p =
     (if length (fe_owners fe) \<le> MAX_PEER_ENTRIES then Inr (te_of fe) else Inl Out_Of_Bounds)"
  using assms
  by (auto simp: trans_entry_fill_from_def strcpy_name_def fill_owners_spec [where k = 0]
        te_zero_def te_of_def)

lemma tft_set_append:
  "length (tft_entries t) < MAX_FILE_ENTRIES \<Longrightarrow>
   tft_set (length (tft_entries t)) te t = Inr (t\<lparr>tft_entries := tft_entries t @ [te]\<rparr>)"
  by (simp add: tft_set_def list_update_append)

lemma table_fill_entry_step:
  assumes t: "tft_n t = int (length (tft_entries t))"
    and fe: "p \<noteq> NULL" "cells (ft_heap ft) p = Some fe" "length (fe_name fe) < MAX_NAME_LEN"
  shows "table_fill_entry ft p t =
     (if length (tft_entries t) < MAX_FILE_ENTRIES \<and> length (fe_owners fe) \<le> MAX_PEER_ENTRIES
      then Inr \<lparr>tft_n = tft_n t + 1, tft_entries = tft_entries t @ [te_of fe]\<rparr>
      else Inl Out_Of_Bounds)"
  using t trans_entry_fill_from_spec [OF fe]
  by (simp add: table_fill_entry_def tft_get_def tft_set_append)

definition entry_at :: "file_table \<Rightarrow> ptr \<Rightarrow> file_entry" where
  "entry_at ft p = the (cells (ft_heap ft) p)"

lemma table_fill_loop:
  assumes "\<forall>p \<in> set ps. \<exists>fe. p \<noteq> NULL \<and> cells (ft_heap ft) p = Some fe \<and> length (fe_name fe) < MAX_NAME_LEN"
    and "tft_n t = int (length (tft_entries t))" and "length (tft_entries t) \<le> MAX_FILE_ENTRIES"
  shows "efold (table_fill_entry ft) ps t =
     (if length (tft_entries t) + length ps \<le> MAX_FILE_ENTRIES \<and>
         (\<forall>p \<in> set ps. length (fe_owners (entry_at ft p)) \<le> MAX_PEER_ENTRIES)
      then Inr \<lparr>tft_n = tft_n t + int (length ps),
                tft_entries = tft_entries t @ map (te_of \<circ> entry_at ft) ps\<rparr>
      else Inl Out_Of_Bounds)"
  using assms
proof (induction ps arbitrary: t)
  case Nil
  then show ?case by simp
next
  case (Cons p ps)
  then obtain fe where fe: "p \<noteq> NULL" "cells (ft_heap ft) p = Some fe" "length (fe_name fe) < MAX_NAME_LEN"
    by auto
  then have at: "entry_at ft p = fe" by (simp add: entry_at_def)
  let ?t = "\<lparr>tft_n = tft_n t + 1, tft_entries = tft_entries t @ [te_of fe]\<rparr>"
  note step = table_fill_entry_step [OF Cons.prems(2) fe]
  show ?case
  proof (cases "length (tft_entries t) < MAX_FILE_ENTRIES \<and> length (fe_owners fe) \<le> MAX_PEER_ENTRIES")
    case True
    have "efold (table_fill_entry ft) ps ?t = (if length (tft_entries ?t) + length ps \<le> MAX_FILE_ENTRIES \<and>
         (\<forall>p \<in> set ps. length (fe_owners (entry_at ft p)) \<le> MAX_PEER_ENTRIES)
      then Inr \<lparr>tft_n = tft_n ?t + int (length ps), tft_entries = tft_entries ?t @ map (te_of \<circ> entry_at ft) ps\<rparr>
      else Inl Out_Of_Bounds)"
      by (rule Cons.IH) (use Cons.prems True in simp_all)
    with True step at show ?thesis by simp
  next
    case False
    with step at show ?thesis by auto
  qed
qed

lemma trans_table_fill_from_spec:
  assumes inv: "ft_inv ft"
  shows "trans_table_fill_from ft =
     (let ps = bkt_all (file_htable ft) in
      if length ps \<le> MAX_FILE_ENTRIES \<and>
         (\<forall>p \<in> set ps. length (fe_owners (entry_at ft p)) \<le> MAX_PEER_ENTRIES)
      then Inr \<lparr>tft_n = int (length ps), tft_entries = map (te_of \<circ> entry_at ft) ps\<rparr>
      else Inl Out_Of_Bounds)"
proof -
  have "\<exists>fe. p \<noteq> NULL \<and> cells (ft_heap ft) p = Some fe \<and> length (fe_name fe) < MAX_NAME_LEN"
    if "p \<in> set (bkt_all (file_htable ft))" for p
    using ft_inv_cell [OF inv that] in_table_not_null [OF inv, of p] by (auto simp: in_table_def entry_ok_def)
  then show ?thesis
    unfolding trans_table_fill_from_def Let_def
    by (subst table_fill_loop) (auto simp: tft_zero_def)
qed

end
