(* ===== verification/FileMap.thy ===== *)
theory FileMap
  imports FileTable
begin

text \<open>
  The contract of the file table: the operations of \<open>file_table.c\<close> implement operations on
  finite maps from names to entries, for whole sequences of calls. From the contract follow
  that the order in which peers report a file does not matter, and that a table sent as a
  snapshot and added to an empty table gives the same map.
\<close>

section \<open>Operations on maps\<close>

type_synonym file_map = "string \<Rightarrow> file_entry option"

datatype ft_op = FT_Add trans_file_entry | FT_Update trans_file_entry
  | FT_Delete trans_file_entry | FT_Delete_Owner u32

fun ft_exec :: "ft_op \<Rightarrow> file_table \<Rightarrow> file_table res" where
  "ft_exec (FT_Add te) ft = ebind (file_table_add ft te) (\<lambda>(_, ft). Inr ft)"
| "ft_exec (FT_Update te) ft = ebind (file_table_update ft te) (\<lambda>(_, ft). Inr ft)"
| "ft_exec (FT_Delete te) ft = ebind (file_table_delete ft te) (\<lambda>(_, ft). Inr ft)"
| "ft_exec (FT_Delete_Owner i) ft = file_table_delete_owner ft i"

fun map_exec :: "ft_op \<Rightarrow> file_map \<Rightarrow> file_map" where
  "map_exec (FT_Add te) M = M(te_name te \<mapsto> add_spec (M (te_name te)) te)"
| "map_exec (FT_Update te) M =
     M(te_name te := map_option (\<lambda>fe. entry_merge fe te) (M (te_name te)))"
| "map_exec (FT_Delete te) M = M(te_name te := None)"
| "map_exec (FT_Delete_Owner i) M = (\<lambda>n. Option.bind (M n) (entry_drop i))"

fun map_pre :: "ft_op \<Rightarrow> file_map \<Rightarrow> bool" where
  "map_pre (FT_Add te) M \<longleftrightarrow> te_ok te"
| "map_pre (FT_Update te) M \<longleftrightarrow> te_ok te"
| "map_pre (FT_Delete te) M \<longleftrightarrow> True"
| "map_pre (FT_Delete_Owner i) M \<longleftrightarrow> True"

text \<open>A table that is in order, whose allocations succeed, and that stands for a map.\<close>

definition ft_rep :: "file_table \<Rightarrow> file_map \<Rightarrow> bool" where
  "ft_rep ft M \<longleftrightarrow> ft_inv ft \<and> ft_callocs ft = [] \<and> ft_map ft = M"

lemma file_table_update_spec:
  assumes inv: "ft_inv ft" and te: "te_ok te" and al: "ft_callocs ft = []"
  shows "\<exists>ft'. file_table_update ft te = Inr (if ft_map ft (te_name te) = None then -1 else 0, ft') \<and>
      ft_inv ft' \<and> ft_callocs ft' = [] \<and>
      ft_map ft' = (ft_map ft)(te_name te := map_option (\<lambda>fe. entry_merge fe te) (ft_map ft (te_name te)))"
proof (cases "ft_map ft (te_name te)")
  case None
  then have "file_table_update ft te = Inr (-1, ft)"
    by (simp add: file_table_update_def file_table_search_ptr [OF inv] ft_map_None [OF inv])
  with None inv al show ?thesis by (auto simp: fun_upd_idem)
next
  case (Some fe)
  with file_table_add_old [OF inv te Some] al show ?thesis by auto
qed

interpretation fmp: data_refinement ft_rep ft_exec map_exec map_pre
proof
  fix ft M x
  assume "ft_rep ft M" and pre: "map_pre x M"
  then have ft: "ft_inv ft" "ft_callocs ft = []" "M = ft_map ft" by (simp_all add: ft_rep_def)
  show "\<exists>ft'. ft_exec x ft = Inr ft' \<and> ft_rep ft' (map_exec x M)"
  proof (cases x)
    case (FT_Add te)
    with pre file_table_add_spec [OF ft(1) _ ft(2), of te] ft(3) show ?thesis
      by (auto simp: ft_rep_def)
  next
    case (FT_Update te)
    with pre file_table_update_spec [OF ft(1) _ ft(2), of te] ft(3) show ?thesis
      by (auto simp: ft_rep_def)
  next
    case (FT_Delete te)
    with file_table_delete_spec [OF ft(1), of te] ft show ?thesis by (auto simp: ft_rep_def)
  next
    case (FT_Delete_Owner i)
    with file_table_delete_owner_spec [OF ft(1), of i] ft show ?thesis by (auto simp: ft_rep_def)
  qed
qed

text \<open>The table as \<open>file_table_init\<close> leaves it in a fresh process.\<close>

definition ft_start :: file_table where
  "ft_start = file_table_init \<lparr>ft_n = 0, file_htable = (\<lambda>_. []), ft_heap = heap_empty, ft_callocs = []\<rparr>"

lemma bkt_all_empty [simp]: "bkt_all (\<lambda>_. []) = []"
  by (simp add: bkt_all_def)

lemma ft_start_rep: "ft_rep ft_start (\<lambda>_. None)"
proof -
  have "ft_inv ft_start"
    by (simp add: ft_start_def file_table_init_def ft_inv_def in_table_def)
  moreover have "ft_map ft_start = (\<lambda>_. None)"
    by (simp add: ft_start_def file_table_init_def ft_map_def ft_ptr_def heap_empty_def fun_eq_iff)
  ultimately show ?thesis by (simp add: ft_rep_def ft_start_def file_table_init_def)
qed

text \<open>
  C6. The file table implements a finite map. From a fresh table, every sequence of
  \<open>file_table_add\<close>, \<open>file_table_update\<close>, \<open>file_table_delete\<close> and \<open>file_table_delete_owner\<close> calls
  with well-formed entries runs without a memory error and leaves a table in order, and
  \<open>file_table_find\<close> then returns, for every name, a pointer to exactly the entry the same calls
  give on a map (newest timestamp wins, equal timestamps merge the owners, an entry whose last
  owner leaves disappears), or the null pointer.
\<close>

theorem file_table_refines_map:
  assumes "run_pre map_pre map_exec ops (\<lambda>_. None)"
  shows "\<exists>ft. efold ft_exec ops ft_start = Inr ft \<and> ft_inv ft \<and>
      (\<forall>te. \<exists>p. file_table_find ft te = Inr p \<and>
         (case fold map_exec ops (\<lambda>_. None) (te_name te) of
            None \<Rightarrow> p = NULL
          | Some fe \<Rightarrow> p \<noteq> NULL \<and> hget (ft_heap ft) p = Inr fe))"
proof -
  obtain ft where run: "efold ft_exec ops ft_start = Inr ft"
    and rep: "ft_rep ft (fold map_exec ops (\<lambda>_. None))"
    using fmp.run_refines [OF ft_start_rep assms] by blast
  then have inv: "ft_inv ft" and map: "ft_map ft = fold map_exec ops (\<lambda>_. None)"
    by (simp_all add: ft_rep_def)
  have "\<exists>p. file_table_find ft te = Inr p \<and>
      (case ft_map ft (te_name te) of None \<Rightarrow> p = NULL
       | Some fe \<Rightarrow> p \<noteq> NULL \<and> hget (ft_heap ft) p = Inr fe)" for te
  proof (cases "ft_map ft (te_name te)")
    case None
    with ft_map_None [OF inv, of "te_name te"] show ?thesis
      by (simp add: file_table_find_def file_table_search_ptr [OF inv])
  next
    case (Some fe)
    then show ?thesis
      using in_table_not_null [OF inv ft_map_Some [OF inv Some]]
      by (simp add: file_table_find_def file_table_search_ptr [OF inv] ft_map_def)
  qed
  with run inv map show ?thesis by auto
qed

text \<open>Two peers report the same file, the second one later; a third one reports the same time.\<close>

definition te_example :: "string \<Rightarrow> u64 \<Rightarrow> u32 \<Rightarrow> trans_file_entry" where
  "te_example name t i = te_zero\<lparr>te_name := name, te_timestamp := t, te_owner_n := 1,
     te_owners := \<lparr>pid_ip = i, pid_port = 4192\<rparr> # replicate 15 pid_zero\<rparr>"

lemma te_example_ok: "length name < 128 \<Longrightarrow> te_ok (te_example name t i)"
  by (simp add: te_ok_def te_example_def MAX_NAME_LEN_def MAX_PEER_ENTRIES_def)

lemma te_example_simps [simp]:
  "te_name (te_example name t i) = name"
  "te_timestamp (te_example name t i) = t"
  "te_owner_list (te_example name t i) = [\<lparr>pid_ip = i, pid_port = 4192\<rparr>]"
  by (simp_all add: te_example_def te_owner_list_def)

lemma te_example_type: "te_file_type (te_example name t i) = 0"
  by (simp add: te_example_def te_zero_def)

theorem file_table_refines_map_witness:
  "\<exists>ft. efold ft_exec
      [FT_Add (te_example ''1/a'' 5 1), FT_Add (te_example ''1/a'' 9 2), FT_Update (te_example ''1/a'' 9 3)]
      ft_start = Inr ft \<and>
    (\<exists>p fe. file_table_find ft (te_example ''1/a'' 0 0) = Inr p \<and> hget (ft_heap ft) p = Inr fe \<and>
       fe_timestamp fe = 9 \<and> map pid_ip (fe_owners fe) = [2, 3])"
proof -
  let ?ops = "[FT_Add (te_example ''1/a'' 5 1), FT_Add (te_example ''1/a'' 9 2), FT_Update (te_example ''1/a'' 9 3)]"
  have pre: "run_pre map_pre map_exec ?ops (\<lambda>_. None)" by (simp add: te_example_ok)
  obtain fe where fe: "fold map_exec ?ops (\<lambda>_. None) ''1/a'' = Some fe"
    "fe_timestamp fe = 9" "map pid_ip (fe_owners fe) = [2, 3]"
    by (simp add: add_spec_def entry_of_def entry_merge_def owners_add_def)
  from file_table_refines_map [OF pre] obtain ft where ft: "efold ft_exec ?ops ft_start = Inr ft"
    and find: "\<And>te. \<exists>p. file_table_find ft te = Inr p \<and>
         (case fold map_exec ?ops (\<lambda>_. None) (te_name te) of
            None \<Rightarrow> p = NULL | Some fe \<Rightarrow> p \<noteq> NULL \<and> hget (ft_heap ft) p = Inr fe)" by blast
  from find [of "te_example ''1/a'' 0 0"] fe(1) obtain p where
    "file_table_find ft (te_example ''1/a'' 0 0) = Inr p" "hget (ft_heap ft) p = Inr fe" by auto
  with ft fe(2,3) show ?thesis by (intro exI conjI)
qed

section \<open>Running out of memory\<close>

text \<open>
  C29. Adding a well-formed entry to a table in order never touches invalid memory, whatever the
  allocator answers: the table stays in order and its counter right. A null result means that
  an allocation failed, that the name was not in the table and that the map is as before; any
  other result is the pointer of an entry with the name, the only one that changed.
\<close>

theorem file_table_add_survives_oom:
  assumes "ft_inv ft" and "te_ok te"
  shows "\<exists>p ft'. file_table_add ft te = Inr (p, ft') \<and> ft_inv ft' \<and>
      (ft_counted ft \<longrightarrow> ft_counted ft') \<and>
      (if p = NULL
       then False \<in> set (ft_callocs ft) \<and> ft_map ft' = ft_map ft \<and> ft_map ft (te_name te) = None
       else \<exists>fe. hget (ft_heap ft') p = Inr fe \<and> ft_map ft' = (ft_map ft)(te_name te \<mapsto> fe))"
proof -
  from file_table_add_total [OF assms] obtain p ft' where *: "file_table_add ft te = Inr (p, ft')"
    "ft_inv ft'" "ft_counted ft \<longrightarrow> ft_counted ft'"
    "if p = NULL then False \<in> set (ft_callocs ft) \<and> ft_map ft' = ft_map ft \<and> ft_map ft (te_name te) = None
     else \<exists>fe'. in_table ft' p fe' \<and> fe_name fe' = te_name te \<and> ft_map ft' = (ft_map ft)(te_name te \<mapsto> fe')"
    by blast
  then show ?thesis
    by (intro exI [of _ p] exI [of _ ft']) (auto simp: in_table_def)
qed

theorem file_table_add_survives_oom_witness:
  "\<exists>ft'. file_table_add (ft_start\<lparr>ft_callocs := [False]\<rparr>) (te_example ''1/a'' 5 1) = Inr (NULL, ft') \<and>
     ft_inv ft'"
proof -
  let ?ft = "ft_start\<lparr>ft_callocs := [False]\<rparr>"
  have inv: "ft_inv ?ft" using ft_start_rep by (simp add: ft_rep_def ft_inv_def in_table_def)
  from file_table_add_survives_oom [OF inv te_example_ok [of "''1/a''" 5 1]] obtain p ft' where
    *: "file_table_add ?ft (te_example ''1/a'' 5 1) = Inr (p, ft')" "ft_inv ft'" by auto
  then have "p = NULL"
    by (simp add: file_table_add_def file_table_search_def ft_start_def file_table_init_def file_entry_alloc_def)
  with * show ?thesis by auto
qed

section \<open>A peer leaves\<close>

text \<open>
  C38. When a peer leaves, \<open>file_table_delete_owner\<close> removes it from the owners of every entry and
  frees exactly the entries that have no owner left; nothing else changes. It does not count
  the freed entries: \<open>table->n\<close> keeps its old value, which is then too large by their number.
\<close>

theorem delete_owner_spec_and_count:
  assumes "ft_inv ft" and "ft_counted ft"
  shows "\<exists>ft'. file_table_delete_owner ft i = Inr ft' \<and> ft_inv ft' \<and>
      ft_map ft' = (\<lambda>n. Option.bind (ft_map ft n) (entry_drop i)) \<and>
      ft_n ft' = int (length (bkt_all (file_htable ft))) \<and>
      (ft_counted ft' \<longleftrightarrow>
         length (bkt_all (file_htable ft')) = length (bkt_all (file_htable ft)))"
  using file_table_delete_owner_spec [OF assms(1), of i] assms(2)
  by (auto simp: ft_counted_def)

theorem delete_owner_spec_and_count_witness:
  "\<exists>ft ft'. efold ft_exec [FT_Add (te_example ''1/a'' 5 1)] ft_start = Inr ft \<and>
     file_table_delete_owner ft 1 = Inr ft' \<and> ft_map ft' ''1/a'' = None \<and> ft_n ft' = 1 \<and>
     bkt_all (file_htable ft') = [] \<and> \<not> ft_counted ft'"
proof -
  have rep: "ft_inv ft_start" "ft_callocs ft_start = []" "ft_map ft_start = (\<lambda>_. None)"
    using ft_start_rep by (simp_all add: ft_rep_def)
  have ok: "te_ok (te_example ''1/a'' 5 1)" by (rule te_example_ok) simp
  obtain ft where ft: "file_table_add ft_start (te_example ''1/a'' 5 1) = Inr (brk (ft_heap ft_start), ft)"
      "ft_inv ft" "ft_map ft = (ft_map ft_start)(''1/a'' \<mapsto> entry_of (te_example ''1/a'' 5 1))"
      "ft_n ft = ft_n ft_start + 1"
      "length (bkt_all (file_htable ft)) = Suc (length (bkt_all (file_htable ft_start)))"
    using file_table_add_new [OF rep(1) ok, of "[]"] rep(2,3) by auto
  have cnt: "ft_counted ft" "length (bkt_all (file_htable ft)) = 1"
    using ft(4,5) by (simp_all add: ft_counted_def ft_start_def file_table_init_def)
  from delete_owner_spec_and_count [OF ft(2) cnt(1), of 1] obtain ft' where
    ft': "file_table_delete_owner ft 1 = Inr ft'" "ft_inv ft'"
      "ft_map ft' = (\<lambda>n. Option.bind (ft_map ft n) (entry_drop 1))" "ft_n ft' = 1"
      "ft_counted ft' \<longleftrightarrow> length (bkt_all (file_htable ft')) = 1"
    unfolding cnt(2) by auto
  have "ft_map ft' = (\<lambda>_. None)"
    using ft'(3) ft(3) rep(3)
    by (auto simp: fun_eq_iff entry_drop_def entry_of_def owners_add_def)
  moreover from this have "bkt_all (file_htable ft') = []"
    using ft_inv_cell [OF ft'(2)] ft_map_iff [OF ft'(2)] by (cases "bkt_all (file_htable ft')") auto
  ultimately show ?thesis using ft(1) ft' by auto
qed

section \<open>The order of reports does not matter\<close>

text \<open>What the system promises about a file: its newest timestamp and the addresses of the peers
  that own that version.\<close>

definition fe_view :: "file_entry \<Rightarrow> u64 \<times> u32 set" where
  "fe_view fe = (fe_timestamp fe, pid_ip ` set (fe_owners fe))"

definition view_merge :: "trans_file_entry \<Rightarrow> (u64 \<times> u32 set) option \<Rightarrow> (u64 \<times> u32 set) option" where
  "view_merge te v =
     (let t = te_timestamp te; S = pid_ip ` set (te_owner_list te) in
      case v of
        None \<Rightarrow> Some (t, S)
      | Some (t', S') \<Rightarrow> Some (if t' < t then (t, S) else if t' = t then (t, S' \<union> S) else (t', S')))"

definition view_add :: "trans_file_entry \<Rightarrow> (string \<Rightarrow> (u64 \<times> u32 set) option) \<Rightarrow>
    (string \<Rightarrow> (u64 \<times> u32 set) option)" where
  "view_add te V = V(te_name te := view_merge te (V (te_name te)))"

lemma fe_view_add_spec: "Some (fe_view (add_spec old te)) = view_merge te (map_option fe_view old)"
  by (cases old)
     (auto simp: add_spec_def entry_of_def entry_merge_def fe_view_def view_merge_def owners_add_ips Let_def)

lemma view_merge_commute: "view_merge a (view_merge b v) = view_merge b (view_merge a v)"
  by (cases v) (auto simp: view_merge_def Let_def)

lemma view_add_commute: "view_add a \<circ> view_add b = view_add b \<circ> view_add a"
  by (auto simp: fun_eq_iff view_add_def view_merge_commute)

lemma view_of_adds:
  "map_option fe_view \<circ> fold map_exec (map FT_Add tes) M = fold view_add tes (map_option fe_view \<circ> M)"
proof (induction tes arbitrary: M)
  case Nil
  then show ?case by simp
next
  case (Cons te tes)
  have "map_option fe_view \<circ> map_exec (FT_Add te) M = view_add te (map_option fe_view \<circ> M)"
    by (auto simp: fun_eq_iff view_add_def fe_view_add_spec)
  then show ?case by (simp only: list.map fold_simps Cons.IH)
qed

lemma run_pre_adds: "\<forall>te \<in> set tes. te_ok te \<Longrightarrow> run_pre map_pre map_exec (map FT_Add tes) M"
  by (induction tes arbitrary: M) auto

text \<open>
  C24. Reports commute. Adding the same well-formed entries in two different orders to the same
  table gives, for every name, the same newest timestamp and the same set of owners of that
  version, no matter how the reports of several peers interleave.
\<close>

theorem file_reports_commute:
  assumes "ft_inv ft" and "ft_callocs ft = []" and "\<forall>te \<in> set tes. te_ok te"
    and perm: "mset tes = mset tes'"
  shows "\<exists>ft1 ft2. efold ft_exec (map FT_Add tes) ft = Inr ft1 \<and>
      efold ft_exec (map FT_Add tes') ft = Inr ft2 \<and>
      (\<forall>n. map_option fe_view (ft_map ft1 n) = map_option fe_view (ft_map ft2 n))"
proof -
  have rep: "ft_rep ft (ft_map ft)" using assms(1,2) by (simp add: ft_rep_def)
  have "\<forall>te \<in> set tes'. te_ok te" using assms(3) mset_eq_setD [OF perm] by simp
  then obtain ft1 ft2 where ft1: "efold ft_exec (map FT_Add tes) ft = Inr ft1"
      "ft_map ft1 = fold map_exec (map FT_Add tes) (ft_map ft)"
    and ft2: "efold ft_exec (map FT_Add tes') ft = Inr ft2"
      "ft_map ft2 = fold map_exec (map FT_Add tes') (ft_map ft)"
    using fmp.run_refines [OF rep run_pre_adds] assms(3) by (metis ft_rep_def)
  have "fold view_add tes = fold view_add tes'"
    by (rule fold_multiset_equiv) (simp_all add: view_add_commute perm)
  then have "map_option fe_view \<circ> ft_map ft1 = map_option fe_view \<circ> ft_map ft2"
    by (simp add: ft1(2) ft2(2) view_of_adds)
  with ft1(1) ft2(1) show ?thesis by (metis comp_apply)
qed

theorem file_reports_commute_witness:
  "\<exists>ft1 ft2.
     efold ft_exec (map FT_Add [te_example ''1/a'' 5 1, te_example ''1/a'' 9 2]) ft_start = Inr ft1 \<and>
     efold ft_exec (map FT_Add [te_example ''1/a'' 9 2, te_example ''1/a'' 5 1]) ft_start = Inr ft2 \<and>
     map_option fe_view (ft_map ft1 ''1/a'') = map_option fe_view (ft_map ft2 ''1/a'')"
proof -
  have ok: "\<forall>te \<in> set [te_example ''1/a'' 5 1, te_example ''1/a'' 9 2]. te_ok te"
    by (simp add: te_example_ok)
  have rep: "ft_inv ft_start" "ft_callocs ft_start = []" using ft_start_rep by (simp_all add: ft_rep_def)
  have perm: "mset [te_example ''1/a'' 5 1, te_example ''1/a'' 9 2] =
      mset [te_example ''1/a'' 9 2, te_example ''1/a'' 5 1]" by simp
  from file_reports_commute [OF rep ok perm] show ?thesis by blast
qed

section \<open>Snapshots\<close>

lemma owners_add_distinct_id:
  "distinct (map pid_ip (ow @ ps)) \<Longrightarrow> owners_add ps ow = ow @ ps"
proof (induction ps arbitrary: ow)
  case Nil
  then show ?case by simp
next
  case (Cons p ps)
  from Cons.prems have "\<not> already_in_owners ow p" by (auto simp: already_in_owners_iff)
  with Cons show ?case by (simp add: owners_add_Cons)
qed

text \<open>An entry that fits the travelling format: at most 16 owners, a type of 16 bits.\<close>

definition te_fits :: "file_entry \<Rightarrow> bool" where
  "te_fits fe \<longleftrightarrow> length (fe_owners fe) \<le> MAX_PEER_ENTRIES \<and> unat (fe_type fe) < 2 ^ 16"

lemma te_owner_list_te_of:
  "length (fe_owners fe) \<le> MAX_PEER_ENTRIES \<Longrightarrow> te_owner_list (te_of fe) = fe_owners fe"
  by (simp add: te_owner_list_def te_of_def unat_of_nat MAX_PEER_ENTRIES_def take_bit_nat_eq_self)

lemma entry_of_te_of:
  assumes "entry_ok fe" and "te_fits fe"
  shows "entry_of (te_of fe) = fe"
proof -
  have "unat (take_bit 16 (fe_type fe)) = unat (fe_type fe)"
    using assms(2) by (simp add: te_fits_def unsigned_take_bit_eq take_bit_nat_eq_self)
  then have "ucast (ucast (fe_type fe) :: u16) = fe_type fe"
    by (simp add: unsigned_ucast_eq word_unat_eq_iff [symmetric])
  then show ?thesis
    using assms by (simp add: entry_of_def te_owner_list_te_of te_fits_def entry_ok_def owners_add_distinct_id)
       (simp add: te_of_def)
qed

lemma te_of_ok: "entry_ok fe \<Longrightarrow> te_fits fe \<Longrightarrow> te_ok (te_of fe)"
  by (simp add: te_ok_def te_of_def entry_ok_def te_fits_def unat_of_nat MAX_PEER_ENTRIES_def
      take_bit_nat_eq_self)

lemma adds_of_entries:
  assumes "distinct (map fe_name fes)" and "\<forall>fe \<in> set fes. M (fe_name fe) = None"
    and "\<forall>fe \<in> set fes. entry_of (te_of fe) = fe"
  shows "fold map_exec (map (FT_Add \<circ> te_of) fes) M n =
     (case find (\<lambda>fe. fe_name fe = n) fes of Some fe \<Rightarrow> Some fe | None \<Rightarrow> M n)"
  using assms
proof (induction fes arbitrary: M)
  case Nil
  then show ?case by simp
next
  case (Cons fe fes)
  have [simp]: "te_name (te_of fe) = fe_name fe" by (simp add: te_of_def)
  have "map_exec (FT_Add (te_of fe)) M = M(fe_name fe \<mapsto> fe)"
    using Cons.prems by (simp add: add_spec_def)
  moreover have "fold map_exec (map (FT_Add \<circ> te_of) fes) (M(fe_name fe \<mapsto> fe)) n =
     (case find (\<lambda>fe. fe_name fe = n) fes of Some fe \<Rightarrow> Some fe | None \<Rightarrow> (M(fe_name fe \<mapsto> fe)) n)"
  proof (rule Cons.IH)
    have "fe_name ge \<noteq> fe_name fe" if "ge \<in> set fes" for ge
      using that Cons.prems(1) by (metis distinct.simps(2) image_eqI list.set_map list.simps(9))
    with Cons.prems(2) show "\<forall>ge \<in> set fes. (M(fe_name fe \<mapsto> fe)) (fe_name ge) = None" by simp
  qed (use Cons.prems in simp_all)
  moreover have "find (\<lambda>ge. fe_name ge = fe_name fe) fes = None"
    using Cons.prems(1) by (force simp: find_None_iff image_iff)
  ultimately show ?case by (auto simp: comp_def split: option.split)
qed

lemma find_by_key:
  "distinct (map f xs) \<Longrightarrow> find (\<lambda>x. f x = n) xs = Some y \<longleftrightarrow> y \<in> set xs \<and> f y = n"
proof (induction xs)
  case Nil
  then show ?case by simp
next
  case (Cons x xs)
  then have "y \<in> set xs \<Longrightarrow> f y \<noteq> f x" by (auto simp: image_iff)
  with Cons show ?case by auto
qed

lemma ft_map_find:
  assumes inv: "ft_inv ft"
  shows "ft_map ft n = find (\<lambda>fe. fe_name fe = n) (map (entry_at ft) (bkt_all (file_htable ft)))"
    and "distinct (map (fe_name \<circ> entry_at ft) (bkt_all (file_htable ft)))"
proof -
  have at: "in_table ft p (entry_at ft p)" if "p \<in> set (bkt_all (file_htable ft))" for p
    using ft_inv_cell [OF inv that] by (auto simp: in_table_def entry_at_def)
  show dist: "distinct (map (fe_name \<circ> entry_at ft) (bkt_all (file_htable ft)))"
    using ft_inv_distinct [OF inv] ft_inv_unique [OF inv at at]
    by (auto simp: distinct_map intro!: inj_onI)
  let ?fes = "map (entry_at ft) (bkt_all (file_htable ft))"
  have "ft_map ft n = Some fe \<longleftrightarrow> fe \<in> set ?fes \<and> fe_name fe = n" for fe
    unfolding ft_map_iff [OF inv] using at by (force simp: in_table_def entry_at_def image_iff)
  moreover have "find (\<lambda>fe. fe_name fe = n) ?fes = Some fe \<longleftrightarrow> fe \<in> set ?fes \<and> fe_name fe = n" for fe
    by (rule find_by_key) (use dist in \<open>simp add: comp_def\<close>)
  ultimately show "ft_map ft n = find (\<lambda>fe. fe_name fe = n) ?fes"
    by (metis option.exhaust)
qed

text \<open>
  C23. A snapshot carries the whole table. \<open>trans_table_fill_from\<close> writes past its arrays exactly
  when the table has more than 4096 entries or an entry more than 16 owners; otherwise it
  yields one travelling entry per file, and adding these entries to an empty table rebuilds
  the same map (for entries whose type fits the 16-bit field).
\<close>

theorem snapshot_roundtrip:
  assumes inv: "ft_inv ft" and types: "\<forall>n fe. ft_map ft n = Some fe \<longrightarrow> unat (fe_type fe) < 2 ^ 16"
  shows "if length (bkt_all (file_htable ft)) \<le> MAX_FILE_ENTRIES \<and>
           (\<forall>n fe. ft_map ft n = Some fe \<longrightarrow> length (fe_owners fe) \<le> MAX_PEER_ENTRIES)
         then \<exists>t ft'. trans_table_fill_from ft = Inr t \<and>
                tft_n t = int (length (bkt_all (file_htable ft))) \<and>
                efold ft_exec (map FT_Add (tft_entries t)) ft_start = Inr ft' \<and>
                ft_map ft' = ft_map ft
         else trans_table_fill_from ft = Inl Out_Of_Bounds"
proof -
  let ?ps = "bkt_all (file_htable ft)" and ?fes = "map (entry_at ft) (bkt_all (file_htable ft))"
  have at: "in_table ft p (entry_at ft p) \<and> entry_ok (entry_at ft p)" if "p \<in> set ?ps" for p
    using ft_inv_cell [OF inv that] by (auto simp: in_table_def entry_at_def)
  have map: "(\<forall>n fe. ft_map ft n = Some fe \<longrightarrow> P fe) \<longleftrightarrow> (\<forall>p \<in> set ?ps. P (entry_at ft p))" for P
    unfolding ft_map_iff [OF inv] using at by (auto simp: in_table_def entry_at_def)
  note fill = trans_table_fill_from_spec [OF inv, unfolded Let_def]
  show ?thesis
  proof (cases "length ?ps \<le> MAX_FILE_ENTRIES \<and> (\<forall>p \<in> set ?ps. length (fe_owners (entry_at ft p)) \<le> MAX_PEER_ENTRIES)")
    case True
    let ?t = "\<lparr>tft_n = int (length ?ps), tft_entries = map te_of ?fes\<rparr>"
    have fits: "entry_ok fe \<and> te_fits fe" if "fe \<in> set ?fes" for fe
      using that True types at unfolding map by (auto simp: te_fits_def)
    have "\<forall>te \<in> set (map te_of ?fes). te_ok te" using fits te_of_ok by auto
    from fmp.run_refines [OF ft_start_rep run_pre_adds [OF this]] obtain ft' where
      ft': "efold ft_exec (map FT_Add (map te_of ?fes)) ft_start = Inr ft'"
        "ft_map ft' = fold map_exec (map FT_Add (map te_of ?fes)) (\<lambda>_. None)"
      by (auto simp: ft_rep_def)
    have "ft_map ft' n = ft_map ft n" for n
      using adds_of_entries [of ?fes "\<lambda>_. None" n] ft_map_find(1) [OF inv, of n] ft_map_find(2) [OF inv] fits entry_of_te_of
      by (auto simp: ft'(2) comp_def split: option.splits)
    then have "ft_map ft' = ft_map ft" by blast
    with True fill ft'(1) show ?thesis unfolding map by (auto simp: comp_def intro!: exI [of _ ?t])
  next
    case False
    with fill show ?thesis unfolding map by auto
  qed
qed

theorem snapshot_roundtrip_witness:
  "\<exists>ft t ft'. file_table_add ft_start (te_example ''1/a'' 5 1) = Inr (brk (ft_heap ft_start), ft) \<and>
     trans_table_fill_from ft = Inr t \<and> tft_n t = 1 \<and>
     efold ft_exec (map FT_Add (tft_entries t)) ft_start = Inr ft' \<and> ft_map ft' = ft_map ft"
proof -
  have rep: "ft_inv ft_start" "ft_callocs ft_start = []" "ft_map ft_start = (\<lambda>_. None)"
    using ft_start_rep by (simp_all add: ft_rep_def)
  have ok: "te_ok (te_example ''1/a'' 5 1)" by (rule te_example_ok) simp
  obtain ft where ft: "file_table_add ft_start (te_example ''1/a'' 5 1) = Inr (brk (ft_heap ft_start), ft)"
      "ft_inv ft" "ft_map ft = (ft_map ft_start)(''1/a'' \<mapsto> entry_of (te_example ''1/a'' 5 1))"
      "length (bkt_all (file_htable ft)) = Suc (length (bkt_all (file_htable ft_start)))"
    using file_table_add_new [OF rep(1) ok, of "[]"] rep(2,3) by auto
  have one: "length (bkt_all (file_htable ft)) = 1"
    using ft(4) by (simp add: ft_start_def file_table_init_def)
  have entry: "unat (fe_type fe) < 2 ^ 16 \<and> length (fe_owners fe) \<le> MAX_PEER_ENTRIES"
    if "ft_map ft n = Some fe" for n fe
    using that by (auto simp: ft(3) rep(3) entry_of_def owners_add_def te_example_type MAX_PEER_ENTRIES_def split: if_splits)
  with ft(2) snapshot_roundtrip [of ft] one ft(1) show ?thesis
    by (auto simp: MAX_FILE_ENTRIES_def)
qed

end
