(* ===== verification/Segment.thy ===== *)
theory Segment
  imports Prelude
begin

text \<open>
  The framing of \<open>utility/segment.c\<close>: a segment travels as two start bytes, the payload, and two
  end bytes; the receiver is a state machine that reads one byte at a time. There is no escaping,
  so a payload that contains the end bytes is cut there, and \<open>recv_segment\<close> does not look at its
  \<open>len\<close> argument, so a long segment is written behind the end of the buffer. The theory says
  exactly what is received for every payload, and states the contract of a framed channel that
  the packets are built on as a locale.
\<close>

section \<open>Sending\<close>

text \<open>One end of a TCP connection: the bytes handed to the network so far, and the answers the
  next calls of \<open>send\<close> will give: failure, or the number of bytes that were taken. When no
  answer is left, every call takes all its bytes.\<close>

datatype send_reply = Send_Error | Sent nat

record sock =
  wire_out :: "u8 list"
  send_replies :: "send_reply list"

definition sock_send :: "u8 list \<Rightarrow> sock \<Rightarrow> int \<times> sock" where
  "sock_send bs s =
     (case send_replies s of
        [] \<Rightarrow> (int (length bs), s\<lparr>wire_out := wire_out s @ bs\<rparr>)
      | Send_Error # rs \<Rightarrow> (-1, s\<lparr>send_replies := rs\<rparr>)
      | Sent n # rs \<Rightarrow>
          (int (min n (length bs)), s\<lparr>wire_out := wire_out s @ take n bs, send_replies := rs\<rparr>))"

abbreviation c_bang :: u8 where "c_bang \<equiv> 0x21"
abbreviation c_amp :: u8 where "c_amp \<equiv> 0x26"
abbreviation c_hash :: u8 where "c_hash \<equiv> 0x23"

definition start_buf :: "u8 list" where
  "start_buf = [c_bang, c_amp]"

definition end_buf :: "u8 list" where
  "end_buf = [c_bang, c_hash]"

definition send_segment :: "u8 list \<Rightarrow> sock \<Rightarrow> int \<times> sock" where
  "send_segment buf s =
     (let (r, s) = sock_send start_buf s in
      if r < 0 then (-1, s)
      else let (r, s) = sock_send buf s in
      if r < 0 then (-1, s)
      else let (r, s) = sock_send end_buf s in
      if r < 0 then (-1, s)
      else (int (length buf + length start_buf + length end_buf), s))"

section \<open>Receiving\<close>

text \<open>\<open>buf[idx] = c; idx++\<close>, where \<open>buf\<close> has room for \<open>cap\<close> bytes and holds \<open>idx\<close> of them.\<close>

definition buf_put :: "nat \<Rightarrow> u8 \<Rightarrow> u8 list \<Rightarrow> u8 list res" where
  "buf_put cap c buf = (if length buf < cap then Inr (buf @ [c]) else Inl Out_Of_Bounds)"

text \<open>
  The loop of \<open>recv_segment\<close>, with the state, the bytes stored and the bytes that are still to
  come before \<open>recv\<close> fails or the connection is closed. The result is the value returned, the
  bytes stored in the buffer and the bytes that are left to read.
\<close>

fun recv_loop :: "nat \<Rightarrow> nat \<Rightarrow> u8 list \<Rightarrow> u8 list \<Rightarrow> (int \<times> u8 list \<times> u8 list) res" where
  "recv_loop cap state buf [] = Inr (-1, buf, [])"
| "recv_loop cap state buf (c # cs) =
     (if state = 0 then recv_loop cap (if c = c_bang then 1 else state) buf cs
      else if state = 1 then recv_loop cap (if c = c_amp then 2 else 0) buf cs
      else if state = 2 then
        (if c = c_bang then ebind (buf_put cap c buf) (\<lambda>buf. recv_loop cap 3 buf cs)
         else ebind (buf_put cap c buf) (\<lambda>buf. recv_loop cap state buf cs))
      else if state = 3 then
        (if c = c_hash then ebind (buf_put cap c buf) (\<lambda>buf. Inr (int (length buf), buf, cs))
         else if c = c_bang then ebind (buf_put cap c buf) (\<lambda>buf. recv_loop cap state buf cs)
         else ebind (buf_put cap c buf) (\<lambda>buf. recv_loop cap 2 buf cs))
      else recv_loop cap state buf cs)"

definition recv_segment :: "nat \<Rightarrow> u8 list \<Rightarrow> (int \<times> u8 list \<times> u8 list) res" where
  "recv_segment cap input = recv_loop cap 0 [] input"

section \<open>What is on the wire\<close>

definition frame :: "u8 list \<Rightarrow> u8 list" where
  "frame p = start_buf @ p @ end_buf"

text \<open>The bytes before and behind the first end mark of a payload.\<close>

fun split_mark :: "u8 list \<Rightarrow> (u8 list \<times> u8 list) option" where
  "split_mark (a # b # cs) =
     (if a = c_bang \<and> b = c_hash then Some ([], cs)
      else map_option (\<lambda>(x, y). (a # x, y)) (split_mark (b # cs)))"
| "split_mark _ = None"

definition has_mark :: "u8 list \<Rightarrow> bool" where
  "has_mark p \<longleftrightarrow> split_mark p \<noteq> None"

lemma split_mark_Some: "split_mark p = Some (x, y) \<Longrightarrow> p = x @ end_buf @ y"
  by (induction p arbitrary: x rule: split_mark.induct) (auto simp: end_buf_def split: if_splits)

lemma split_mark_prefix: "split_mark p = Some (x, y) \<Longrightarrow> split_mark x = None"
proof (induction p arbitrary: x rule: split_mark.induct)
  case (1 a b cs)
  show ?case
  proof (cases "a = c_bang \<and> b = c_hash")
    case True
    with 1(2) show ?thesis by simp
  next
    case False
    with 1(2) obtain x' where x': "split_mark (b # cs) = Some (x', y)" "x = a # x'" by auto
    from 1(1) [OF False x'(1)] have "split_mark x' = None" .
    moreover have "x' = b # tl x'" if "x' \<noteq> []"
      using split_mark_Some [OF x'(1)] that by (cases x') auto
    ultimately show ?thesis using x'(2) False by (cases x') auto
  qed
qed simp_all

lemma split_mark_Cons:
  "split_mark (a # p) = None \<longleftrightarrow> split_mark p = None \<and> \<not> (a = c_bang \<and> p \<noteq> [] \<and> hd p = c_hash)"
  by (cases p) auto

lemma recv_body:
  assumes "split_mark p = None"
  shows "recv_loop cap 2 buf (p @ end_buf @ rest) =
      (if length buf + length p + 2 \<le> cap
       then Inr (int (length buf + length p) + 2, buf @ p @ end_buf, rest) else Inl Out_Of_Bounds)"
    and "p = [] \<or> hd p \<noteq> c_hash \<Longrightarrow> recv_loop cap 3 buf (p @ end_buf @ rest) =
      (if length buf + length p + 2 \<le> cap
       then Inr (int (length buf + length p) + 2, buf @ p @ end_buf, rest) else Inl Out_Of_Bounds)"
  using assms
proof (induction p arbitrary: buf)
  case Nil
  { case 1 show ?case by (simp add: end_buf_def buf_put_def) }
  { case 2 show ?case by (simp add: end_buf_def buf_put_def) }
next
  case (Cons a p)
  { case 1
    then have p: "split_mark p = None" "a = c_bang \<Longrightarrow> p = [] \<or> hd p \<noteq> c_hash"
      by (auto simp: split_mark_Cons)
    show ?case using Cons.IH(1) [OF p(1)] Cons.IH(2) [OF p(2) p(1)] by (auto simp: buf_put_def) }
  { case 2
    then have p: "split_mark p = None" "a = c_bang \<Longrightarrow> p = [] \<or> hd p \<noteq> c_hash" "a \<noteq> c_hash"
      by (auto simp: split_mark_Cons)
    show ?case using Cons.IH(1) [OF p(1)] Cons.IH(2) [OF p(2) p(1)] p(3) by (auto simp: buf_put_def) }
qed

text \<open>A segment that was received has used up some of the input.\<close>

lemma recv_loop_shorter:
  "recv_loop cap state buf cs = Inr (r, b, rest) \<Longrightarrow> 0 < r \<Longrightarrow> length rest < length cs"
proof (induction cap state buf cs rule: recv_loop.induct)
  case (1 cap state buf)
  then show ?case by simp
next
  case (2 cap state buf c cs)
  then show ?case
    by (auto simp: buf_put_def ebind_eq_Inr less_Suc_eq split: if_splits)
qed

lemma recv_segment_shorter: "recv_segment cap cs = Inr (r, b, rest) \<Longrightarrow> 0 < r \<Longrightarrow> length rest < length cs"
  by (simp add: recv_segment_def recv_loop_shorter)

lemma recv_start: "recv_segment cap (start_buf @ xs) = recv_loop cap 2 [] xs"
  by (simp add: recv_segment_def start_buf_def)

lemma recv_frame:
  "\<not> has_mark p \<Longrightarrow> length p + 2 \<le> cap \<Longrightarrow>
   recv_segment cap (frame p @ rest) = Inr (int (length p) + 2, p @ end_buf, rest)"
  using recv_body(1) [of p cap "[]" rest]
  by (simp add: frame_def recv_start has_mark_def del: not_None_eq)

lemma send_segment_complete:
  "send_replies s = [] \<Longrightarrow>
   send_segment p s = (int (length p) + 4, s\<lparr>wire_out := wire_out s @ frame p\<rparr>)"
  by (simp add: send_segment_def sock_send_def frame_def start_buf_def end_buf_def)

section \<open>Channels of frames\<close>

text \<open>
  What a layer above relies on: whatever follows an encoded unit, decoding gives the unit back and
  leaves exactly what follows. Then a whole sequence of units is read back in order.
\<close>

fun read_many :: "(u8 list \<Rightarrow> ('p \<times> u8 list) option) \<Rightarrow> nat \<Rightarrow> u8 list \<Rightarrow> 'p list \<times> u8 list" where
  "read_many dec 0 xs = ([], xs)"
| "read_many dec (Suc k) xs =
     (case dec xs of None \<Rightarrow> ([], xs)
      | Some (p, ys) \<Rightarrow> (let (ps, zs) = read_many dec k ys in (p # ps, zs)))"

locale framed_channel =
  fixes enc :: "'p \<Rightarrow> u8 list" and dec :: "u8 list \<Rightarrow> ('p \<times> u8 list) option" and ok :: "'p \<Rightarrow> bool"
  assumes dec_enc: "ok p \<Longrightarrow> dec (enc p @ rest) = Some (p, rest)"
begin

lemma read_many_enc:
  "\<forall>p \<in> set ps. ok p \<Longrightarrow> read_many dec (length ps) (concat (map enc ps) @ rest) = (ps, rest)"
  by (induction ps) (simp_all add: dec_enc)

lemma enc_inject:
  assumes "ok p" and "ok q" and "enc p @ xs = enc q @ ys"
  shows "p = q \<and> xs = ys"
proof -
  from dec_enc [OF assms(1), of xs] have "dec (enc q @ ys) = Some (p, xs)" by (simp add: assms(3))
  with dec_enc [OF assms(2), of ys] show ?thesis by simp
qed

end

text \<open>Segments as such a channel: the payload is what was stored less the two end bytes.\<close>

definition seg_ok :: "nat \<Rightarrow> u8 list \<Rightarrow> bool" where
  "seg_ok cap p \<longleftrightarrow> \<not> has_mark p \<and> length p + 2 \<le> cap"

definition seg_read :: "nat \<Rightarrow> u8 list \<Rightarrow> (u8 list \<times> u8 list) option" where
  "seg_read cap xs =
     (case recv_segment cap xs of
        Inl e \<Rightarrow> None
      | Inr (r, buf, rest) \<Rightarrow> if r < 0 then None else Some (take (nat r - 2) buf, rest))"

interpretation sgm: framed_channel frame "seg_read cap" "seg_ok cap"
  by unfold_locales (auto simp: seg_read_def seg_ok_def recv_frame)

section \<open>Resynchronisation\<close>

lemma recv_skip:
  "c_bang \<notin> set junk \<Longrightarrow> recv_loop cap 0 buf (junk @ xs) = recv_loop cap 0 buf xs"
  by (induction junk) auto

lemma recv_skip_tail:
  "c_bang \<notin> set junk \<Longrightarrow> recv_segment cap (junk @ end_buf @ xs) = recv_segment cap xs"
  by (simp add: recv_segment_def recv_skip end_buf_def)

section \<open>Properties\<close>

text \<open>
  C32. What \<open>recv_segment\<close> makes of a segment, for every payload, every buffer size and everything
  that follows on the connection: the payload up to its first end mark, together with the mark;
  a write behind the end of the buffer exactly when that does not fit. So the payload arrives
  unchanged if and only if it contains no end mark and fits.
\<close>

theorem segment_received:
  "recv_segment cap (frame p @ rest) =
     (let (x, y) = (case split_mark p of None \<Rightarrow> (p, rest) | Some (x, y) \<Rightarrow> (x, y @ end_buf @ rest))
      in if length x + 2 \<le> cap then Inr (int (length x) + 2, x @ end_buf, y) else Inl Out_Of_Bounds)"
proof (cases "split_mark p")
  case None
  with recv_body(1) [of p cap "[]" rest] show ?thesis by (simp add: frame_def recv_start)
next
  case (Some xy)
  then obtain x y where xy: "split_mark p = Some (x, y)" by (cases xy) auto
  have "recv_segment cap (frame p @ rest) = recv_loop cap 2 [] (x @ end_buf @ (y @ end_buf @ rest))"
    by (simp add: frame_def recv_start split_mark_Some [OF xy])
  with recv_body(1) [OF split_mark_prefix [OF xy], of cap "[]" "y @ end_buf @ rest"] xy
  show ?thesis by simp
qed

text \<open>
  C22. A sequence of segments, each without an end mark and within the buffer, is received
  in order and unchanged, and nothing behind it is consumed.
\<close>

theorem segments_received_in_order:
  assumes "\<forall>p \<in> set ps. \<not> has_mark p \<and> length p + 2 \<le> cap"
  shows "read_many (seg_read cap) (length ps) (concat (map frame ps) @ rest) = (ps, rest)"
  by (rule sgm.read_many_enc) (use assms in \<open>simp add: seg_ok_def\<close>)

theorem segments_received_in_order_witness:
  "read_many (seg_read 8) (length [[1 :: u8, 0x21, 2], [0x23, 0x21]]) (concat (map frame [[1, 0x21, 2], [0x23, 0x21]]) @ [7]) =
     ([[1, 0x21, 2], [0x23, 0x21]], [7])"
  using segments_received_in_order [of "[[1, 0x21, 2], [0x23, 0x21]]" 8 "[7]"]
  by (simp add: has_mark_def del: read_many.simps)

text \<open>
  After a payload that contained the end mark the receiver finds the next segment again,
  provided the part behind the mark holds no exclamation mark: the first call returns the cut
  payload, the second one skips the rest of it and returns the next payload whole.
\<close>

lemma cut_segment_resync:
  assumes "split_mark p = Some (x, y)" and "c_bang \<notin> set y" and "length x + 2 \<le> cap"
    and "\<not> has_mark q" and "length q + 2 \<le> cap"
  shows "\<exists>input. recv_segment cap (frame p @ frame q @ rest) = Inr (int (length x) + 2, x @ end_buf, input) \<and>
     recv_segment cap input = Inr (int (length q) + 2, q @ end_buf, rest)"
proof -
  have "recv_segment cap (frame p @ frame q @ rest) =
      Inr (int (length x) + 2, x @ end_buf, y @ end_buf @ frame q @ rest)"
    using recv_body(1) [OF split_mark_prefix [OF assms(1)], of cap "[]" "y @ end_buf @ frame q @ rest"] assms(3)
    unfolding frame_def [of p] append_assoc recv_start by (simp add: split_mark_Some [OF assms(1)])
  with recv_frame [OF assms(4,5), of rest] show ?thesis by (simp add: recv_skip_tail assms(2))
qed

text \<open>Which of the three calls of \<open>send\<close> took all its bytes.\<close>

fun took_all :: "send_reply list \<Rightarrow> u8 list list \<Rightarrow> bool" where
  "took_all (Sent n # rs) (b # bs) \<longleftrightarrow> length b \<le> n \<and> took_all rs bs"
| "took_all (Send_Error # rs) (b # bs) \<longleftrightarrow> False"
| "took_all _ _ \<longleftrightarrow> True"

fun sent_bytes :: "send_reply list \<Rightarrow> u8 list list \<Rightarrow> u8 list" where
  "sent_bytes (Sent n # rs) (b # bs) = take n b @ sent_bytes rs bs"
| "sent_bytes (Send_Error # rs) (b # bs) = []"
| "sent_bytes [] (b # bs) = b @ sent_bytes [] bs"
| "sent_bytes rs [] = []"

lemma sent_bytes_length: "length (sent_bytes rs bs) \<le> length (concat bs)"
  by (induction rs bs rule: sent_bytes.induct) auto

lemma sent_bytes_all:
  "sent_bytes rs bs = concat bs \<and> Send_Error \<notin> set (take (length bs) rs) \<longleftrightarrow> took_all rs bs"
proof (induction rs bs rule: sent_bytes.induct)
  case (1 n rs b bs)
  show ?case
  proof (cases "length b \<le> n")
    case True
    with 1 show ?thesis by auto
  next
    case False
    then have "length (take n b @ sent_bytes rs bs) < length (b @ concat bs)"
      using sent_bytes_length [of rs bs] by auto
    then have "take n b @ sent_bytes rs bs \<noteq> b @ concat bs" by (metis less_irrefl)
    with False show ?thesis by simp
  qed
qed auto

text \<open>
  \<open>send_segment\<close> returns -1 exactly when one of its three calls of \<open>send\<close> fails, and the
  length of the segment otherwise. The bytes on the wire are what the calls took: without a
  failure they are the whole segment if and only if no call was short, which the value returned
  does not show.
\<close>

lemma send_segment_result:
  "case send_segment p s of (r, s') \<Rightarrow>
     wire_out s' = wire_out s @ sent_bytes (send_replies s) [start_buf, p, end_buf] \<and>
     (if Send_Error \<in> set (take 3 (send_replies s)) then r = -1
      else r = int (length p) + 4 \<and> send_replies s' = drop 3 (send_replies s) \<and>
           (wire_out s' = wire_out s @ frame p \<longleftrightarrow> took_all (send_replies s) [start_buf, p, end_buf]))"
proof -
  let ?bs = "[start_buf, p, end_buf]"
  have all: "Send_Error \<notin> set (take 3 (send_replies s)) \<Longrightarrow>
      sent_bytes (send_replies s) ?bs = frame p \<longleftrightarrow> took_all (send_replies s) ?bs"
    using sent_bytes_all [of "send_replies s" ?bs] by (simp add: frame_def eval_nat_numeral)
  consider "send_replies s = []" | r1 where "send_replies s = [r1]" | r1 r2 where "send_replies s = [r1, r2]"
    | r1 r2 r3 rs where "send_replies s = r1 # r2 # r3 # rs"
    by (metis list.exhaust)
  then have "case send_segment p s of (r, s') \<Rightarrow>
     wire_out s' = wire_out s @ sent_bytes (send_replies s) ?bs \<and>
     (if Send_Error \<in> set (take 3 (send_replies s)) then r = -1
      else r = int (length p) + 4 \<and> send_replies s' = drop 3 (send_replies s))"
    by cases (auto simp: send_segment_def sock_send_def start_buf_def end_buf_def split: send_reply.splits)
  with all show ?thesis by (auto split: if_splits)
qed

end
