(* ===== verification/Wire.thy ===== *)
theory Wire
  imports FileTable Segment
begin

unbundle bit_operations_syntax

text \<open>
  The packets of \<open>include/packet_def.h\<close> and \<open>client/packet.h\<close> as bytes. The programs send the
  memory of their structs, so the layout is the one of the compiler: LP64, little endian, natural
  alignment, padding bytes zero. The functions of \<open>client/packet.c\<close> and \<open>server/packet.c\<close> fill,
  send and receive these structs. The lemmas show which part of a packet and of a file table
  survives the way over a connection.
\<close>

section \<open>Bytes of integers and slices of memory\<close>

fun put_le :: "nat \<Rightarrow> 'a::len word \<Rightarrow> u8 list" where
  "put_le 0 w = []"
| "put_le (Suc k) w = ucast w # put_le k (drop_bit 8 w)"

fun get_le :: "u8 list \<Rightarrow> 'a::len word" where
  "get_le [] = 0"
| "get_le (b # bs) = ucast b OR push_bit 8 (get_le bs)"

text \<open>\<open>len\<close> bytes from offset \<open>off\<close> of an object whose bytes behind the list are zero.\<close>

definition field :: "nat \<Rightarrow> nat \<Rightarrow> u8 list \<Rightarrow> u8 list" where
  "field off len bs = take len (drop off bs @ replicate len 0)"

definition pad :: "nat \<Rightarrow> u8 list" where
  "pad k = replicate k 0"

text \<open>A \<open>char\<close> array of 128 elements that holds a string.\<close>

definition byte_of_char :: "char \<Rightarrow> u8" where
  "byte_of_char c = of_nat (of_char c)"

definition name_bytes :: "string \<Rightarrow> u8 list" where
  "name_bytes s = take MAX_NAME_LEN (map byte_of_char s @ replicate MAX_NAME_LEN 0)"

definition name_of_bytes :: "u8 list \<Rightarrow> string" where
  "name_of_bytes bs = map (\<lambda>b. char_of (unat b)) (takeWhile (\<lambda>b. b \<noteq> 0) bs)"

section \<open>The file table in memory\<close>

definition peer_id_bytes :: "peer_id \<Rightarrow> u8 list" where
  "peer_id_bytes p = put_le 4 (pid_ip p) @ put_le 2 (pid_port p) @ pad 2"

definition peer_id_of_bytes :: "u8 list \<Rightarrow> peer_id" where
  "peer_id_of_bytes bs = \<lparr>pid_ip = get_le (field 0 4 bs), pid_port = get_le (field 4 2 bs)\<rparr>"

text \<open>\<open>struct trans_file_entry\<close>: 272 bytes, the owners from offset 144.\<close>

definition entry_bytes :: "trans_file_entry \<Rightarrow> u8 list" where
  "entry_bytes te = name_bytes (te_name te) @ put_le 8 (te_timestamp te) @ put_le 2 (te_op_type te) @
     put_le 2 (te_file_type te) @ put_le 2 (te_owner_n te) @ pad 2 @
     concat (map peer_id_bytes (te_owners te))"

definition entry_of_bytes :: "u8 list \<Rightarrow> trans_file_entry" where
  "entry_of_bytes bs = \<lparr>te_name = name_of_bytes (field 0 128 bs), te_timestamp = get_le (field 128 8 bs),
     te_op_type = get_le (field 136 2 bs), te_file_type = get_le (field 138 2 bs),
     te_owner_n = get_le (field 140 2 bs),
     te_owners = map (\<lambda>i. peer_id_of_bytes (field (144 + 8 * i) 8 bs)) [0..<MAX_PEER_ENTRIES]\<rparr>"

text \<open>\<open>struct trans_file_table\<close>: the entries are aligned to 8 bytes, so four bytes of padding
  follow \<open>n\<close>.\<close>

definition table_bytes :: "trans_file_table \<Rightarrow> u8 list" where
  "table_bytes t = put_le 4 (word_of_int (tft_n t) :: u32) @ pad 4 @ concat (map entry_bytes (tft_entries t))"

definition table_of_bytes :: "u8 list \<Rightarrow> trans_file_table" where
  "table_of_bytes bs = \<lparr>tft_n = sint (get_le (field 0 4 bs) :: u32),
     tft_entries = map (\<lambda>i. entry_of_bytes (field (8 + 272 * i) 272 bs))
       [0..<min MAX_FILE_ENTRIES ((length bs - 8 + 271) div 272)]\<rparr>"

text \<open>The macro \<open>trans_table_len\<close>: it counts the four bytes of \<open>n\<close>, but not the padding.\<close>

definition trans_table_len :: "trans_file_table \<Rightarrow> u64" where
  "trans_table_len t = 4 + word_of_int (tft_n t) * 272"

section \<open>Packets\<close>

definition MAX_PKT_DATA_LEN :: nat where
  "MAX_PKT_DATA_LEN = 2 * 2 ^ 15"

definition P2P_PORT :: u16 where
  "P2P_PORT = 4192"

definition PEER_REGISTER :: u16 where "PEER_REGISTER = 0"
definition PEER_KEEP_ALIVE :: u16 where "PEER_KEEP_ALIVE = 1"
definition PEER_FILE_UPDATE :: u16 where "PEER_FILE_UPDATE = 2"
definition PEER_SYNC :: u16 where "PEER_SYNC = 3"

definition TRACKER_ACCEPT :: u16 where "TRACKER_ACCEPT = 0"
definition TRACKER_BROADCAST :: u16 where "TRACKER_BROADCAST = 1"
definition TRACKER_SYNC :: u16 where "TRACKER_SYNC = 2"
definition TRACKER_CLOSE :: u16 where "TRACKER_CLOSE = 3"

lemmas ptot_type_defs = PEER_REGISTER_def PEER_KEEP_ALIVE_def PEER_FILE_UPDATE_def PEER_SYNC_def
lemmas ttop_type_defs = TRACKER_ACCEPT_def TRACKER_BROADCAST_def TRACKER_SYNC_def TRACKER_CLOSE_def

text \<open>The \<open>data\<close> arrays have 65536 elements; the lists are prefixes of them, the elements behind
  are zero.\<close>

record ptot_packet_header =
  ph_protocol_name :: string
  ph_type :: u16
  ph_ip :: u32
  ph_port :: u16
  ph_data_len :: u16

record ptot_packet =
  ptot_hdr :: ptot_packet_header
  ptot_data :: "u8 list"

record ttop_packet_header =
  th_type :: u16
  th_data_len :: u16

record ttop_packet =
  ttop_hdr :: ttop_packet_header
  ttop_data :: "u8 list"

record p2p_packet =
  pp_type :: u16
  pp_data_len :: u16
  pp_data :: "u8 list"

record ttop_control_info =
  ci_interval :: int
  ci_piece_len :: int

definition control_bytes :: "ttop_control_info \<Rightarrow> u8 list" where
  "control_bytes c = put_le 4 (word_of_int (ci_interval c) :: u32) @ put_le 4 (word_of_int (ci_piece_len c) :: u32)"

definition control_of_bytes :: "u8 list \<Rightarrow> ttop_control_info" where
  "control_of_bytes bs = \<lparr>ci_interval = sint (get_le (field 0 4 bs) :: u32),
     ci_piece_len = sint (get_le (field 4 4 bs) :: u32)\<rparr>"

text \<open>\<open>struct ptot_packet_header\<close>: 140 bytes with the type at 128, the address at 132, the port at
  136 and the length at 138. The other two headers are the two 16-bit fields.\<close>

definition ptot_hdr_bytes :: "ptot_packet_header \<Rightarrow> u8 list" where
  "ptot_hdr_bytes h = name_bytes (ph_protocol_name h) @ put_le 2 (ph_type h) @ pad 2 @ put_le 4 (ph_ip h) @
     put_le 2 (ph_port h) @ put_le 2 (ph_data_len h)"

definition ptot_hdr_of_bytes :: "u8 list \<Rightarrow> ptot_packet_header" where
  "ptot_hdr_of_bytes bs = \<lparr>ph_protocol_name = name_of_bytes (field 0 128 bs), ph_type = get_le (field 128 2 bs),
     ph_ip = get_le (field 132 4 bs), ph_port = get_le (field 136 2 bs), ph_data_len = get_le (field 138 2 bs)\<rparr>"

definition ttop_hdr_bytes :: "ttop_packet_header \<Rightarrow> u8 list" where
  "ttop_hdr_bytes h = put_le 2 (th_type h) @ put_le 2 (th_data_len h)"

definition ttop_hdr_of_bytes :: "u8 list \<Rightarrow> ttop_packet_header" where
  "ttop_hdr_of_bytes bs = \<lparr>th_type = get_le (field 0 2 bs), th_data_len = get_le (field 2 2 bs)\<rparr>"

text \<open>The sizes of the structs, and what the \<open>..._packet_len\<close> macros add up to.\<close>

definition ptot_packet_len :: "ptot_packet \<Rightarrow> nat" where
  "ptot_packet_len pkt = 140 + unat (ph_data_len (ptot_hdr pkt))"

definition ttop_packet_len :: "ttop_packet \<Rightarrow> nat" where
  "ttop_packet_len pkt = 4 + unat (th_data_len (ttop_hdr pkt))"

definition p2p_packet_len :: "p2p_packet \<Rightarrow> nat" where
  "p2p_packet_len pkt = 2 + 2 + unat (pp_data_len pkt)"

definition sizeof_ptot_packet :: nat where
  "sizeof_ptot_packet = 140 + MAX_PKT_DATA_LEN"

definition sizeof_ttop_packet :: nat where
  "sizeof_ttop_packet = 4 + MAX_PKT_DATA_LEN"

definition sizeof_p2p_packet :: nat where
  "sizeof_p2p_packet = 4 + MAX_PKT_DATA_LEN"

section \<open>Filling packets\<close>

definition ptot_packet_init :: "u32 \<Rightarrow> u16 \<Rightarrow> ptot_packet" where
  "ptot_packet_init my_ip type =
     \<lparr>ptot_hdr = \<lparr>ph_protocol_name = [], ph_type = type, ph_ip = my_ip, ph_port = P2P_PORT, ph_data_len = 0\<rparr>,
      ptot_data = []\<rparr>"

text \<open>\<open>memcpy (data, buf, len)\<close> into a \<open>data\<close> array: a length beyond the array (or a negative one,
  which is a huge \<open>size_t\<close>) writes out of bounds. \<open>buf\<close> holds the bytes of the source object, and
  zeros behind them.\<close>

definition data_copy :: "u8 list \<Rightarrow> int \<Rightarrow> u8 list \<Rightarrow> u8 list res" where
  "data_copy buf len data =
     (if 0 \<le> len \<and> len \<le> int MAX_PKT_DATA_LEN then Inr (field 0 (nat len) buf @ drop (nat len) data)
      else Inl Out_Of_Bounds)"

definition ptot_packet_fill :: "ptot_packet \<Rightarrow> u8 list \<Rightarrow> int \<Rightarrow> ptot_packet res" where
  "ptot_packet_fill pkt buf len =
     ebind (data_copy buf len (ptot_data pkt)) (\<lambda>data.
       Inr (pkt\<lparr>ptot_data := data, ptot_hdr := (ptot_hdr pkt)\<lparr>ph_data_len := word_of_int len\<rparr>\<rparr>))"

definition p2p_packet_init :: "u16 \<Rightarrow> p2p_packet" where
  "p2p_packet_init type = \<lparr>pp_type = type, pp_data_len = 0, pp_data = []\<rparr>"

definition p2p_packet_fill :: "p2p_packet \<Rightarrow> u8 list \<Rightarrow> int \<Rightarrow> p2p_packet res" where
  "p2p_packet_fill pkt buf len =
     ebind (data_copy buf len (pp_data pkt)) (\<lambda>data.
       Inr (pkt\<lparr>pp_data_len := word_of_int len, pp_data := data\<rparr>))"

section \<open>Sending and receiving packets\<close>

text \<open>The bytes of the struct, and the struct of bytes.\<close>

definition ptot_bytes :: "ptot_packet \<Rightarrow> u8 list" where
  "ptot_bytes pkt = ptot_hdr_bytes (ptot_hdr pkt) @ ptot_data pkt"

definition ptot_of_bytes :: "u8 list \<Rightarrow> ptot_packet" where
  "ptot_of_bytes bs = \<lparr>ptot_hdr = ptot_hdr_of_bytes bs, ptot_data = drop 140 bs\<rparr>"

definition ttop_bytes :: "ttop_packet \<Rightarrow> u8 list" where
  "ttop_bytes pkt = ttop_hdr_bytes (ttop_hdr pkt) @ ttop_data pkt"

definition ttop_of_bytes :: "u8 list \<Rightarrow> ttop_packet" where
  "ttop_of_bytes bs = \<lparr>ttop_hdr = ttop_hdr_of_bytes bs, ttop_data = drop 4 bs\<rparr>"

definition p2p_bytes :: "p2p_packet \<Rightarrow> u8 list" where
  "p2p_bytes pkt = put_le 2 (pp_type pkt) @ put_le 2 (pp_data_len pkt) @ pp_data pkt"

definition p2p_of_bytes :: "u8 list \<Rightarrow> p2p_packet" where
  "p2p_of_bytes bs = \<lparr>pp_type = get_le (field 0 2 bs), pp_data_len = get_le (field 2 2 bs), pp_data = drop 4 bs\<rparr>"

definition send_ptot_packet :: "ptot_packet \<Rightarrow> sock \<Rightarrow> int \<times> sock" where
  "send_ptot_packet pkt s = send_segment (field 0 (ptot_packet_len pkt) (ptot_bytes pkt)) s"

definition send_ttop_packet :: "ttop_packet \<Rightarrow> sock \<Rightarrow> int \<times> sock" where
  "send_ttop_packet pkt s = send_segment (field 0 (ttop_packet_len pkt) (ttop_bytes pkt)) s"

definition send_p2p_packet :: "p2p_packet \<Rightarrow> sock \<Rightarrow> int \<times> sock" where
  "send_p2p_packet pkt s = send_segment (field 0 (p2p_packet_len pkt) (p2p_bytes pkt)) s"

text \<open>The buffer of the receiving functions is two bytes larger than the struct, which takes the
  end bytes; the packet is not touched when \<open>recv_segment\<close> fails.\<close>

definition recv_ptot_packet :: "u8 list \<Rightarrow> ptot_packet \<Rightarrow> (int \<times> ptot_packet \<times> u8 list) res" where
  "recv_ptot_packet input pkt =
     ebind (recv_segment (sizeof_ptot_packet + 2) input) (\<lambda>(ret, buf, rest).
       if ret < 0 then Inr (-1, pkt, rest)
       else Inr (ret, ptot_of_bytes (take sizeof_ptot_packet buf), rest))"

definition recv_ttop_packet :: "u8 list \<Rightarrow> ttop_packet \<Rightarrow> (int \<times> ttop_packet \<times> u8 list) res" where
  "recv_ttop_packet input pkt =
     ebind (recv_segment (sizeof_ttop_packet + 2) input) (\<lambda>(ret, buf, rest).
       if ret < 0 then Inr (-1, pkt, rest)
       else Inr (ret, ttop_of_bytes (take sizeof_ttop_packet buf), rest))"

definition recv_p2p_packet :: "u8 list \<Rightarrow> p2p_packet \<Rightarrow> (int \<times> p2p_packet \<times> u8 list) res" where
  "recv_p2p_packet input pkt =
     ebind (recv_segment (sizeof_p2p_packet + 2) input) (\<lambda>(ret, buf, rest).
       if ret < 0 then Inr (-1, pkt, rest)
       else Inr (ret, p2p_of_bytes (take sizeof_ttop_packet buf), rest))"

section \<open>Lemmas on bytes\<close>

lemma length_put_le [simp]: "length (put_le k w) = k"
  by (induction k arbitrary: w) auto

lemma get_put_le: "get_le (put_le k w) = take_bit (8 * k) w"
proof (induction k arbitrary: w)
  case 0
  then show ?case by simp
next
  case (Suc k)
  show ?case unfolding put_le.simps get_le.simps Suc
    by (rule bit_word_eqI) (auto simp: bit_simps)
qed

lemma get_put_le_id:
  fixes w :: "'a::len word"
  assumes "LENGTH('a) \<le> 8 * k"
  shows "get_le (put_le k w) = w"
  using assms by (simp add: get_put_le take_bit_word_eq_self)

lemma get_put_simps [simp]:
  "get_le (put_le 2 (w :: u16)) = w"
  "get_le (put_le 4 (v :: u32)) = v"
  "get_le (put_le 8 (u :: u64)) = u"
  by (simp_all add: get_put_le_id)

lemma length_field [simp]: "length (field off len bs) = len"
  by (simp add: field_def)

lemma field_prefix: "length xs = len \<Longrightarrow> field 0 len (xs @ ys) = xs"
  by (simp add: field_def)

lemma field_skip: "length xs \<le> off \<Longrightarrow> field off len (xs @ ys) = field (off - length xs) len ys"
  by (simp add: field_def)

lemma field_all: "length xs = len \<Longrightarrow> field 0 len xs = xs"
  by (simp add: field_def)

lemma field_take: "off + len \<le> n \<Longrightarrow> field off len (take n bs) = field off len bs"
  by (simp add: field_def drop_take min_def)

lemma length_name_bytes [simp]: "length (name_bytes s) = 128"
  by (simp add: name_bytes_def MAX_NAME_LEN_def)

lemma char_of_byte [simp]: "char_of (unat (byte_of_char c)) = c"
  by (simp add: byte_of_char_def unat_of_nat)

lemma byte_of_char_zero: "byte_of_char c = 0 \<longleftrightarrow> c = CHR 0x00"
proof
  assume "byte_of_char c = 0"
  then have "c = char_of (unat (0 :: u8))" by (metis char_of_byte)
  then show "c = CHR 0x00" by (simp add: char_of_def)
qed (simp add: byte_of_char_def)

lemma name_roundtrip:
  assumes "length s < MAX_NAME_LEN" and "CHR 0x00 \<notin> set s"
  shows "name_of_bytes (name_bytes s) = s"
proof -
  have "name_bytes s = map byte_of_char s @ 0 # replicate (MAX_NAME_LEN - Suc (length s)) 0"
    using assms(1) by (simp add: name_bytes_def Suc_diff_Suc flip: replicate_Suc)
  moreover have "takeWhile (\<lambda>b. b \<noteq> 0) (map byte_of_char s @ 0 # ys) = map byte_of_char s" for ys
    using assms(2) by (subst takeWhile_append2) (auto simp: byte_of_char_zero)
  ultimately show ?thesis by (simp add: name_of_bytes_def comp_def)
qed

lemma length_pad [simp]: "length (pad k) = k"
  by (simp add: pad_def)

lemmas field_defs = field_prefix field_skip field_all

section \<open>Round trips of the structs\<close>

lemma length_peer_id_bytes [simp]: "length (peer_id_bytes p) = 8"
  by (simp add: peer_id_bytes_def)

lemma peer_id_roundtrip [simp]: "peer_id_of_bytes (peer_id_bytes p) = p"
  by (simp add: peer_id_of_bytes_def peer_id_bytes_def field_defs)

text \<open>The elements of an array whose elements have the same size.\<close>

lemma field_concat:
  assumes "\<And>x. x \<in> set xs \<Longrightarrow> length (f x) = k" and "i < length xs"
  shows "field (k * i) k (concat (map f xs) @ ys) = f (xs ! i)"
  using assms
proof (induction xs arbitrary: i)
  case Nil
  then show ?case by simp
next
  case (Cons x xs)
  then have *: "length (f x) = k" by simp
  show ?case
  proof (cases i)
    case 0
    with * show ?thesis by (simp add: field_prefix)
  next
    case (Suc j)
    with Cons * show ?thesis by (simp add: field_skip)
  qed
qed

lemma length_concat_same: "(\<And>x. x \<in> set xs \<Longrightarrow> length (f x) = k) \<Longrightarrow> length (concat (map f xs)) = k * length xs"
  by (induction xs) auto

lemma length_entry_bytes: "length (te_owners te) = MAX_PEER_ENTRIES \<Longrightarrow> length (entry_bytes te) = 272"
  using length_concat_same [of "te_owners te" peer_id_bytes 8]
  by (simp add: entry_bytes_def MAX_PEER_ENTRIES_def)

text \<open>What can be sent as the entry it is: a name that is a C string within its buffer, and an
  array of 16 owners.\<close>

definition te_sendable :: "trans_file_entry \<Rightarrow> bool" where
  "te_sendable te \<longleftrightarrow> length (te_name te) < MAX_NAME_LEN \<and> CHR 0x00 \<notin> set (te_name te) \<and>
     length (te_owners te) = MAX_PEER_ENTRIES"

lemma entry_owner_field:
  assumes "te_sendable te" and "i < MAX_PEER_ENTRIES"
  shows "field (144 + 8 * i) 8 (entry_bytes te @ ys) = peer_id_bytes (te_owners te ! i)"
proof -
  have "field (144 + 8 * i) 8 (entry_bytes te @ ys) =
      field (8 * i) 8 (concat (map peer_id_bytes (te_owners te)) @ ys)"
    by (simp add: entry_bytes_def field_skip)
  also have "\<dots> = peer_id_bytes (te_owners te ! i)"
    by (rule field_concat) (use assms in \<open>simp_all add: te_sendable_def\<close>)
  finally show ?thesis .
qed

lemma entry_roundtrip:
  assumes "te_sendable te"
  shows "entry_of_bytes (entry_bytes te @ ys) = te"
proof -
  have owners: "map (\<lambda>i. peer_id_of_bytes (field (144 + 8 * i) 8 (entry_bytes te @ ys))) [0..<MAX_PEER_ENTRIES]
      = te_owners te"
    using assms by (intro nth_equalityI) (simp_all add: entry_owner_field te_sendable_def)
  have name: "name_of_bytes (name_bytes (te_name te)) = te_name te"
    using assms by (simp add: name_roundtrip te_sendable_def)
  show ?thesis unfolding entry_of_bytes_def owners
    by (simp add: entry_bytes_def field_defs name)
qed

section \<open>A table over the wire\<close>

text \<open>\<open>trans_table_len\<close> is four bytes short of the struct, and these four bytes are the port of the
  sixteenth owner of the last entry and its padding.\<close>

definition cut_owner :: "trans_file_entry \<Rightarrow> trans_file_entry" where
  "cut_owner te = te\<lparr>te_owners := (te_owners te)[15 := (te_owners te ! 15)\<lparr>pid_port := 0\<rparr>]\<rparr>"

definition cut_last :: "trans_file_table \<Rightarrow> trans_file_table" where
  "cut_last t = (if tft_entries t = [] then t
     else t\<lparr>tft_entries := butlast (tft_entries t) @ [cut_owner (last (tft_entries t))]\<rparr>)"

definition table_sendable :: "trans_file_table \<Rightarrow> bool" where
  "table_sendable t \<longleftrightarrow> tft_n t = int (length (tft_entries t)) \<and> length (tft_entries t) \<le> MAX_FILE_ENTRIES \<and>
     (\<forall>te \<in> set (tft_entries t). te_sendable te)"

lemma field_zeros: "field off len (xs @ replicate k 0) = field off len xs"
proof -
  have "drop off (xs @ replicate k 0) @ replicate len 0 =
      drop off xs @ replicate (k - (off - length xs) + len) 0"
    by (simp add: replicate_add)
  then show ?thesis by (simp add: field_def)
qed

lemma put_le_zero: "put_le k 0 = replicate k 0"
  by (induction k) simp_all

lemma cut_owner_sendable: "te_sendable te \<Longrightarrow> te_sendable (cut_owner te)"
  by (simp add: te_sendable_def cut_owner_def)

lemma entry_bytes_cut:
  assumes "te_sendable te"
  shows "entry_bytes (cut_owner te) = take 268 (entry_bytes te) @ replicate 4 0"
proof -
  let ?os = "te_owners te"
  from assms have len: "length ?os = 16" by (simp add: te_sendable_def MAX_PEER_ENTRIES_def)
  have "take (Suc 15) ?os = take 15 ?os @ [?os ! 15]"
    by (rule take_Suc_conv_app_nth) (simp add: len)
  then have os: "?os = take 15 ?os @ [?os ! 15]" by (simp add: len)
  have cut: "?os[15 := x] = take 15 ?os @ [x]" for x
  proof -
    have "(take 15 ?os @ [?os ! 15])[15 := x] = take 15 ?os @ [x]"
      using len by (simp add: list_update_append)
    with os show ?thesis by simp
  qed
  have pre: "length (concat (map peer_id_bytes (take 15 ?os))) = 120"
    using length_concat_same [of "take 15 ?os" peer_id_bytes 8] len by simp
  have "entry_bytes te = name_bytes (te_name te) @ put_le 8 (te_timestamp te) @ put_le 2 (te_op_type te) @
     put_le 2 (te_file_type te) @ put_le 2 (te_owner_n te) @ pad 2 @
     concat (map peer_id_bytes (take 15 ?os)) @ peer_id_bytes (?os ! 15)"
    unfolding entry_bytes_def by (subst os) simp
  then have "take 268 (entry_bytes te) = name_bytes (te_name te) @ put_le 8 (te_timestamp te) @ put_le 2 (te_op_type te) @
     put_le 2 (te_file_type te) @ put_le 2 (te_owner_n te) @ pad 2 @
     concat (map peer_id_bytes (take 15 ?os)) @ put_le 4 (pid_ip (?os ! 15))"
    by (simp add: pre peer_id_bytes_def)
  moreover have "replicate 4 0 = put_le 2 (0 :: u16) @ pad 2"
    by (simp add: put_le_zero pad_def flip: replicate_add)
  ultimately show ?thesis
    by (simp add: entry_bytes_def cut_owner_def cut peer_id_bytes_def)
qed

lemma table_sendable_entry: "table_sendable t \<Longrightarrow> te \<in> set (tft_entries t) \<Longrightarrow> length (entry_bytes te) = 272"
  by (simp add: table_sendable_def te_sendable_def length_entry_bytes)

lemma length_table_bytes: "table_sendable t \<Longrightarrow> length (table_bytes t) = 8 + 272 * length (tft_entries t)"
  using length_concat_same [of "tft_entries t" entry_bytes 272] table_sendable_entry [of t]
  by (simp add: table_bytes_def)

lemma table_entry_field:
  assumes "table_sendable t" and "i < length (tft_entries t)"
  shows "field (8 + 272 * i) 272 (table_bytes t) = entry_bytes (tft_entries t ! i)"
proof -
  have "field (8 + 272 * i) 272 (table_bytes t) =
      field (272 * i) 272 (concat (map entry_bytes (tft_entries t)) @ [])"
    by (simp add: table_bytes_def field_skip)
  also have "\<dots> = entry_bytes (tft_entries t ! i)"
    by (rule field_concat) (use assms table_sendable_entry [of t] in auto)
  finally show ?thesis .
qed

lemma table_n_field: "field 0 4 (table_bytes t) = put_le 4 (word_of_int (tft_n t) :: u32)"
  by (simp add: table_bytes_def field_prefix)

lemma cut_last_sendable: "table_sendable t \<Longrightarrow> table_sendable (cut_last t)"
  by (auto simp: table_sendable_def cut_last_def cut_owner_sendable dest: in_set_butlastD)

lemma cut_last_simps [simp]:
  "tft_n (cut_last t) = tft_n t"
  "length (tft_entries (cut_last t)) = length (tft_entries t)"
  by (simp_all add: cut_last_def)

lemma table_bytes_cut:
  assumes "table_sendable t" and "tft_entries t \<noteq> []"
  shows "table_bytes (cut_last t) = take (4 + 272 * length (tft_entries t)) (table_bytes t) @ replicate 4 0"
proof -
  let ?es = "butlast (tft_entries t)" and ?te = "last (tft_entries t)"
  have es: "tft_entries t = ?es @ [?te]" using assms(2) by simp
  have n: "length (tft_entries t) = Suc (length ?es)" by (metis es length_append_singleton)
  have te: "te_sendable ?te" using assms by (simp add: table_sendable_def)
  let ?P = "put_le 4 (word_of_int (tft_n t) :: u32) @ pad 4 @ concat (map entry_bytes ?es)"
  have "length (concat (map entry_bytes ?es)) = 272 * length ?es"
    by (rule length_concat_same) (use assms(1) table_sendable_entry in_set_butlastD in fast)
  note P = this
  have "table_bytes t = ?P @ entry_bytes ?te"
    unfolding table_bytes_def by (subst es) simp
  then have "take (4 + 272 * length (tft_entries t)) (table_bytes t) = ?P @ take 268 (entry_bytes ?te)"
    by (simp add: n P del: length_butlast)
  then show ?thesis
    using assms(2) entry_bytes_cut [OF te] by (simp add: table_bytes_def cut_last_def)
qed

lemma sint_small: "n \<le> MAX_FILE_ENTRIES \<Longrightarrow> sint (of_nat n :: u32) = int n"
  by (simp add: MAX_FILE_ENTRIES_def signed_of_nat signed_take_bit_int_eq_self)

lemma trans_table_len_nat:
  assumes "table_sendable t"
  shows "unat (trans_table_len t) = 4 + 272 * length (tft_entries t)"
proof -
  have "trans_table_len t = of_nat (4 + 272 * length (tft_entries t))"
    using assms by (simp add: trans_table_len_def table_sendable_def)
  moreover have "4 + 272 * length (tft_entries t) < 2 ^ 64"
    using assms by (simp add: table_sendable_def MAX_FILE_ENTRIES_def)
  ultimately show ?thesis by (simp del: of_nat_add of_nat_mult add: unat_of_nat)
qed

lemma table_len_int:
  assumes "table_sendable t"
  shows "sint (ucast (trans_table_len t) :: u32) = int (4 + 272 * length (tft_entries t))"
proof -
  have len: "4 + 272 * length (tft_entries t) < 2 ^ 31"
    using assms by (simp add: table_sendable_def MAX_FILE_ENTRIES_def)
  have "(ucast (trans_table_len t) :: u32) = of_nat (unat (trans_table_len t))"
    by (simp flip: unsigned_of_nat)
  then show ?thesis using len
    by (simp add: trans_table_len_nat [OF assms] signed_of_nat signed_take_bit_int_eq_self
        del: of_nat_add of_nat_mult)
qed

lemma table_wire:
  assumes "table_sendable t"
  shows "field 0 (unat (trans_table_len t)) (table_bytes t) =
     take (4 + 272 * length (tft_entries t)) (table_bytes t)"
  by (simp add: trans_table_len_nat [OF assms] field_def length_table_bytes [OF assms])

lemma table_roundtrip:
  assumes "table_sendable t"
  shows "table_of_bytes (field 0 (unat (trans_table_len t)) (table_bytes t)) = cut_last t"
proof -
  let ?n = "length (tft_entries t)"
  let ?bs = "field 0 (unat (trans_table_len t)) (table_bytes t)"
  have len: "length ?bs = 4 + 272 * ?n" by (simp add: trans_table_len_nat [OF assms])
  have n: "tft_n t = int ?n" "?n \<le> MAX_FILE_ENTRIES" using assms by (simp_all add: table_sendable_def)
  then have num: "min MAX_FILE_ENTRIES ((length ?bs - 8 + 271) div 272) = ?n"
    unfolding len by (cases ?n) auto
  have bytes: "field off k ?bs = field off k (table_bytes (cut_last t))" if "?n \<noteq> 0" for off k
    using that by (simp add: table_wire [OF assms] table_bytes_cut [OF assms] field_zeros)
  have "field 0 4 ?bs = put_le 4 (word_of_int (tft_n t) :: u32)"
    unfolding table_wire [OF assms] by (simp add: field_take table_n_field)
  then have tn: "sint (get_le (field 0 4 ?bs) :: u32) = tft_n t"
    by (simp add: n sint_small)
  have "map (\<lambda>i. entry_of_bytes (field (8 + 272 * i) 272 ?bs)) [0..<?n] = tft_entries (cut_last t)"
  proof (rule nth_equalityI)
    fix i assume "i < length (map (\<lambda>i. entry_of_bytes (field (8 + 272 * i) 272 ?bs)) [0..<?n])"
    then have i: "i < ?n" "tft_entries t \<noteq> []" by auto
    have "entry_of_bytes (entry_bytes (tft_entries (cut_last t) ! i)) = tft_entries (cut_last t) ! i"
      using entry_roundtrip [of "tft_entries (cut_last t) ! i" "[]"] cut_last_sendable [OF assms] i
      by (simp add: table_sendable_def)
    then show "map (\<lambda>i. entry_of_bytes (field (8 + 272 * i) 272 ?bs)) [0..<?n] ! i = tft_entries (cut_last t) ! i"
      using i bytes [of "8 + 272 * i" 272] table_entry_field [OF cut_last_sendable [OF assms], of i] by auto
  qed simp
  with tn show ?thesis unfolding table_of_bytes_def num by simp
qed

section \<open>Packets as a channel\<close>

text \<open>A packet as its reader sees it: the header, and the first \<open>data_len\<close> bytes of the data. The
  bytes behind them hold the end mark of the segment. The loops of the readers go on while the
  value returned is positive.\<close>

lemma length_ptot_hdr_bytes [simp]: "length (ptot_hdr_bytes h) = 140"
  by (simp add: ptot_hdr_bytes_def)

lemma length_ttop_hdr_bytes [simp]: "length (ttop_hdr_bytes h) = 4"
  by (simp add: ttop_hdr_bytes_def)

definition hdr_sendable :: "ptot_packet_header \<Rightarrow> bool" where
  "hdr_sendable h \<longleftrightarrow> length (ph_protocol_name h) < MAX_NAME_LEN \<and> CHR 0x00 \<notin> set (ph_protocol_name h)"

lemma ptot_hdr_roundtrip: "hdr_sendable h \<Longrightarrow> ptot_hdr_of_bytes (ptot_hdr_bytes h @ ys) = h"
  by (simp add: ptot_hdr_of_bytes_def ptot_hdr_bytes_def field_defs hdr_sendable_def name_roundtrip)

lemma ttop_hdr_roundtrip [simp]: "ttop_hdr_of_bytes (ttop_hdr_bytes h @ ys) = h"
  by (simp add: ttop_hdr_of_bytes_def ttop_hdr_bytes_def field_defs)

definition ptot_enc :: "ptot_packet_header \<times> u8 list \<Rightarrow> u8 list" where
  "ptot_enc = (\<lambda>(h, d). frame (ptot_hdr_bytes h @ d))"

definition ptot_dec :: "u8 list \<Rightarrow> ((ptot_packet_header \<times> u8 list) \<times> u8 list) option" where
  "ptot_dec xs =
     (case recv_ptot_packet xs (ptot_packet_init 0 0) of
        Inl e \<Rightarrow> None
      | Inr (ret, pkt, rest) \<Rightarrow>
          if ret > 0 then Some ((ptot_hdr pkt, field 0 (unat (ph_data_len (ptot_hdr pkt))) (ptot_data pkt)), rest)
          else None)"

definition ptot_ok :: "ptot_packet_header \<times> u8 list \<Rightarrow> bool" where
  "ptot_ok = (\<lambda>(h, d). hdr_sendable h \<and> length d = unat (ph_data_len h) \<and> \<not> has_mark (ptot_hdr_bytes h @ d))"

definition ttop_enc :: "ttop_packet_header \<times> u8 list \<Rightarrow> u8 list" where
  "ttop_enc = (\<lambda>(h, d). frame (ttop_hdr_bytes h @ d))"

definition ttop_dec :: "u8 list \<Rightarrow> ((ttop_packet_header \<times> u8 list) \<times> u8 list) option" where
  "ttop_dec xs =
     (case recv_ttop_packet xs (ttop_of_bytes []) of
        Inl e \<Rightarrow> None
      | Inr (ret, pkt, rest) \<Rightarrow>
          if ret > 0 then Some ((ttop_hdr pkt, field 0 (unat (th_data_len (ttop_hdr pkt))) (ttop_data pkt)), rest)
          else None)"

definition ttop_ok :: "ttop_packet_header \<times> u8 list \<Rightarrow> bool" where
  "ttop_ok = (\<lambda>(h, d). length d = unat (th_data_len h) \<and> \<not> has_mark (ttop_hdr_bytes h @ d))"

definition p2p_enc :: "(u16 \<times> u16) \<times> u8 list \<Rightarrow> u8 list" where
  "p2p_enc = (\<lambda>((ty, n), d). frame (put_le 2 ty @ put_le 2 n @ d))"

definition p2p_dec :: "u8 list \<Rightarrow> (((u16 \<times> u16) \<times> u8 list) \<times> u8 list) option" where
  "p2p_dec xs =
     (case recv_p2p_packet xs (p2p_packet_init 0) of
        Inl e \<Rightarrow> None
      | Inr (ret, pkt, rest) \<Rightarrow>
          if ret > 0 then Some (((pp_type pkt, pp_data_len pkt), field 0 (unat (pp_data_len pkt)) (pp_data pkt)), rest)
          else None)"

definition p2p_ok :: "(u16 \<times> u16) \<times> u8 list \<Rightarrow> bool" where
  "p2p_ok = (\<lambda>((ty, n), d). length d = unat n \<and> \<not> has_mark (put_le 2 ty @ put_le 2 n @ d))"

lemma unat_u16_le: "unat (w :: u16) < 2 ^ 16"
  using unsigned_less [of w] by simp

lemma field_take_prefix: "length d \<le> n \<Longrightarrow> field 0 (length d) (take n (d @ ys)) = d"
  by (simp add: field_take field_prefix)

lemma recv_ptot_enc:
  assumes "ptot_ok (h, d)"
  shows "\<exists>ret pkt'. recv_ptot_packet (ptot_enc (h, d) @ rest) pkt = Inr (ret, pkt', rest) \<and> ret > 0 \<and>
     ptot_hdr pkt' = h \<and> field 0 (unat (ph_data_len h)) (ptot_data pkt') = d"
proof -
  from assms have ok: "hdr_sendable h" "length d = unat (ph_data_len h)" "\<not> has_mark (ptot_hdr_bytes h @ d)"
    by (simp_all add: ptot_ok_def)
  have len: "length d < 65536" using ok(2) unat_u16_le [of "ph_data_len h"] by simp
  then have "recv_segment (sizeof_ptot_packet + 2) (frame (ptot_hdr_bytes h @ d) @ rest) =
      Inr (int (length (ptot_hdr_bytes h @ d)) + 2, (ptot_hdr_bytes h @ d) @ end_buf, rest)"
    by (intro recv_frame ok(3)) (simp add: sizeof_ptot_packet_def MAX_PKT_DATA_LEN_def)
  moreover have "ptot_hdr_of_bytes (take sizeof_ptot_packet ((ptot_hdr_bytes h @ d) @ end_buf)) = h"
    by (simp add: sizeof_ptot_packet_def ptot_hdr_roundtrip [OF ok(1)])
  moreover have "field 0 (length d) (drop 140 (take sizeof_ptot_packet ((ptot_hdr_bytes h @ d) @ end_buf))) = d"
    using len field_take_prefix [of d MAX_PKT_DATA_LEN end_buf]
    by (simp add: sizeof_ptot_packet_def MAX_PKT_DATA_LEN_def)
  ultimately show ?thesis
    by (simp add: ptot_enc_def recv_ptot_packet_def ptot_of_bytes_def flip: ok(2))
qed

lemma ptot_dec_enc: "ptot_ok p \<Longrightarrow> ptot_dec (ptot_enc p @ rest) = Some (p, rest)"
  using recv_ptot_enc [of "fst p" "snd p" rest "ptot_packet_init 0 0"] by (auto simp: ptot_dec_def)

lemma recv_ttop_enc:
  assumes "ttop_ok (h, d)"
  shows "\<exists>ret pkt'. recv_ttop_packet (ttop_enc (h, d) @ rest) pkt = Inr (ret, pkt', rest) \<and> ret > 0 \<and>
     ttop_hdr pkt' = h \<and> field 0 (unat (th_data_len h)) (ttop_data pkt') = d"
proof -
  from assms have ok: "length d = unat (th_data_len h)" "\<not> has_mark (ttop_hdr_bytes h @ d)"
    by (simp_all add: ttop_ok_def)
  have len: "length d < 65536" using ok(1) unat_u16_le [of "th_data_len h"] by simp
  then have "recv_segment (sizeof_ttop_packet + 2) (frame (ttop_hdr_bytes h @ d) @ rest) =
      Inr (int (length (ttop_hdr_bytes h @ d)) + 2, (ttop_hdr_bytes h @ d) @ end_buf, rest)"
    by (intro recv_frame ok(2)) (simp add: sizeof_ttop_packet_def MAX_PKT_DATA_LEN_def)
  moreover have "ttop_hdr_of_bytes (take sizeof_ttop_packet ((ttop_hdr_bytes h @ d) @ end_buf)) = h"
    by (simp add: sizeof_ttop_packet_def)
  moreover have "field 0 (length d) (drop 4 (take sizeof_ttop_packet ((ttop_hdr_bytes h @ d) @ end_buf))) = d"
    using len field_take_prefix [of d MAX_PKT_DATA_LEN end_buf]
    by (simp add: sizeof_ttop_packet_def MAX_PKT_DATA_LEN_def)
  ultimately show ?thesis
    by (simp add: ttop_enc_def recv_ttop_packet_def ttop_of_bytes_def flip: ok(1))
qed

lemma ttop_dec_enc: "ttop_ok p \<Longrightarrow> ttop_dec (ttop_enc p @ rest) = Some (p, rest)"
  using recv_ttop_enc [of "fst p" "snd p" rest "ttop_of_bytes []"] by (auto simp: ttop_dec_def)

text \<open>A peer-to-peer packet has the layout of a packet of the tracker.\<close>

lemma p2p_as_ttop:
  "p2p_enc ((ty, n), d) = ttop_enc (\<lparr>th_type = ty, th_data_len = n\<rparr>, d)"
  "p2p_ok ((ty, n), d) = ttop_ok (\<lparr>th_type = ty, th_data_len = n\<rparr>, d)"
  "p2p_dec xs = map_option (\<lambda>((h, d), rest). (((th_type h, th_data_len h), d), rest)) (ttop_dec xs)"
  by (simp_all add: p2p_enc_def ttop_enc_def p2p_ok_def ttop_ok_def ttop_hdr_bytes_def p2p_dec_def ttop_dec_def
      recv_p2p_packet_def recv_ttop_packet_def sizeof_p2p_packet_def sizeof_ttop_packet_def p2p_of_bytes_def
      ttop_of_bytes_def ttop_hdr_of_bytes_def ebind_def split: sum.split)

interpretation ptot: framed_channel ptot_enc ptot_dec ptot_ok
  by unfold_locales (rule ptot_dec_enc)

interpretation ttop: framed_channel ttop_enc ttop_dec ttop_ok
  by unfold_locales (rule ttop_dec_enc)

interpretation p2p: framed_channel p2p_enc p2p_dec p2p_ok
  by unfold_locales (auto simp: p2p_as_ttop ttop_dec_enc)

lemma recv_packet_shorter:
  "recv_ttop_packet input tp = Inr (r, tp', rest) \<Longrightarrow> 0 < r \<Longrightarrow> length rest < length input"
  "recv_p2p_packet input pp = Inr (r, pp', rest) \<Longrightarrow> 0 < r \<Longrightarrow> length rest < length input"
  by (auto simp: recv_ttop_packet_def recv_p2p_packet_def ebind_eq_Inr recv_segment_shorter split: if_splits)

lemma field_header: "length hb = k \<Longrightarrow> field 0 (k + n) (hb @ d) = hb @ field 0 n d"
  by (simp add: field_def)

lemma send_ptot_packet_complete:
  assumes "send_replies s = []"
  shows "\<exists>r. send_ptot_packet pkt s = (r, s\<lparr>wire_out := wire_out s @
     ptot_enc (ptot_hdr pkt, field 0 (unat (ph_data_len (ptot_hdr pkt))) (ptot_data pkt))\<rparr>) \<and> r > 0"
  by (simp add: send_ptot_packet_def send_segment_complete [OF assms] ptot_packet_len_def ptot_bytes_def
      field_header ptot_enc_def add_pos_nonneg)

lemma send_ttop_packet_complete:
  assumes "send_replies s = []"
  shows "\<exists>r. send_ttop_packet pkt s = (r, s\<lparr>wire_out := wire_out s @
     ttop_enc (ttop_hdr pkt, field 0 (unat (th_data_len (ttop_hdr pkt))) (ttop_data pkt))\<rparr>) \<and> r > 0"
  by (simp add: send_ttop_packet_def send_segment_complete [OF assms] ttop_packet_len_def ttop_bytes_def
      field_header ttop_enc_def add_pos_nonneg)

section \<open>Properties\<close>

text \<open>
  C33. What a table becomes on its way through a packet. The sender copies \<open>trans_table_len\<close> bytes
  of the struct, the receiver copies them over a zeroed struct: all entries arrive, except that
  the port of the sixteenth owner of the last entry is zero afterwards, because the macro leaves
  out the padding behind \<open>n\<close>. So the table arrives unchanged exactly when that port was zero.
\<close>

theorem table_over_wire:
  assumes "table_sendable t"
  shows "table_of_bytes (field 0 (unat (trans_table_len t)) (table_bytes t)) = cut_last t \<and>
     (cut_last t = t \<longleftrightarrow> tft_entries t = [] \<or> pid_port (te_owners (last (tft_entries t)) ! 15) = 0)"
proof -
  have "cut_last t = t \<longleftrightarrow> pid_port (te_owners (last (tft_entries t)) ! 15) = 0" if ne: "tft_entries t \<noteq> []"
  proof -
    let ?te = "last (tft_entries t)"
    have len: "15 < length (te_owners ?te)"
      using assms ne by (simp add: table_sendable_def te_sendable_def MAX_PEER_ENTRIES_def)
    have "cut_last t = t \<longleftrightarrow> butlast (tft_entries t) @ [cut_owner ?te] = butlast (tft_entries t) @ [?te]"
      using ne by (cases t) (simp add: cut_last_def)
    also have "\<dots> \<longleftrightarrow> (te_owners ?te)[15 := (te_owners ?te ! 15)\<lparr>pid_port := 0\<rparr>] = te_owners ?te"
      by (cases ?te) (simp add: cut_owner_def)
    also have "\<dots> \<longleftrightarrow> (te_owners ?te ! 15)\<lparr>pid_port := 0\<rparr> = te_owners ?te ! 15"
      using len by (metis list_update_id nth_list_update_eq)
    finally show ?thesis by (cases "te_owners ?te ! 15") auto
  qed
  then show ?thesis by (auto simp: table_roundtrip [OF assms] cut_last_def)
qed

text \<open>A table on its way from a peer to the tracker.\<close>

lemma send_table_to_tracker:
  assumes t: "table_sendable t" and s: "send_replies s = []"
    and fill: "ptot_packet_fill (ptot_packet_init my_ip type) (table_bytes t)
                 (sint (ucast (trans_table_len t) :: u32)) = Inr pkt"
    and mark: "\<not> has_mark (field 0 (ptot_packet_len pkt) (ptot_bytes pkt))"
  shows "\<exists>r s' w ret pkt'. send_ptot_packet pkt s = (r, s') \<and> r > 0 \<and> wire_out s' = wire_out s @ w \<and>
     recv_ptot_packet (w @ rest) pkt0 = Inr (ret, pkt', rest) \<and> ret > 0 \<and>
     ph_type (ptot_hdr pkt') = type \<and> ph_ip (ptot_hdr pkt') = my_ip \<and> ph_port (ptot_hdr pkt') = P2P_PORT \<and>
     table_of_bytes (field 0 (unat (ph_data_len (ptot_hdr pkt'))) (ptot_data pkt')) = cut_last t"
proof -
  note len = table_len_int [OF t]
  let ?n = "4 + 272 * length (tft_entries t)"
  from fill have n: "?n \<le> 65536" and pkt: "pkt = (ptot_packet_init my_ip type)
      \<lparr>ptot_data := field 0 ?n (table_bytes t),
       ptot_hdr := (ptot_hdr (ptot_packet_init my_ip type))\<lparr>ph_data_len := of_nat ?n\<rparr>\<rparr>"
    unfolding len by (auto simp: ptot_packet_fill_def data_copy_def MAX_PKT_DATA_LEN_def ptot_packet_init_def
        ebind_eq_Inr nat_add_distrib nat_mult_distrib split: if_splits)
  have "?n < 65536" using n by presburger
  then have dl: "unat (ph_data_len (ptot_hdr pkt)) = ?n"
    by (simp add: pkt unat_of_nat del: of_nat_add of_nat_mult)
  let ?d = "field 0 ?n (table_bytes t)"
  have data: "field 0 ?n (ptot_data pkt) = ?d" by (simp add: pkt field_all)
  have bytes: "field 0 (ptot_packet_len pkt) (ptot_bytes pkt) = ptot_hdr_bytes (ptot_hdr pkt) @ ?d"
    by (simp only: ptot_packet_len_def dl ptot_bytes_def field_header [OF length_ptot_hdr_bytes] data)
  have ok: "ptot_ok (ptot_hdr pkt, ?d)"
    using mark dl unfolding bytes
    by (simp add: ptot_ok_def hdr_sendable_def) (simp add: pkt ptot_packet_init_def MAX_NAME_LEN_def)
  have dec: "table_of_bytes ?d = cut_last t"
    using table_roundtrip [OF t] by (simp add: trans_table_len_nat [OF t])
  from recv_ptot_enc [OF ok, of rest pkt0] send_ptot_packet_complete [OF s, of pkt]
  obtain ret pkt' r where "recv_ptot_packet (ptot_enc (ptot_hdr pkt, ?d) @ rest) pkt0 = Inr (ret, pkt', rest)"
    "ret > 0" "ptot_hdr pkt' = ptot_hdr pkt" "field 0 ?n (ptot_data pkt') = ?d" "r > 0"
    "send_ptot_packet pkt s = (r, s\<lparr>wire_out := wire_out s @ ptot_enc (ptot_hdr pkt, ?d)\<rparr>)"
    unfolding dl data by blast
  moreover have "ph_type (ptot_hdr pkt) = type" "ph_ip (ptot_hdr pkt) = my_ip" "ph_port (ptot_hdr pkt) = P2P_PORT"
    by (simp_all add: pkt ptot_packet_init_def)
  ultimately show ?thesis
    by (intro exI [of _ r] exI [of _ "s\<lparr>wire_out := wire_out s @ ptot_enc (ptot_hdr pkt, ?d)\<rparr>"]
          exI [of _ "ptot_enc (ptot_hdr pkt, ?d)"] exI [of _ ret] exI [of _ pkt'])
       (simp add: dl dec)
qed

text \<open>
  C21. A report of a peer reaches the tracker. If the table fits the packet, all bytes are taken by
  \<open>send\<close> and no end mark occurs among them, then \<open>recv_ptot_packet\<close> at the other end returns the
  type, the address and the port the peer put in, and the table up to the cut of C33, and leaves
  the connection at the next packet.
\<close>

theorem table_packet_reaches_tracker:
  assumes t: "table_sendable t" and s: "send_replies s = []"
    and fill: "ptot_packet_fill (ptot_packet_init my_ip type) (table_bytes t)
                 (sint (ucast (trans_table_len t) :: u32)) = Inr pkt"
    and mark: "\<not> has_mark (field 0 (ptot_packet_len pkt) (ptot_bytes pkt))"
  shows "\<exists>r s' w ret pkt'. send_ptot_packet pkt s = (r, s') \<and> r > 0 \<and> wire_out s' = wire_out s @ w \<and>
     recv_ptot_packet (w @ rest) pkt0 = Inr (ret, pkt', rest) \<and> ret > 0 \<and>
     ph_type (ptot_hdr pkt') = type \<and> ph_ip (ptot_hdr pkt') = my_ip \<and> ph_port (ptot_hdr pkt') = P2P_PORT \<and>
     table_of_bytes (field 0 (unat (ph_data_len (ptot_hdr pkt'))) (ptot_data pkt')) = cut_last t"
  by (rule send_table_to_tracker [OF assms])

text \<open>A table with one file, owned by one peer.\<close>

definition wire_example :: trans_file_table where
  "wire_example = \<lparr>tft_n = 1, tft_entries = [te_zero\<lparr>te_name := ''a'', te_timestamp := 5, te_owner_n := 1,
     te_owners := \<lparr>pid_ip = 1, pid_port = 4192\<rparr> # replicate 15 pid_zero\<rparr>]\<rparr>"

lemma wire_example_sendable: "table_sendable wire_example"
  by (simp add: wire_example_def table_sendable_def te_sendable_def MAX_FILE_ENTRIES_def MAX_NAME_LEN_def
      MAX_PEER_ENTRIES_def)

theorem table_over_wire_witness:
  "table_of_bytes (field 0 (unat (trans_table_len wire_example)) (table_bytes wire_example)) = wire_example"
  using table_over_wire [OF wire_example_sendable] by (simp add: wire_example_def pid_zero_def)

lemma no_bang_no_mark: "c_bang \<notin> set bs \<Longrightarrow> \<not> has_mark bs"
  by (metis Un_iff end_buf_def has_mark_def list.set_intros(1) not_None_eq prod.exhaust set_append split_mark_Some)

definition wire_example_pkt :: ptot_packet where
  "wire_example_pkt = \<lparr>ptot_hdr = \<lparr>ph_protocol_name = [], ph_type = PEER_FILE_UPDATE, ph_ip = 1,
     ph_port = P2P_PORT, ph_data_len = 276\<rparr>, ptot_data = field 0 276 (table_bytes wire_example)\<rparr>"

lemma wire_example_n: "length (tft_entries wire_example) = 1"
  by (simp add: wire_example_def)

lemma wire_example_fill: "ptot_packet_fill (ptot_packet_init 1 PEER_FILE_UPDATE) (table_bytes wire_example)
     (sint (ucast (trans_table_len wire_example) :: u32)) = Inr wire_example_pkt"
  unfolding table_len_int [OF wire_example_sendable] wire_example_n
  by (simp add: ptot_packet_fill_def data_copy_def wire_example_pkt_def MAX_PKT_DATA_LEN_def ptot_packet_init_def)

lemma set_field: "set (field off len bs) \<subseteq> set bs \<union> {0}"
  by (auto simp: field_def dest!: in_set_takeD in_set_dropD)

lemma set_name_bytes: "set (name_bytes s) \<subseteq> byte_of_char ` set s \<union> {0}"
  by (auto simp: name_bytes_def dest!: in_set_takeD)

lemma put_le_examples:
  "c_bang \<notin> set (put_le 8 (5 :: u64))" "c_bang \<notin> set (put_le 2 (0 :: u16))" "c_bang \<notin> set (put_le 2 (1 :: u16))"
  "c_bang \<notin> set (put_le 4 (1 :: u32))" "c_bang \<notin> set (put_le 4 (0 :: u32))" "c_bang \<notin> set (put_le 2 (4192 :: u16))"
  "c_bang \<notin> set (put_le 2 PEER_FILE_UPDATE)" "c_bang \<notin> set (put_le 2 P2P_PORT)" "c_bang \<notin> set (put_le 2 (276 :: u16))"
  by code_simp+

lemma name_examples: "c_bang \<notin> set (name_bytes [])" "c_bang \<notin> set (name_bytes ''a'')"
  using set_name_bytes [of "[]"] set_name_bytes [of "''a''"] by (auto simp: byte_of_char_def of_char_def)

lemma wire_example_no_bang: "c_bang \<notin> set (table_bytes wire_example)"
  using name_examples put_le_examples
  by (simp add: table_bytes_def wire_example_def entry_bytes_def te_zero_def pad_def peer_id_bytes_def pid_zero_def)

lemma wire_example_bytes: "\<not> has_mark (field 0 (ptot_packet_len wire_example_pkt) (ptot_bytes wire_example_pkt))"
proof -
  have "c_bang \<notin> set (ptot_bytes wire_example_pkt)"
    using wire_example_no_bang name_examples put_le_examples set_field [of 0 276 "table_bytes wire_example"]
    by (auto simp: ptot_bytes_def ptot_hdr_bytes_def wire_example_pkt_def pad_def)
  then show ?thesis using set_field by (intro no_bang_no_mark) fastforce
qed

theorem table_packet_reaches_tracker_witness:
  "\<exists>r s' w ret pkt'. send_ptot_packet wire_example_pkt \<lparr>wire_out = [], send_replies = []\<rparr> = (r, s') \<and>
     wire_out s' = [] @ w \<and> recv_ptot_packet (w @ []) (ptot_packet_init 0 0) = Inr (ret, pkt', []) \<and>
     ph_type (ptot_hdr pkt') = PEER_FILE_UPDATE \<and>
     table_of_bytes (field 0 (unat (ph_data_len (ptot_hdr pkt'))) (ptot_data pkt')) = cut_last wire_example"
  using table_packet_reaches_tracker [OF wire_example_sendable _ wire_example_fill wire_example_bytes,
      of "\<lparr>wire_out = [], send_replies = []\<rparr>" "[]" "ptot_packet_init 0 0"]
  by simp blast

text \<open>
  C34. How large a table can be sent. \<open>ptot_packet_fill\<close> copies the table into the packet without
  a look at its size: it writes behind the end of the packet exactly when the table has more than
  240 entries. Up to 240 entries the 16-bit length of the header holds the full length.
\<close>

theorem table_packet_limit:
  assumes "table_sendable t"
  shows "case ptot_packet_fill pkt (table_bytes t) (sint (ucast (trans_table_len t) :: u32)) of
      Inl e \<Rightarrow> e = Out_Of_Bounds \<and> length (tft_entries t) > 240
    | Inr pkt' \<Rightarrow> length (tft_entries t) \<le> 240 \<and>
        unat (ph_data_len (ptot_hdr pkt')) = 4 + 272 * length (tft_entries t) \<and>
        take (4 + 272 * length (tft_entries t)) (ptot_data pkt') =
          take (4 + 272 * length (tft_entries t)) (table_bytes t)"
proof -
  let ?n = "4 + 272 * length (tft_entries t)"
  note len = table_len_int [OF assms]
  have wire: "field 0 ?n (table_bytes t) = take ?n (table_bytes t)"
    using table_wire [OF assms] by (simp add: trans_table_len_nat [OF assms])
  show ?thesis
  proof (cases "length (tft_entries t) \<le> 240")
    case True
    then have "ptot_packet_fill pkt (table_bytes t) (int ?n) =
       Inr (pkt\<lparr>ptot_data := field 0 ?n (table_bytes t) @ drop ?n (ptot_data pkt),
            ptot_hdr := (ptot_hdr pkt)\<lparr>ph_data_len := of_nat ?n\<rparr>\<rparr>)"
      by (simp only: ptot_packet_fill_def data_copy_def MAX_PKT_DATA_LEN_def nat_int) simp
    moreover have "unat (of_nat ?n :: u16) = ?n"
      using True by (simp add: unat_of_nat del: of_nat_add of_nat_mult)
    ultimately show ?thesis using True unfolding len wire [symmetric] by (simp del: of_nat_add of_nat_mult)
  next
    case False
    then show ?thesis unfolding len by (simp add: ptot_packet_fill_def data_copy_def MAX_PKT_DATA_LEN_def)
  qed
qed

theorem table_packet_limit_witness:
  "length (tft_entries wire_example) \<le> 240 \<and> unat (ph_data_len (ptot_hdr wire_example_pkt)) = 276"
  using table_packet_limit [OF wire_example_sendable, of "ptot_packet_init 1 PEER_FILE_UPDATE"]
  unfolding wire_example_fill wire_example_n by simp

end
