(* ===== verification/Monitor.thy ===== *)
theory Monitor
  imports FileMap Wire
begin

text \<open>
  The file monitor of a peer (\<open>client/file_monitor.c\<close>, \<open>client/file_monitor.h\<close>): the table of the
  watched directories, the translation between the names of the system and the names the peers share
  (\<open>logic names\<close>: the number of the target directory, then the path inside it), the survey of the
  target directories at start-up, the blocking of a directory while a file is written to it, and what
  becomes of the events of \<open>inotify\<close>.

  What the kernel answers is a parameter of the operations: \<open>K\<close> gives the watch descriptor
  \<open>inotify_add_watch\<close> returns for a path (negative when it fails) while this operation runs, \<open>st\<close> the modification time
  \<open>stat\<close> finds (none when it fails). Every operation has its own \<open>K\<close>: a directory that was removed, renamed or made in the meantime is
  answered with another descriptor or with none, and two paths may have the same one. The masks that are in force, by descriptor, and the calls that
  change the file system are recorded in the table; a command for the shell is recorded as the string it is. The mutexes are not represented; an operation
  runs as a whole.
\<close>

section \<open>Names\<close>

text \<open>The C functions \<open>index\<close> and \<open>rindex\<close>: the position of the first and of the last occurrence of a
  character.\<close>

definition index_of :: "char \<Rightarrow> string \<Rightarrow> nat option" where
  "index_of c s = (if c \<in> set s then Some (length (takeWhile (\<lambda>x. x \<noteq> c) s)) else None)"

definition rindex :: "char \<Rightarrow> string \<Rightarrow> nat option" where
  "rindex c s =
     (if c \<in> set s then Some (length s - 1 - length (takeWhile (\<lambda>x. x \<noteq> c) (rev s))) else None)"

definition slash :: char where
  "slash = CHR ''/''"

text \<open>\<open>sprintf(buf, "%s/%s", a, b)\<close> into a buffer of \<open>MAX_NAME_LEN\<close> characters.\<close>

definition sprintf_path :: "string \<Rightarrow> string \<Rightarrow> string res" where
  "sprintf_path a b = strcpy_name (a @ slash # b)"

section \<open>The table\<close>

definition WD_HASH_SIZE :: nat where
  "WD_HASH_SIZE = 128"

text \<open>The flags of \<open>sys/inotify.h\<close> the code uses.\<close>

definition IN_MODIFY :: u32 where "IN_MODIFY = 0x2"
definition IN_ATTRIB :: u32 where "IN_ATTRIB = 0x4"
definition IN_MOVED_FROM :: u32 where "IN_MOVED_FROM = 0x40"
definition IN_MOVED_TO :: u32 where "IN_MOVED_TO = 0x80"
definition IN_CREATE :: u32 where "IN_CREATE = 0x100"
definition IN_DELETE :: u32 where "IN_DELETE = 0x200"
definition IN_DELETE_SELF :: u32 where "IN_DELETE_SELF = 0x400"
definition IN_MOVE_SELF :: u32 where "IN_MOVE_SELF = 0x800"
definition IN_ISDIR :: u32 where "IN_ISDIR = 0x40000000"

lemmas in_defs = IN_MODIFY_def IN_ATTRIB_def IN_MOVED_FROM_def IN_MOVED_TO_def IN_CREATE_def IN_DELETE_def
  IN_DELETE_SELF_def IN_MOVE_SELF_def IN_ISDIR_def

unbundle bit_operations_syntax

definition DEFAULT_WATCH_MASK :: u32 where
  "DEFAULT_WATCH_MASK =
     IN_CREATE OR IN_DELETE OR IN_DELETE_SELF OR IN_MODIFY OR IN_MOVE_SELF OR IN_MOVED_FROM OR IN_MOVED_TO"

definition BLOCK_ALL_MASK :: u32 where
  "BLOCK_ALL_MASK = IN_DELETE_SELF OR IN_MOVE_SELF"

record monitor_target =
  t_wd :: int
  t_sys_name :: string
  t_logic_name :: string

text \<open>The calls that change the file system.\<close>

datatype fs_call = FS_Mkdir string | FS_Unlink string | FS_System string | FS_Utime string u64

record monitor_table =
  mt_n :: int
  mt_head :: "ptr list"
  mt_targets :: "ptr list"
  mt_heap :: "monitor_target heap"
  mt_callocs :: "bool list"
  mt_masks :: "int \<Rightarrow> u32 option"
  mt_calls :: "fs_call list"

type_synonym kernel = "string \<Rightarrow> int"

text \<open>\<open>table->targets[wd]\<close>, read and written.\<close>

definition slot_get :: "monitor_table \<Rightarrow> int \<Rightarrow> ptr res" where
  "slot_get mt wd =
     (if 0 \<le> wd \<and> nat wd < WD_HASH_SIZE then Inr (mt_targets mt ! nat wd) else Inl Out_Of_Bounds)"

definition slot_set :: "int \<Rightarrow> ptr \<Rightarrow> monitor_table \<Rightarrow> monitor_table res" where
  "slot_set wd p mt =
     (if 0 \<le> wd \<and> nat wd < WD_HASH_SIZE
      then Inr (mt\<lparr>mt_targets := (mt_targets mt)[nat wd := p]\<rparr>) else Inl Out_Of_Bounds)"

definition inotify_add_watch :: "kernel \<Rightarrow> string \<Rightarrow> u32 \<Rightarrow> monitor_table \<Rightarrow> int \<times> monitor_table" where
  "inotify_add_watch K path flags mt =
     (if K path < 0 then (-1, mt) else (K path, mt\<lparr>mt_masks := (mt_masks mt)(K path \<mapsto> flags)\<rparr>))"

definition inotify_rm_watch :: "int \<Rightarrow> monitor_table \<Rightarrow> monitor_table" where
  "inotify_rm_watch wd mt = mt\<lparr>mt_masks := (mt_masks mt)(wd := None)\<rparr>"

definition unwatch_and_free_target :: "ptr \<Rightarrow> monitor_table \<Rightarrow> monitor_table res" where
  "unwatch_and_free_target p mt =
     (if p = NULL then Inr mt
      else ebind (hget (mt_heap mt) p) (\<lambda>t.
           ebind (slot_set (t_wd t) NULL mt) (\<lambda>mt.
           let mt = inotify_rm_watch (t_wd t) mt
           in Inr (mt\<lparr>mt_head := remove1 p (mt_head mt), mt_heap := hfree p (mt_heap mt)\<rparr>))))"

text \<open>The table is cleared in the end.\<close>

definition unwatch_and_free_targets :: "monitor_table \<Rightarrow> monitor_table res" where
  "unwatch_and_free_targets mt =
     ebind (efold unwatch_and_free_target (mt_head mt) mt) (\<lambda>mt.
       Inr (mt\<lparr>mt_n := 0, mt_head := [], mt_targets := replicate WD_HASH_SIZE NULL\<rparr>))"

definition watch_target_add :: "kernel \<Rightarrow> string \<Rightarrow> string \<Rightarrow> monitor_table \<Rightarrow> (ptr \<times> monitor_table) res" where
  "watch_target_add K sys_name logic_name mt =
     (let (wd, mt) = inotify_add_watch K sys_name DEFAULT_WATCH_MASK mt in
      if wd < 0 then Inr (NULL, mt)
      else ebind (slot_get mt wd) (\<lambda>p.
        if p \<noteq> NULL then Inr (p, mt)
        else case answer (mt_callocs mt) of
               (False, al) \<Rightarrow> Inr (NULL, mt\<lparr>mt_callocs := al\<rparr>)
             | (True, al) \<Rightarrow>
                 ebind (strcpy_name sys_name) (\<lambda>s.
                 ebind (strcpy_name logic_name) (\<lambda>l.
                 let (p, h) = hnew \<lparr>t_wd = wd, t_sys_name = s, t_logic_name = l\<rparr> (mt_heap mt) in
                 ebind (slot_set wd p (mt\<lparr>mt_heap := h, mt_callocs := al\<rparr>)) (\<lambda>mt.
                   Inr (p, mt\<lparr>mt_head := mt_head mt @ [p], mt_n := mt_n mt + 1\<rparr>))))))"

section \<open>The directory tree\<close>

text \<open>An entry as \<open>readdir\<close> lists it: its name, whether it is a directory, the time \<open>stat\<close> finds,
  whether \<open>opendir\<close> succeeds on it, and what it contains. The entries \<open>.\<close> and \<open>..\<close> are listed as
  well, as entries of these names.\<close>

datatype dirent = Dirent (d_name: string) (d_dir: bool) (d_mtime: "u64 option") (d_open: bool) (d_entries: "dirent list")

definition dots :: "string \<Rightarrow> bool" where
  "dots name \<longleftrightarrow> name = ''.'' \<or> name = ''..''"

text \<open>\<open>watch_target_add_dir\<close> and its loop over the entries. The result of \<open>watch_target_add\<close> is not
  looked at.\<close>

function (sequential) watch_target_add_dir ::
    "kernel \<Rightarrow> string \<Rightarrow> string \<Rightarrow> bool \<Rightarrow> dirent list \<Rightarrow> monitor_table \<Rightarrow> (int \<times> monitor_table) res"
  and watch_entries ::
    "kernel \<Rightarrow> string \<Rightarrow> string \<Rightarrow> int \<Rightarrow> dirent list \<Rightarrow> monitor_table \<Rightarrow> (int \<times> monitor_table) res" where
  "watch_target_add_dir K dir local_dir opens ds mt =
     ebind (watch_target_add K dir local_dir mt) (\<lambda>(_, mt).
       if \<not> opens then Inr (-1, mt) else watch_entries K dir local_dir 0 ds mt)"
| "watch_entries K dir local_dir ret [] mt = Inr (ret, mt)"
| "watch_entries K dir local_dir ret (Dirent name is_dir tm opens sub # ds) mt =
     (if is_dir
      then ebind (sprintf_path dir name) (\<lambda>new_dir.
           ebind (sprintf_path local_dir name) (\<lambda>new_local_dir.
           if dots name then watch_entries K dir local_dir ret ds mt
           else ebind (watch_target_add_dir K new_dir new_local_dir opens sub mt) (\<lambda>(r, mt).
                  watch_entries K dir local_dir (if r \<noteq> 0 \<or> ret \<noteq> 0 then 1 else 0) ds mt)))
      else watch_entries K dir local_dir ret ds mt)"
  by pat_completeness auto

termination
  by (relation "measure (\<lambda>x. case x of Inl (K, d, l, opens, ds, mt) \<Rightarrow> Suc (2 * size_list size ds)
        | Inr (K, d, l, ret, ds, mt) \<Rightarrow> 2 * size_list size ds)") auto

section \<open>The survey of the target directories\<close>

definition fe_modify :: "(file_entry \<Rightarrow> file_entry) \<Rightarrow> ptr \<Rightarrow> file_table \<Rightarrow> file_table res" where
  "fe_modify f p ft =
     ebind (hget (ft_heap ft) p) (\<lambda>fe. Inr (ft\<lparr>ft_heap := hput p (f fe) (ft_heap ft)\<rparr>))"

text \<open>\<open>stat\<close> failed: the timestamp stays as it is.\<close>

definition get_file_timestamp :: "u64 option \<Rightarrow> ptr \<Rightarrow> file_table \<Rightarrow> (int \<times> file_table) res" where
  "get_file_timestamp mtime p ft =
     (case mtime of
        None \<Rightarrow> Inr (-1, ft)
      | Some x \<Rightarrow> ebind (fe_modify (\<lambda>fe. fe\<lparr>fe_timestamp := x\<rparr>) p ft) (\<lambda>ft. Inr (0, ft)))"

definition me :: "u32 \<Rightarrow> peer_id" where
  "me my_ip = \<lparr>pid_ip = my_ip, pid_port = P2P_PORT\<rparr>"

text \<open>\<open>list_add\<close> puts the new owner in front.\<close>

definition add_me_to_peer_id_list :: "u32 \<Rightarrow> ptr \<Rightarrow> file_table \<Rightarrow> (int \<times> file_table) res" where
  "add_me_to_peer_id_list my_ip p ft =
     (case answer (ft_callocs ft) of
        (False, al) \<Rightarrow> Inr (-1, ft\<lparr>ft_callocs := al\<rparr>)
      | (True, al) \<Rightarrow>
          ebind (fe_modify (\<lambda>fe. fe\<lparr>fe_owners := me my_ip # fe_owners fe\<rparr>) p (ft\<lparr>ft_callocs := al\<rparr>)) (\<lambda>ft.
            Inr (0, ft)))"

text \<open>What the loop of \<open>get_file_table_r\<close> does with an entry other than \<open>.\<close> and \<open>..\<close> before it looks
  whether it is a directory.\<close>

definition survey_entry ::
    "u32 \<Rightarrow> string \<Rightarrow> string \<Rightarrow> string \<Rightarrow> u64 option \<Rightarrow> ptr \<Rightarrow> file_table \<Rightarrow> file_table res" where
  "survey_entry my_ip sys_name logic_name name mtime p ft =
     ebind (sprintf_path logic_name name) (\<lambda>l.
     ebind (fe_modify (\<lambda>fe. fe\<lparr>fe_name := l\<rparr>) p ft) (\<lambda>ft.
     ebind (sprintf_path sys_name name) (\<lambda>_.
     ebind (get_file_timestamp mtime p ft) (\<lambda>(_, ft).
     ebind (add_me_to_peer_id_list my_ip p ft) (\<lambda>(_, ft).
       file_entry_add ft p)))))"

function (sequential) get_file_table_r ::
    "u32 \<Rightarrow> string \<Rightarrow> string \<Rightarrow> bool \<Rightarrow> dirent list \<Rightarrow> file_table \<Rightarrow> (int \<times> file_table) res"
  and get_entries ::
    "u32 \<Rightarrow> string \<Rightarrow> string \<Rightarrow> int \<Rightarrow> dirent list \<Rightarrow> file_table \<Rightarrow> (int \<times> file_table) res" where
  "get_file_table_r my_ip sys_name logic_name opens ds ft =
     (if \<not> opens then Inr (-1, ft) else get_entries my_ip sys_name logic_name 0 ds ft)"
| "get_entries my_ip sys_name logic_name ret [] ft = Inr (ret, ft)"
| "get_entries my_ip sys_name logic_name ret (Dirent name is_dir mtime opens sub # ds) ft =
     (let (p, ft) = file_entry_alloc ft in
      if p = NULL then Inr (-1, ft)
      else ebind (if \<not> dots name then survey_entry my_ip sys_name logic_name name mtime p ft else Inr ft) (\<lambda>ft.
      ebind (fe_modify (\<lambda>fe. fe\<lparr>fe_type := ucast (if is_dir then DIRECTORY else REGULAR)\<rparr>) p ft) (\<lambda>ft.
      if is_dir \<and> \<not> dots name
      then ebind (get_file_table_r my_ip (sys_name @ slash # name) (logic_name @ slash # name) opens sub ft) (\<lambda>(r, ft).
             get_entries my_ip sys_name logic_name (if r \<noteq> 0 \<or> ret \<noteq> 0 then 1 else 0) ds ft)
      else get_entries my_ip sys_name logic_name ret ds ft)))"
  by pat_completeness auto

termination
  by (relation "measure (\<lambda>x. case x of Inl (my_ip, d, l, opens, ds, ft) \<Rightarrow> Suc (2 * size_list size ds)
        | Inr (my_ip, d, l, ret, ds, ft) \<Rightarrow> 2 * size_list size ds)") auto

text \<open>The number of a target directory in decimal, as \<open>sprintf(buf, "%d", i + 1)\<close> prints it.\<close>

fun decimal :: "nat \<Rightarrow> string" where
  "decimal n = (if n < 10 then [char_of (n + 48)] else decimal (n div 10) @ [char_of (n mod 10 + 48)])"

text \<open>A target directory: its name in the system, whether it can be opened, and what is in it.\<close>

type_synonym target = "string \<times> bool \<times> dirent list"

text \<open>The loop of \<open>get_file_table\<close> over the targets; the next one has the number \<open>i\<close>.\<close>

fun get_file_table_from :: "u32 \<Rightarrow> nat \<Rightarrow> target list \<Rightarrow> file_table \<Rightarrow> (int \<times> file_table) res" where
  "get_file_table_from my_ip i [] ft = Inr (0, ft)"
| "get_file_table_from my_ip i ((dir, opens, ds) # ts) ft =
     ebind (get_file_table_r my_ip dir (decimal i) opens ds ft) (\<lambda>(r, ft).
       if r < 0 then Inr (-1, ft) else get_file_table_from my_ip (Suc i) ts ft)"

definition get_file_table :: "u32 \<Rightarrow> target list \<Rightarrow> file_table \<Rightarrow> (int \<times> file_table) res" where
  "get_file_table my_ip ts ft = get_file_table_from my_ip 1 ts ft"

section \<open>Finding a target\<close>

fun find_logic :: "monitor_target heap \<Rightarrow> string \<Rightarrow> ptr list \<Rightarrow> ptr res" where
  "find_logic h name [] = Inr NULL"
| "find_logic h name (p # ps) =
     ebind (hget h p) (\<lambda>t. if t_logic_name t = name then Inr p else find_logic h name ps)"

definition get_dir_target :: "monitor_table \<Rightarrow> string \<Rightarrow> ptr res" where
  "get_dir_target mt dir = find_logic (mt_heap mt) dir (mt_head mt)"

text \<open>The name is cut at its last slash; without one, the null pointer is written to.\<close>

definition get_file_target :: "monitor_table \<Rightarrow> string \<Rightarrow> ptr res" where
  "get_file_target mt logic_name =
     (case rindex slash logic_name of
        None \<Rightarrow> Inl Bad_Pointer
      | Some i \<Rightarrow> find_logic (mt_heap mt) (take i logic_name) (mt_head mt))"

text \<open>\<open>sprintf(sys_name, "%s%s", target->sys_name, file)\<close>, where \<open>file\<close> starts at the last slash.\<close>

definition sys_name_in :: "monitor_table \<Rightarrow> string \<Rightarrow> ptr \<Rightarrow> string res" where
  "sys_name_in mt logic_name p =
     (case rindex slash logic_name of
        None \<Rightarrow> Inl Bad_Pointer
      | Some i \<Rightarrow> ebind (hget (mt_heap mt) p) (\<lambda>t. strcpy_name (t_sys_name t @ drop i logic_name)))"

text \<open>\<open>None\<close> stands for the null pointer. The allocation of the buffer is answered first.\<close>

definition get_sys_name :: "string \<Rightarrow> monitor_table \<Rightarrow> (string option \<times> monitor_table) res" where
  "get_sys_name logic_name mt =
     (case answer (mt_callocs mt) of
        (False, al) \<Rightarrow> Inr (None, mt\<lparr>mt_callocs := al\<rparr>)
      | (True, al) \<Rightarrow>
          (let mt = mt\<lparr>mt_callocs := al\<rparr> in
           ebind (get_file_target mt logic_name) (\<lambda>p.
             if p = NULL then Inr (None, mt)
             else ebind (sys_name_in mt logic_name p) (\<lambda>s. Inr (Some s, mt)))))"

definition monitor_get_sys_name :: "string \<Rightarrow> ptr \<Rightarrow> monitor_table \<Rightarrow> (string option \<times> monitor_table) res" where
  "monitor_get_sys_name logic_name p mt =
     (case answer (mt_callocs mt) of
        (False, al) \<Rightarrow> Inr (None, mt\<lparr>mt_callocs := al\<rparr>)
      | (True, al) \<Rightarrow>
          (let mt = mt\<lparr>mt_callocs := al\<rparr> in
           ebind (sys_name_in mt logic_name p) (\<lambda>s. Inr (Some s, mt))))"

section \<open>Blocking\<close>

definition watch_again :: "kernel \<Rightarrow> u32 \<Rightarrow> ptr \<Rightarrow> monitor_table \<Rightarrow> monitor_table res" where
  "watch_again K flags p mt =
     (if p = NULL then Inr mt
      else ebind (hget (mt_heap mt) p) (\<lambda>t.
        let (wd, mt) = inotify_add_watch K (t_sys_name t) flags mt
        in Inr (mt\<lparr>mt_heap := hput p (t\<lparr>t_wd := wd\<rparr>) (mt_heap mt)\<rparr>)))"

definition monitor_block :: "kernel \<Rightarrow> ptr \<Rightarrow> monitor_table \<Rightarrow> monitor_table res" where
  "monitor_block K p mt = watch_again K BLOCK_ALL_MASK p mt"

definition file_monitor_unblock :: "kernel \<Rightarrow> ptr \<Rightarrow> monitor_table \<Rightarrow> monitor_table res" where
  "file_monitor_unblock K p mt = watch_again K DEFAULT_WATCH_MASK p mt"

text \<open>The positions of the slashes of a name.\<close>

definition slashes :: "string \<Rightarrow> nat list" where
  "slashes s = filter (\<lambda>i. s ! i = slash) [0..<length s]"

text \<open>The first loop of \<open>file_monitor_block\<close>: the last of the prefixes that end at a slash, but the
  longest one, which has a target.\<close>

fun deepest :: "monitor_table \<Rightarrow> string \<Rightarrow> nat list \<Rightarrow> ptr \<Rightarrow> ptr res" where
  "deepest mt logic_name [] p = Inr p"
| "deepest mt logic_name (i # is') p =
     ebind (find_logic (mt_heap mt) (take i logic_name) (mt_head mt)) (\<lambda>q.
       deepest mt logic_name is' (if q \<noteq> NULL then q else p))"

text \<open>The second loop: one round for a component of the path that is missing below the target.\<close>

definition make_dir :: "kernel \<Rightarrow> string \<Rightarrow> ptr \<times> monitor_table \<Rightarrow> (ptr \<times> monitor_table) res" where
  "make_dir K name = (\<lambda>(p, mt).
     ebind (hget (mt_heap mt) p) (\<lambda>t.
     ebind (sprintf_path (t_sys_name t) name) (\<lambda>sys_dir.
     ebind (sprintf_path (t_logic_name t) name) (\<lambda>logic_dir.
     ebind (monitor_block K p mt) (\<lambda>mt.
     ebind (file_monitor_unblock K p (mt\<lparr>mt_calls := mt_calls mt @ [FS_Mkdir sys_dir]\<rparr>)) (\<lambda>mt.
       watch_target_add K sys_dir logic_dir mt))))))"

text \<open>The components of a path that are ended by a slash.\<close>

fun components :: "string \<Rightarrow> string \<Rightarrow> string list" where
  "components acc [] = []"
| "components acc (c # cs) = (if c = slash then acc # components [] cs else components (acc @ [c]) cs)"

definition file_monitor_block :: "kernel \<Rightarrow> string \<Rightarrow> bool \<Rightarrow> monitor_table \<Rightarrow> (ptr \<times> monitor_table) res" where
  "file_monitor_block K logic_name del mt =
     (if index_of slash logic_name = None then Inr (NULL, mt)
      else ebind (get_file_target mt logic_name) (\<lambda>p.
        ebind (if del \<or> p \<noteq> NULL then Inr (Some p, mt)
               else ebind (deepest mt logic_name (butlast (slashes logic_name)) p) (\<lambda>p.
                 if p = NULL then Inr (None, mt)
                 else ebind (hget (mt_heap mt) p) (\<lambda>t.
                   ebind (efold (make_dir K) (components [] (drop (length (t_logic_name t) + 1) logic_name)) (p, mt))
                     (\<lambda>(p, mt). Inr (Some p, mt))))) (\<lambda>(found, mt).
          case found of
            None \<Rightarrow> Inr (NULL, mt)
          | Some p \<Rightarrow> if p = NULL then Inl Bad_Pointer
                      else ebind (monitor_block K p mt) (\<lambda>mt. Inr (p, mt)))))"

section \<open>Changes of the file system\<close>

text \<open>\<open>made\<close> says whether \<open>mkdir\<close> succeeds.\<close>

definition file_monitor_mkdir ::
    "kernel \<Rightarrow> bool \<Rightarrow> string \<Rightarrow> string \<Rightarrow> monitor_table \<Rightarrow> (int \<times> monitor_table) res" where
  "file_monitor_mkdir K made sys_name logic_name mt =
     (let mt = mt\<lparr>mt_calls := mt_calls mt @ [FS_Mkdir sys_name]\<rparr> in
      if \<not> made then Inr (-1, mt)
      else ebind (watch_target_add K sys_name logic_name mt) (\<lambda>(p, mt).
        Inr (if p = NULL then -1 else 0, mt)))"

text \<open>\<open>file_monitor_rmdir\<close> gives a command line to \<open>system\<close>, in which the name is not quoted. Its result is set only when no target
  is found, and never used.\<close>

definition rm_command :: "string \<Rightarrow> string" where
  "rm_command sys_name = ''rm -r '' @ sys_name"

definition MAX_LINE :: nat where
  "MAX_LINE = 1024"

definition file_monitor_rmdir :: "string \<Rightarrow> string \<Rightarrow> monitor_table \<Rightarrow> monitor_table res" where
  "file_monitor_rmdir sys_name logic_name mt =
     (if length (rm_command sys_name) < MAX_LINE
      then let mt = mt\<lparr>mt_calls := mt_calls mt @ [FS_System (rm_command sys_name)]\<rparr> in
           ebind (get_dir_target mt logic_name) (\<lambda>p.
             if p = NULL then Inr mt else unwatch_and_free_target p mt)
      else Inl Out_Of_Bounds)"

definition file_change_modtime :: "string \<Rightarrow> u64 \<Rightarrow> monitor_table \<Rightarrow> monitor_table" where
  "file_change_modtime sys_name modtime mt = mt\<lparr>mt_calls := mt_calls mt @ [FS_Utime sys_name modtime]\<rparr>"

section \<open>Events\<close>

text \<open>An event as \<open>read\<close> delivers it. When \<open>ev_len\<close> is 0 there is no name, and \<open>ev_name\<close> is what the
  memory behind the event holds.\<close>

record inotify_event =
  ev_wd :: int
  ev_mask :: u32
  ev_len :: nat
  ev_name :: string

definition has_flag :: "inotify_event \<Rightarrow> u32 \<Rightarrow> bool" where
  "has_flag ev f \<longleftrightarrow> ev_mask ev AND f \<noteq> 0"

text \<open>The file an editor creates to try whether the directory can be written to.\<close>

definition tricky_string :: "string \<Rightarrow> bool" where
  "tricky_string sys_name =
     (case rindex slash sys_name of None \<Rightarrow> False | Some i \<Rightarrow> drop (Suc i) sys_name = ''4913'')"

definition get_trans_timestamp :: "u64 option \<Rightarrow> trans_file_entry \<Rightarrow> int \<times> trans_file_entry" where
  "get_trans_timestamp mtime te =
     (case mtime of None \<Rightarrow> (-1, te) | Some x \<Rightarrow> (0, te\<lparr>te_timestamp := x\<rparr>))"

text \<open>The chain of conditionals in \<open>handle_event\<close>: the kind of the operation, whether the target goes
  away with it, and the value of \<open>ret\<close>.\<close>

definition classify :: "inotify_event \<Rightarrow> u16 \<times> bool \<times> int" where
  "classify ev =
     (if has_flag ev IN_CREATE then (FILE_ADD, False, 0)
      else if has_flag ev IN_DELETE then (FILE_DELETE, False, 0)
      else if has_flag ev IN_DELETE_SELF then (FILE_DELETE, True, 0)
      else if has_flag ev IN_MODIFY then (FILE_MODIFY, False, 0)
      else if has_flag ev IN_MOVE_SELF then (FILE_DELETE, True, 0)
      else if has_flag ev IN_MOVED_FROM then (FILE_DELETE, False, 0)
      else if has_flag ev IN_MOVED_TO then (FILE_ADD, False, 0)
      else if has_flag ev IN_ATTRIB then (FILE_MODIFY, False, 0)
      else (FILE_NONE, False, -1))"

text \<open>\<open>te->owners[te->owner_n++] = me\<close>\<close>

definition append_me :: "u32 \<Rightarrow> trans_file_entry \<Rightarrow> trans_file_entry res" where
  "append_me my_ip te =
     (if unat (te_owner_n te) < MAX_PEER_ENTRIES
      then Inr (te\<lparr>te_owners := (te_owners te)[unat (te_owner_n te) := me my_ip], te_owner_n := te_owner_n te + 1\<rparr>)
      else Inl Out_Of_Bounds)"

definition apply_op :: "trans_file_entry \<Rightarrow> file_table \<Rightarrow> file_table res" where
  "apply_op te ft =
     (if te_op_type te = FILE_ADD then ebind (file_table_add ft te) (\<lambda>(_, ft). Inr ft)
      else if te_op_type te = FILE_MODIFY then ebind (file_table_update ft te) (\<lambda>(_, ft). Inr ft)
      else if te_op_type te = FILE_DELETE then ebind (file_table_delete ft te) (\<lambda>(_, ft). Inr ft)
      else Inr ft)"

definition handle_event ::
    "u32 \<Rightarrow> kernel \<Rightarrow> (string \<Rightarrow> u64 option) \<Rightarrow> inotify_event \<Rightarrow> trans_file_entry \<Rightarrow> string \<Rightarrow>
     monitor_table \<times> file_table \<Rightarrow> (int \<times> trans_file_entry \<times> monitor_table \<times> file_table) res" where
  "handle_event my_ip K st ev te sys_name = (\<lambda>(mt, ft).
     if tricky_string sys_name then Inr (0, te, mt, ft)
     else
       ebind (slot_get mt (ev_wd ev)) (\<lambda>p.
       let (op_type, self, ret) = classify ev;
           te = te\<lparr>te_op_type := op_type,
                   te_file_type := if self \<or> has_flag ev IN_ISDIR then DIRECTORY else REGULAR\<rparr> in
       ebind (if self then unwatch_and_free_target p mt else Inr mt) (\<lambda>mt.
       ebind (if op_type = FILE_ADD \<and> te_file_type te = DIRECTORY
              then ebind (watch_target_add K sys_name (te_name te) mt) (\<lambda>(_, mt). Inr mt) else Inr mt) (\<lambda>mt.
       let (ret, te) = (if op_type \<noteq> FILE_DELETE \<and> op_type \<noteq> FILE_NONE
                        then get_trans_timestamp (st sys_name) te else (ret, te)) in
       ebind (append_me my_ip te) (\<lambda>te.
       ebind (apply_op te ft) (\<lambda>ft.
         Inr (ret, te, mt, ft)))))))"

text \<open>The logic name and the system name an event is about.\<close>

definition event_names :: "inotify_event \<Rightarrow> monitor_target \<Rightarrow> (string \<times> string) res" where
  "event_names ev t =
     (if ev_len ev \<noteq> 0
      then ebind (sprintf_path (t_logic_name t) (ev_name ev)) (\<lambda>l.
           ebind (sprintf_path (t_sys_name t) (ev_name ev)) (\<lambda>s. Inr (l, s)))
      else ebind (strcpy_name (t_logic_name t)) (\<lambda>l.
           ebind (strcpy_name (ev_name ev)) (\<lambda>s. Inr (l, s))))"

text \<open>One round of the loop over the events of a buffer. An entry that does not count is not
  cleared: the next event is written over it.\<close>

definition monitor_event ::
    "u32 \<Rightarrow> kernel \<Rightarrow> (string \<Rightarrow> u64 option) \<Rightarrow> inotify_event \<Rightarrow>
     trans_file_table \<times> monitor_table \<times> file_table \<Rightarrow> (trans_file_table \<times> monitor_table \<times> file_table) res" where
  "monitor_event my_ip K st ev = (\<lambda>(tft, mt, ft).
     ebind (slot_get mt (ev_wd ev)) (\<lambda>p.
       if p = NULL then Inr (tft, mt, ft)
       else
         ebind (hget (mt_heap mt) p) (\<lambda>t.
         ebind (tft_get tft (nat (tft_n tft))) (\<lambda>te.
         ebind (event_names ev t) (\<lambda>(l, new_name).
         ebind (handle_event my_ip K st ev (te\<lparr>te_name := l\<rparr>) new_name (mt, ft)) (\<lambda>(r, te, mt, ft).
         ebind (tft_set (nat (tft_n tft)) te tft) (\<lambda>tft.
           Inr (if r \<noteq> 0 then tft else tft\<lparr>tft_n := tft_n tft + 1\<rparr>, mt, ft))))))))"

text \<open>The loop ends early when the table is full.\<close>

definition monitor_round ::
    "u32 \<Rightarrow> kernel \<Rightarrow> (string \<Rightarrow> u64 option) \<Rightarrow> inotify_event \<Rightarrow>
     trans_file_table \<times> monitor_table \<times> file_table \<Rightarrow> (trans_file_table \<times> monitor_table \<times> file_table) res" where
  "monitor_round my_ip K st ev s =
     (if tft_n (fst s) < int MAX_FILE_ENTRIES then monitor_event my_ip K st ev s else Inr s)"

text \<open>The body of the endless loop of \<open>file_monitor_task\<close> for the events of one \<open>read\<close>: the table starts
  empty and is sent in the end, whatever it holds. The result of sending is not looked at.\<close>

definition monitor_batch ::
    "u32 \<Rightarrow> kernel \<Rightarrow> (string \<Rightarrow> u64 option) \<Rightarrow> inotify_event list \<Rightarrow>
     monitor_table \<times> file_table \<times> sock \<Rightarrow> (monitor_table \<times> file_table \<times> sock) res" where
  "monitor_batch my_ip K st evs = (\<lambda>(mt, ft, s).
     ebind (efold (monitor_round my_ip K st) evs (tft_zero, mt, ft)) (\<lambda>(tft, mt, ft).
     ebind (ptot_packet_fill (ptot_packet_init my_ip PEER_FILE_UPDATE) (table_bytes tft)
             (sint (ucast (trans_table_len tft) :: u32))) (\<lambda>pkt.
       Inr (mt, ft, snd (send_ptot_packet pkt s)))))"

text \<open>What \<open>file_monitor_task\<close> does before that loop: it watches the target directories. The value of
  \<open>ret\<close>, which is 1 in the beginning, is combined with \<open>&&\<close>; it has to be 0 in the end.\<close>

fun watch_targets_from ::
    "kernel \<Rightarrow> nat \<Rightarrow> target list \<Rightarrow> int \<Rightarrow> monitor_table \<Rightarrow> (int \<times> monitor_table) res" where
  "watch_targets_from K i [] ret mt = Inr (ret, mt)"
| "watch_targets_from K i ((dir, opens, ds) # ts) ret mt =
     ebind (watch_target_add_dir K dir (decimal i) opens ds mt) (\<lambda>(r, mt).
       watch_targets_from K (Suc i) ts (if r \<noteq> 0 \<and> ret \<noteq> 0 then 1 else 0) mt)"

definition mt_start :: monitor_table where
  "mt_start = \<lparr>mt_n = 0, mt_head = [], mt_targets = replicate WD_HASH_SIZE NULL, mt_heap = heap_empty,
     mt_callocs = [], mt_masks = (\<lambda>_. None), mt_calls = []\<rparr>"

text \<open>\<open>True\<close> when the thread reports \<open>THREAD_RUNNING\<close> and enters its loop; otherwise it reports
  \<open>THREAD_FAILED\<close> and clears the table.\<close>

definition monitor_init :: "kernel \<Rightarrow> target list \<Rightarrow> bool list \<Rightarrow> (bool \<times> monitor_table) res" where
  "monitor_init K ts al =
     ebind (watch_targets_from K 1 ts 1 (mt_start\<lparr>mt_callocs := al\<rparr>)) (\<lambda>(ret, mt).
       if ret \<noteq> 0 then ebind (unwatch_and_free_targets mt) (\<lambda>mt. Inr (False, mt)) else Inr (True, mt))"

end
