(* ===== verification/Download.thy ===== *)
theory Download
  imports Wire "HOL-Library.Signed_Division"
begin

text \<open>
  The download of a file in pieces (\<open>client/download.c\<close>): the piece table the download threads
  share, the loops around \<open>read\<close> and \<open>write\<close>, the body of a download thread and the decision of
  \<open>do_download\<close>. The threads are interleaved at the points where they take a piece and where they
  are done with it, which are the sections under the mutex of the object.
\<close>

section \<open>The piece table\<close>

datatype piece_status = PIECE_AVAILABLE | PIECE_DOWNLOADNG | PIECE_FINISHED

record download_obj =
  ob_logic_name :: string
  ob_sys_name :: string
  ob_file_len :: int
  ob_file_pieces :: int
  ob_piece_flags :: "piece_status list"

definition download_obj_init :: "string \<Rightarrow> string \<Rightarrow> download_obj res" where
  "download_obj_init logic_name sys_name =
     ebind (strcpy_name logic_name) (\<lambda>l. ebind (strcpy_name sys_name) (\<lambda>s.
       Inr \<lparr>ob_logic_name = l, ob_sys_name = s, ob_file_len = 0, ob_file_pieces = 0, ob_piece_flags = []\<rparr>))"

text \<open>The loop of \<open>get_new_piece\<close>: \<open>k\<close> iterations are left, the next one is for piece \<open>i\<close>.\<close>

fun get_new_piece_from :: "nat \<Rightarrow> nat \<Rightarrow> piece_status list \<Rightarrow> (int \<times> piece_status list) res" where
  "get_new_piece_from 0 i flags = Inr (-1, flags)"
| "get_new_piece_from (Suc k) i flags =
     (if i < length flags
      then if flags ! i = PIECE_AVAILABLE then Inr (int i, flags[i := PIECE_DOWNLOADNG])
           else get_new_piece_from k (Suc i) flags
      else Inl Out_Of_Bounds)"

definition get_new_piece :: "download_obj \<Rightarrow> (int \<times> download_obj) res" where
  "get_new_piece obj =
     ebind (get_new_piece_from (nat (ob_file_pieces obj)) 0 (ob_piece_flags obj)) (\<lambda>(i, flags).
       Inr (i, obj\<lparr>ob_piece_flags := flags\<rparr>))"

definition set_flag :: "piece_status \<Rightarrow> int \<Rightarrow> download_obj \<Rightarrow> download_obj res" where
  "set_flag st i obj =
     (if 0 \<le> i \<and> nat i < length (ob_piece_flags obj)
      then Inr (obj\<lparr>ob_piece_flags := (ob_piece_flags obj)[nat i := st]\<rparr>) else Inl Out_Of_Bounds)"

definition mark_piece_finished :: "download_obj \<Rightarrow> int \<Rightarrow> download_obj res" where
  "mark_piece_finished obj i = set_flag PIECE_FINISHED i obj"

definition mark_piece_failed :: "download_obj \<Rightarrow> int \<Rightarrow> download_obj res" where
  "mark_piece_failed obj i = set_flag PIECE_AVAILABLE i obj"

section \<open>Reading and writing\<close>

text \<open>What the calls of \<open>read\<close> give: failure, or some bytes (at most as many as asked for are
  taken); when the list is used up, every call returns 0. \<open>write\<close> fails or takes a number of bytes;
  when the list is used up it takes all.\<close>

datatype read_reply = Read_Error | Read_Bytes "u8 list"
datatype write_reply = Write_Error | Wrote nat

text \<open>The loops with the number of tries left and the bytes transferred so far. In \<open>my_read\<close> a
  result of 0 is tolerated ten times; the eleventh ends the loop. In \<open>my_write\<close> the first one does.\<close>

fun read_loop :: "nat \<Rightarrow> nat \<Rightarrow> u8 list \<Rightarrow> read_reply list \<Rightarrow> u8 list" where
  "read_loop try_n len buf [] = buf"
| "read_loop try_n len buf (r # rs) =
     (if length buf < len
      then (case r of
              Read_Error \<Rightarrow> buf
            | Read_Bytes bs \<Rightarrow>
                (let bs = take (len - length buf) bs in
                 if bs = [] then (if try_n = 0 then buf else read_loop (try_n - 1) len buf rs)
                 else read_loop try_n len (buf @ bs) rs))
      else buf)"

definition my_read :: "nat \<Rightarrow> read_reply list \<Rightarrow> int \<times> u8 list" where
  "my_read len rs = (let buf = read_loop 10 len [] rs in (int (length buf), buf))"

fun write_loop :: "nat \<Rightarrow> u8 list \<Rightarrow> write_reply list \<Rightarrow> nat" where
  "write_loop n data [] = length data"
| "write_loop n data (r # rs) =
     (if n < length data
      then (case r of
              Write_Error \<Rightarrow> n
            | Wrote k \<Rightarrow> (let k = min k (length data - n) in
                 if k = 0 then n else write_loop (n + k) data rs))
      else n)"

definition my_write :: "u8 list \<Rightarrow> write_reply list \<Rightarrow> nat" where
  "my_write data rs = write_loop 0 data rs"

text \<open>A regular file: a write behind the end fills the gap with zeros.\<close>

definition file_put :: "nat \<Rightarrow> u8 list \<Rightarrow> u8 list \<Rightarrow> u8 list" where
  "file_put off data f =
     (if data = [] then f
      else take off (f @ replicate (off - length f) 0) @ data @ drop (off + length data) f)"

section \<open>Questions to the owner\<close>

definition P2P_FILE_LEN_REQ :: u16 where "P2P_FILE_LEN_REQ = 0"
definition P2P_PORT_REQ :: u16 where "P2P_PORT_REQ = 1"
definition P2P_PIECE_REQ :: u16 where "P2P_PIECE_REQ = 2"
definition P2P_FINISH :: u16 where "P2P_FINISH = 3"
definition P2P_FILE_LEN_RET :: u16 where "P2P_FILE_LEN_RET = 4"
definition P2P_PORT_RET :: u16 where "P2P_PORT_RET = 5"
definition P2P_PIECE_RET :: u16 where "P2P_PIECE_RET = 6"

lemmas p2p_type_defs = P2P_FILE_LEN_REQ_def P2P_PORT_REQ_def P2P_PIECE_REQ_def P2P_FINISH_def
  P2P_FILE_LEN_RET_def P2P_PORT_RET_def P2P_PIECE_RET_def

text \<open>A request for a file by its name, with the terminating zero, and its answer: \<open>input\<close> is what
  arrives on the connection. \<open>None\<close> stands for the three ways in which the exchange fails.\<close>

definition ask_owner :: "u16 \<Rightarrow> u16 \<Rightarrow> string \<Rightarrow> sock \<Rightarrow> u8 list \<Rightarrow> (p2p_packet option \<times> sock \<times> u8 list) res" where
  "ask_owner req ret name s input =
     ebind (p2p_packet_fill (p2p_packet_init req) (map byte_of_char name @ [0]) (int (length name) + 1)) (\<lambda>pkt.
     let (r, s) = send_p2p_packet pkt s in
     if r < 0 then Inr (None, s, input)
     else ebind (recv_p2p_packet input pkt) (\<lambda>(r, pkt, input).
       if r < 0 then Inr (None, s, input)
       else if pp_type pkt \<noteq> ret then Inr (None, s, input)
       else Inr (Some pkt, s, input)))"

text \<open>\<open>connected\<close> is false when the socket or the connection could not be had.\<close>

definition get_file_len_from :: "bool \<Rightarrow> string \<Rightarrow> sock \<Rightarrow> u8 list \<Rightarrow> u32 res" where
  "get_file_len_from connected file_name s input =
     (if \<not> connected then Inr (-1)
      else ebind (ask_owner P2P_FILE_LEN_REQ P2P_FILE_LEN_RET file_name s input) (\<lambda>(answer, s, input).
        Inr (case answer of None \<Rightarrow> -1 | Some pkt \<Rightarrow> get_le (field 0 4 (pp_data pkt)))))"

definition get_p2p_download_port :: "string \<Rightarrow> sock \<Rightarrow> u8 list \<Rightarrow> (int \<times> sock \<times> u8 list) res" where
  "get_p2p_download_port logic_name s input =
     ebind (ask_owner P2P_PORT_REQ P2P_PORT_RET logic_name s input) (\<lambda>(answer, s, input).
       let port = (case answer of None \<Rightarrow> -1 | Some pkt \<Rightarrow> get_le (field 0 2 (pp_data pkt))) :: u16
       in Inr (uint port, s, input))"

section \<open>A download thread\<close>

text \<open>The length asked for: the piece length, or what is left for the last piece.\<close>

definition req_len :: "int \<Rightarrow> download_obj \<Rightarrow> int \<Rightarrow> int" where
  "req_len piece_len obj piece_id =
     (if piece_id = ob_file_pieces obj - 1
      then ob_file_len obj - piece_len * (ob_file_pieces obj - 1) else piece_len)"

text \<open>Where a thread is: before its loop, in the loop without a piece, with a piece it has asked
  for, or finished with its exit value.\<close>

datatype dl_thread = DT_Init | DT_Loop | DT_Piece nat | DT_Exit int

record dl_state =
  ds_obj :: download_obj
  ds_file :: "u8 list"
  ds_threads :: "dl_thread list"

text \<open>The steps of \<open>piece_download_task\<close>: what happens before the loop (the owner is the peer
  itself; a connection, the buffer or the file could not be had; all went well), the next call of
  \<open>get_new_piece\<close>, a request that could not be sent, and a request with what \<open>read\<close> and \<open>write\<close>
  did. The value of \<open>my_write\<close> is not looked at.\<close>

datatype dl_event =
    DL_Self nat
  | DL_Abort nat
  | DL_Ready nat
  | DL_Next nat
  | DL_Send_Fail nat
  | DL_Transfer nat "read_reply list" "write_reply list"

definition set_thread :: "nat \<Rightarrow> dl_thread \<Rightarrow> dl_state \<Rightarrow> dl_state" where
  "set_thread t x s = s\<lparr>ds_threads := (ds_threads s)[t := x]\<rparr>"

definition dl_at :: "nat \<Rightarrow> dl_state \<Rightarrow> dl_thread option" where
  "dl_at t s = (if t < length (ds_threads s) then Some (ds_threads s ! t) else None)"

definition next_piece :: "nat \<Rightarrow> dl_state \<Rightarrow> dl_state res" where
  "next_piece t s =
     ebind (get_new_piece (ds_obj s)) (\<lambda>(i, obj).
       Inr (set_thread t (if i \<ge> 0 then DT_Piece (nat i) else DT_Exit 0) (s\<lparr>ds_obj := obj\<rparr>)))"

definition piece_failed :: "nat \<Rightarrow> nat \<Rightarrow> dl_state \<Rightarrow> dl_state res" where
  "piece_failed t i s =
     ebind (mark_piece_failed (ds_obj s) (int i)) (\<lambda>obj.
       Inr (set_thread t (DT_Exit (-1)) (s\<lparr>ds_obj := obj\<rparr>)))"

definition transfer :: "int \<Rightarrow> nat \<Rightarrow> nat \<Rightarrow> read_reply list \<Rightarrow> write_reply list \<Rightarrow> dl_state \<Rightarrow> dl_state res" where
  "transfer piece_len t i rs ws s =
     (let len = req_len piece_len (ds_obj s) (int i);
          (ret_len, buf) = my_read (nat len) rs
      in if ret_len \<noteq> len then piece_failed t i s
         else let n = my_write buf ws;
                  s = s\<lparr>ds_file := file_put (nat (int i * piece_len)) (take n buf) (ds_file s)\<rparr>
              in ebind (mark_piece_finished (ds_obj s) (int i)) (\<lambda>obj.
                   Inr (set_thread t DT_Loop (s\<lparr>ds_obj := obj\<rparr>))))"

fun piece_download_task :: "int \<Rightarrow> dl_event \<Rightarrow> dl_state \<Rightarrow> dl_state res" where
  "piece_download_task pl (DL_Self t) s =
     (if dl_at t s = Some DT_Init then Inr (set_thread t (DT_Exit 0) s) else Inr s)"
| "piece_download_task pl (DL_Abort t) s =
     (if dl_at t s = Some DT_Init then Inr (set_thread t (DT_Exit (-1)) s) else Inr s)"
| "piece_download_task pl (DL_Ready t) s =
     (if dl_at t s = Some DT_Init then Inr (set_thread t DT_Loop s) else Inr s)"
| "piece_download_task pl (DL_Next t) s =
     (if dl_at t s = Some DT_Loop then next_piece t s else Inr s)"
| "piece_download_task pl (DL_Send_Fail t) s =
     (case dl_at t s of Some (DT_Piece i) \<Rightarrow> piece_failed t i s | _ \<Rightarrow> Inr s)"
| "piece_download_task pl (DL_Transfer t rs ws) s =
     (case dl_at t s of Some (DT_Piece i) \<Rightarrow> transfer pl t i rs ws s | _ \<Rightarrow> Inr s)"

section \<open>The download as a whole\<close>

text \<open>\<open>get_file_len_from\<close> returns an \<open>uint32_t\<close>, -1 when anything failed; it is stored in an \<open>int\<close>.
  The number of pieces \<open>(obj.file_len + piece_len - 1) / piece_len\<close> is computed in \<open>int\<close>, one operation
  after the other: a sum above \<open>2 ^ 31 - 1\<close> is undefined behaviour. The division is the one of C, which
  rounds towards zero.\<close>

definition file_pieces_of :: "int \<Rightarrow> int \<Rightarrow> int res" where
  "file_pieces_of file_len piece_len =
     ebind (c_int (file_len + piece_len)) (\<lambda>x. ebind (c_int (x - 1)) (\<lambda>x.
       if piece_len = 0 then Inl Div_By_Zero else c_int (x sdiv piece_len)))"

text \<open>The object and the threads when the threads start; the file has been truncated.\<close>

definition download_begin :: "string \<Rightarrow> string \<Rightarrow> u32 \<Rightarrow> int \<Rightarrow> nat \<Rightarrow> dl_state res" where
  "download_begin logic_name sys_name len piece_len owner_n =
     ebind (download_obj_init logic_name sys_name) (\<lambda>obj.
     ebind (file_pieces_of (sint len) piece_len) (\<lambda>k.
       Inr \<lparr>ds_obj = obj\<lparr>ob_file_len := sint len, ob_file_pieces := k,
                        ob_piece_flags := replicate (nat k) PIECE_AVAILABLE\<rparr>,
            ds_file = [], ds_threads = replicate owner_n DT_Init\<rparr>))"

text \<open>The loop over \<open>pthread_join\<close>: \<open>ret = status && ret\<close>.\<close>

definition join_status :: "int \<Rightarrow> int \<Rightarrow> int" where
  "join_status status ret = (if status \<noteq> 0 \<and> ret \<noteq> 0 then 1 else 0)"

definition download_result :: "int list \<Rightarrow> int" where
  "download_result statuses = fold join_status statuses (-1)"

definition exit_values :: "dl_state \<Rightarrow> int list" where
  "exit_values s = concat (map (\<lambda>x. case x of DT_Exit r \<Rightarrow> [r] | _ \<Rightarrow> []) (ds_threads s))"

definition all_exited :: "dl_state \<Rightarrow> bool" where
  "all_exited s \<longleftrightarrow> list_all (\<lambda>x. case x of DT_Exit r \<Rightarrow> True | _ \<Rightarrow> False) (ds_threads s)"

text \<open>The loop that starts the threads: one for each owner, as long as their arguments can be
  allocated. The first failure ends the loop, with the lock of the entry still held.\<close>

fun download_threads :: "bool list \<Rightarrow> peer_id list \<Rightarrow> nat" where
  "download_threads al [] = 0"
| "download_threads al (p # ps) =
     (case answer al of (False, al) \<Rightarrow> 0 | (True, al) \<Rightarrow> Suc (download_threads al ps))"

text \<open>
  The whole of \<open>do_download\<close> for an entry with the given name and owners, on a file that holds \<open>f\<close>:
  \<open>opened\<close> says whether the file can be opened, \<open>connected\<close>, \<open>s\<close> and \<open>input\<close> belong to the question
  for the length, \<open>evs\<close> is what the threads do. The result is the value returned and what the file holds
  then; \<open>None\<close> while \<open>pthread_join\<close> still waits. A negative number of pieces is a size no
  allocation can serve.
\<close>

definition do_download ::
    "bool \<Rightarrow> bool \<Rightarrow> sock \<Rightarrow> u8 list \<Rightarrow> int \<Rightarrow> bool list \<Rightarrow> dl_event list \<Rightarrow> string \<Rightarrow> peer_id list \<Rightarrow> string \<Rightarrow>
     u8 list option \<Rightarrow> (int \<times> u8 list option) option res" where
  "do_download opened connected s input piece_len al evs name owners sys_name f =
     (if \<not> opened then Inr (Some (-1, f))
      else if owners = [] then Inr (Some (-1, Some []))
      else ebind (download_obj_init name sys_name) (\<lambda>_.
           ebind (get_file_len_from connected name s input) (\<lambda>len.
           ebind (file_pieces_of (sint len) piece_len) (\<lambda>k.
             if k < 0 then Inr (Some (-1, Some []))
             else case answer al of
                (False, al) \<Rightarrow> Inr (Some (-1, Some []))
              | (True, al) \<Rightarrow> (case answer al of
                (False, al) \<Rightarrow> Inr (Some (-1, Some []))
              | (True, al) \<Rightarrow>
                  ebind (download_begin name sys_name len piece_len (download_threads al owners)) (\<lambda>ds.
                  ebind (efold (piece_download_task piece_len) evs ds) (\<lambda>ds.
                    Inr (if all_exited ds
                         then Some (download_result (exit_values ds), Some (ds_file ds)) else None))))))))"

end
