(* ===== verification/PeerTable.thy ===== *)
theory PeerTable
  imports FileTable
begin

text \<open>
  The peers the tracker knows (\<open>server/peer_table.c\<close>, \<open>server/peer_table.h\<close>): a linked list of
  heap-allocated entries, the newest in front, and their number. The operations are shown to
  refine operations on the plain list of entries. Each operation runs under the table mutex, hence as a whole;
  a pointer that \<open>peer_table_find\<close> returned is used in a critical section of its own (\<open>peer_touch\<close>), and the entry may
  have been freed by then.
\<close>

section \<open>Data and operations\<close>

record peer_entry =
  pe_conn :: int
  pe_timestamp :: u64
  pe_peerid :: peer_id
  pe_tid :: nat

text \<open>The list hanging at \<open>peer_head\<close> is the sequence of its nodes, as in the theory of linked
  lists.\<close>

record peer_table =
  peer_num :: int
  peer_head :: "ptr list"
  pt_heap :: "peer_entry heap"
  pt_callocs :: "bool list"

definition pe_zero :: peer_entry where
  "pe_zero = \<lparr>pe_conn = 0, pe_timestamp = 0, pe_peerid = pid_zero, pe_tid = 0\<rparr>"

text \<open>\<open>now\<close> is what \<open>gettimeofday\<close> says, in microseconds.\<close>

definition peer_entry_alloc :: "u64 \<Rightarrow> peer_table \<Rightarrow> ptr \<times> peer_table" where
  "peer_entry_alloc now pt =
     (case answer (pt_callocs pt) of
        (False, al) \<Rightarrow> (NULL, pt\<lparr>pt_callocs := al\<rparr>)
      | (True, al) \<Rightarrow>
          (let (p, h) = hnew (pe_zero\<lparr>pe_timestamp := now\<rparr>) (pt_heap pt)
           in (p, pt\<lparr>pt_heap := h, pt_callocs := al\<rparr>)))"

definition peer_table_init :: "peer_table \<Rightarrow> peer_table" where
  "peer_table_init pt = pt\<lparr>peer_num := 0, peer_head := []\<rparr>"

definition peer_table_add :: "peer_table \<Rightarrow> ptr \<Rightarrow> int \<times> peer_table" where
  "peer_table_add pt p = (0, pt\<lparr>peer_head := p # peer_head pt, peer_num := peer_num pt + 1\<rparr>)"

text \<open>The loops stop at the first entry that matches. The address of the deleted peer is
  returned as an \<open>int\<close>.\<close>

fun delete_conn :: "int \<Rightarrow> ptr list \<Rightarrow> peer_table \<Rightarrow> (int \<times> peer_table) res" where
  "delete_conn conn [] pt = Inr (-1, pt)"
| "delete_conn conn (p # ps) pt =
     ebind (hget (pt_heap pt) p) (\<lambda>pe.
       if pe_conn pe = conn
       then Inr (sint (pid_ip (pe_peerid pe)),
                 pt\<lparr>peer_head := remove1 p (peer_head pt), pt_heap := hfree p (pt_heap pt),
                    peer_num := peer_num pt - 1\<rparr>)
       else delete_conn conn ps pt)"

definition peer_table_delete :: "peer_table \<Rightarrow> int \<Rightarrow> (int \<times> peer_table) res" where
  "peer_table_delete pt conn = delete_conn conn (peer_head pt) pt"

fun find_ip :: "u32 \<Rightarrow> ptr list \<Rightarrow> peer_table \<Rightarrow> ptr res" where
  "find_ip ip [] pt = Inr NULL"
| "find_ip ip (p # ps) pt =
     ebind (hget (pt_heap pt) p) (\<lambda>pe. if pid_ip (pe_peerid pe) = ip then Inr p else find_ip ip ps pt)"

definition peer_table_find :: "peer_table \<Rightarrow> u32 \<Rightarrow> ptr res" where
  "peer_table_find pt ip = find_ip ip (peer_head pt) pt"

text \<open>The lines \<open>peer_table_print\<close> writes: the number of peers, then one line per peer.\<close>

fun print_peers :: "ptr list \<Rightarrow> peer_table \<Rightarrow> (u32 \<times> u16 \<times> u64) list res" where
  "print_peers [] pt = Inr []"
| "print_peers (p # ps) pt =
     ebind (hget (pt_heap pt) p) (\<lambda>pe. ebind (print_peers ps pt) (\<lambda>ls.
       Inr ((pid_ip (pe_peerid pe), pid_port (pe_peerid pe), pe_timestamp pe) # ls)))"

definition peer_table_print :: "peer_table \<Rightarrow> (int \<times> (u32 \<times> u16 \<times> u64) list) res" where
  "peer_table_print pt = ebind (print_peers (peer_head pt) pt) (\<lambda>ls. Inr (peer_num pt, ls))"

section \<open>The list of peers a table stands for\<close>

definition pt_inv :: "peer_table \<Rightarrow> bool" where
  "pt_inv pt \<longleftrightarrow> heap_ok (pt_heap pt) \<and> distinct (peer_head pt) \<and>
     (\<forall>p \<in> set (peer_head pt). cells (pt_heap pt) p \<noteq> None) \<and> peer_num pt = int (length (peer_head pt))"

definition peer_at :: "peer_table \<Rightarrow> ptr \<Rightarrow> peer_entry" where
  "peer_at pt p = the (cells (pt_heap pt) p)"

definition pt_peers :: "peer_table \<Rightarrow> peer_entry list" where
  "pt_peers pt = map (peer_at pt) (peer_head pt)"

lemma pt_inv_get: "pt_inv pt \<Longrightarrow> p \<in> set (peer_head pt) \<Longrightarrow> hget (pt_heap pt) p = Inr (peer_at pt p)"
  by (auto simp: pt_inv_def peer_at_def)

lemma pt_inv_not_null: "pt_inv pt \<Longrightarrow> p \<in> set (peer_head pt) \<Longrightarrow> p \<noteq> NULL"
  by (metis heap_ok_not_null not_None_eq pt_inv_def)

text \<open>Registration as the tracker does it: allocate, fill, add.\<close>

definition peer_insert :: "u64 \<Rightarrow> (peer_entry \<Rightarrow> peer_entry) \<Rightarrow> peer_table \<Rightarrow> (int \<times> peer_table) res" where
  "peer_insert now fill pt =
     (let (p, pt) = peer_entry_alloc now pt in
      if p = NULL then Inr (-1, pt)
      else ebind (hget (pt_heap pt) p) (\<lambda>pe.
        let pt = pt\<lparr>pt_heap := hput p (fill pe) (pt_heap pt)\<rparr>
        in Inr (0, snd (peer_table_add pt p))))"

text \<open>The update of one entry through a pointer that \<open>peer_table_find\<close> returned, which is a critical section of its
  own, and the look-up and the update one after the other with nothing between them.\<close>

definition peer_touch :: "(peer_entry \<Rightarrow> peer_entry) \<Rightarrow> ptr \<Rightarrow> peer_table \<Rightarrow> peer_table res" where
  "peer_touch f p pt = ebind (hget (pt_heap pt) p) (\<lambda>pe. Inr (pt\<lparr>pt_heap := hput p (f pe) (pt_heap pt)\<rparr>))"

definition peer_modify :: "(peer_entry \<Rightarrow> peer_entry) \<Rightarrow> u32 \<Rightarrow> peer_table \<Rightarrow> (int \<times> peer_table) res" where
  "peer_modify f ip pt =
     ebind (peer_table_find pt ip) (\<lambda>p.
       if p = NULL then Inr (-1, pt) else ebind (peer_touch f p pt) (\<lambda>pt. Inr (0, pt)))"

text \<open>The same on lists.\<close>

fun remove_first :: "('a \<Rightarrow> bool) \<Rightarrow> 'a list \<Rightarrow> 'a list" where
  "remove_first P [] = []"
| "remove_first P (x # xs) = (if P x then xs else x # remove_first P xs)"

fun map_first :: "('a \<Rightarrow> bool) \<Rightarrow> ('a \<Rightarrow> 'a) \<Rightarrow> 'a list \<Rightarrow> 'a list" where
  "map_first P f [] = []"
| "map_first P f (x # xs) = (if P x then f x # xs else x # map_first P f xs)"

definition has_conn :: "int \<Rightarrow> peer_entry \<Rightarrow> bool" where
  "has_conn conn pe \<longleftrightarrow> pe_conn pe = conn"

definition has_ip :: "u32 \<Rightarrow> peer_entry \<Rightarrow> bool" where
  "has_ip ip pe \<longleftrightarrow> pid_ip (pe_peerid pe) = ip"

section \<open>Lemmas\<close>

lemma find_ip_spec:
  assumes "pt_inv pt" and "set ps \<subseteq> set (peer_head pt)"
  shows "find_ip ip ps pt = Inr (case find (\<lambda>p. has_ip ip (peer_at pt p)) ps of None \<Rightarrow> NULL | Some p \<Rightarrow> p)"
  using assms(2) by (induction ps) (auto simp: pt_inv_get [OF assms(1)] has_ip_def)

lemma peer_table_find_spec:
  assumes "pt_inv pt"
  shows "peer_table_find pt ip =
     Inr (case find (\<lambda>p. has_ip ip (peer_at pt p)) (peer_head pt) of None \<Rightarrow> NULL | Some p \<Rightarrow> p)"
  unfolding peer_table_find_def by (rule find_ip_spec [OF assms]) simp

lemma delete_conn_spec:
  assumes "pt_inv pt" and "set ps \<subseteq> set (peer_head pt)"
  shows "delete_conn conn ps pt =
     Inr (case find (\<lambda>p. has_conn conn (peer_at pt p)) ps of
            None \<Rightarrow> (-1, pt)
          | Some p \<Rightarrow> (sint (pid_ip (pe_peerid (peer_at pt p))),
               pt\<lparr>peer_head := remove1 p (peer_head pt), pt_heap := hfree p (pt_heap pt),
                  peer_num := peer_num pt - 1\<rparr>))"
  using assms(2) by (induction ps) (auto simp: pt_inv_get [OF assms(1)] has_conn_def)

lemma find_Some_split:
  "find P xs = Some x \<Longrightarrow> \<exists>ys zs. xs = ys @ x # zs \<and> P x \<and> (\<forall>y \<in> set ys. \<not> P y)"
  by (induction xs) (auto split: if_splits intro: exI [of _ "[]"], metis Cons_eq_appendI set_ConsD)

lemma remove_first_append: "\<forall>y \<in> set ys. \<not> P y \<Longrightarrow> remove_first P (ys @ xs) = ys @ remove_first P xs"
  by (induction ys) auto

lemma map_first_append: "\<forall>y \<in> set ys. \<not> P y \<Longrightarrow> map_first P f (ys @ xs) = ys @ map_first P f xs"
  by (induction ys) auto

lemma remove_first_none: "\<forall>y \<in> set ys. \<not> P y \<Longrightarrow> remove_first P ys = ys"
  by (induction ys) auto

lemma map_first_none: "\<forall>y \<in> set ys. \<not> P y \<Longrightarrow> map_first P f ys = ys"
  by (induction ys) auto

lemma find_map: "find P (map f xs) = map_option f (find (\<lambda>x. P (f x)) xs)"
  by (induction xs) auto

lemma pt_peers_keep:
  assumes "\<And>q. q \<in> set ps \<Longrightarrow> cells h q = cells (pt_heap pt) q"
  shows "map (\<lambda>q. the (cells h q)) ps = map (peer_at pt) ps"
  using assms by (auto simp: peer_at_def)

lemma peer_insert_spec:
  assumes "pt_inv pt"
  shows "case answer (pt_callocs pt) of (ok, al) \<Rightarrow> \<exists>pt'.
     peer_insert now fill pt = Inr (if ok then 0 else -1, pt') \<and> pt_inv pt' \<and> pt_callocs pt' = al \<and>
     pt_peers pt' = (if ok then [fill (pe_zero\<lparr>pe_timestamp := now\<rparr>)] else []) @ pt_peers pt"
proof -
  let ?b = "brk (pt_heap pt)"
  have fresh: "?b \<notin> set (peer_head pt)" "?b \<noteq> NULL"
    using assms heap_ok_fresh [of "pt_heap pt"] heap_ok_brk [of "pt_heap pt"] by (auto simp: pt_inv_def)
  then have "map (\<lambda>q. the (((cells (pt_heap pt))(?b := x)) q)) (peer_head pt) = map (peer_at pt) (peer_head pt)" for x
    by (intro map_cong) (auto simp: peer_at_def)
  moreover have "heap_ok (hput ?b v (snd (hnew w (pt_heap pt))))" for v w
    using assms by (intro heap_ok_hput heap_ok_hnew) (simp_all add: pt_inv_def)
  ultimately show ?thesis
    using assms
    by (auto simp: fresh peer_insert_def peer_entry_alloc_def hnew_def hget_def peer_table_add_def pt_inv_def
        pt_peers_def peer_at_def fun_upd_def split: prod.split)
qed

lemma peer_table_delete_spec:
  assumes "pt_inv pt"
  shows "\<exists>pt'. peer_table_delete pt conn =
       Inr (case find (has_conn conn) (pt_peers pt) of None \<Rightarrow> -1 | Some pe \<Rightarrow> sint (pid_ip (pe_peerid pe)), pt') \<and>
     pt_inv pt' \<and> pt_callocs pt' = pt_callocs pt \<and> pt_peers pt' = remove_first (has_conn conn) (pt_peers pt)"
proof (cases "find (\<lambda>p. has_conn conn (peer_at pt p)) (peer_head pt)")
  case None
  then have "remove_first (has_conn conn) (pt_peers pt) = pt_peers pt"
    by (intro remove_first_none) (auto simp: find_None_iff pt_peers_def)
  with None assms show ?thesis
    by (simp add: peer_table_delete_def delete_conn_spec [OF assms] pt_peers_def find_map)
next
  case (Some p)
  from find_Some_split [OF this] obtain ys zs where
    split: "peer_head pt = ys @ p # zs" "has_conn conn (peer_at pt p)" "\<forall>y \<in> set ys. \<not> has_conn conn (peer_at pt y)"
    by blast
  have dist: "p \<notin> set ys" "p \<notin> set zs" using assms split(1) by (auto simp: pt_inv_def)
  let ?pt = "pt\<lparr>peer_head := remove1 p (peer_head pt), pt_heap := hfree p (pt_heap pt), peer_num := peer_num pt - 1\<rparr>"
  have "remove1 p (peer_head pt) = ys @ zs" using dist by (simp add: split(1) remove1_append)
  moreover have "pt_peers ?pt = map (peer_at pt) (remove1 p (peer_head pt))"
    unfolding pt_peers_def using dist by (intro map_cong) (auto simp: split(1) remove1_append peer_at_def)
  moreover have "remove_first (has_conn conn) (map (peer_at pt) ys @ peer_at pt p # map (peer_at pt) zs) =
      map (peer_at pt) ys @ map (peer_at pt) zs"
    using split(2,3) by (subst remove_first_append) auto
  moreover have "pt_inv ?pt" using assms dist by (auto simp: pt_inv_def split(1) remove1_append)
  ultimately show ?thesis using Some
    by (simp add: peer_table_delete_def delete_conn_spec [OF assms] pt_peers_def find_map)
       (simp add: split(1))
qed

lemma peer_modify_spec:
  assumes "pt_inv pt"
  shows "\<exists>pt'. peer_modify f ip pt =
       Inr (case find (has_ip ip) (pt_peers pt) of None \<Rightarrow> -1 | Some pe \<Rightarrow> 0, pt') \<and>
     pt_inv pt' \<and> pt_callocs pt' = pt_callocs pt \<and> pt_peers pt' = map_first (has_ip ip) f (pt_peers pt)"
proof (cases "find (\<lambda>p. has_ip ip (peer_at pt p)) (peer_head pt)")
  case None
  then have "map_first (has_ip ip) f (pt_peers pt) = pt_peers pt"
    by (intro map_first_none) (auto simp: find_None_iff pt_peers_def)
  with None assms show ?thesis
    by (simp add: peer_modify_def peer_table_find_spec [OF assms] pt_peers_def find_map)
next
  case (Some p)
  from find_Some_split [OF this] obtain ys zs where
    split: "peer_head pt = ys @ p # zs" "has_ip ip (peer_at pt p)" "\<forall>y \<in> set ys. \<not> has_ip ip (peer_at pt y)"
    by blast
  have dist: "p \<notin> set ys" "p \<notin> set zs" using assms split(1) by (auto simp: pt_inv_def)
  let ?pt = "pt\<lparr>pt_heap := hput p (f (peer_at pt p)) (pt_heap pt)\<rparr>"
  have p: "hget (pt_heap pt) p = Inr (peer_at pt p)" "p \<noteq> NULL"
    using pt_inv_get [OF assms, of p] pt_inv_not_null [OF assms, of p] by (simp_all add: split(1))
  have "map (peer_at ?pt) ys = map (peer_at pt) ys" "map (peer_at ?pt) zs = map (peer_at pt) zs"
    using dist by (auto simp: peer_at_def)
  then have "pt_peers ?pt = map (peer_at pt) ys @ f (peer_at pt p) # map (peer_at pt) zs"
    by (simp add: pt_peers_def split(1)) (simp add: peer_at_def)
  moreover have "map_first (has_ip ip) f (pt_peers pt) = map (peer_at pt) ys @ f (peer_at pt p) # map (peer_at pt) zs"
    unfolding pt_peers_def split(1) map_append using split(2,3) by (subst map_first_append) auto
  moreover have "pt_inv ?pt" using assms p(1) by (auto simp: pt_inv_def hget_eq_Inr)
  ultimately show ?thesis using Some p
    by (simp add: peer_modify_def peer_touch_def peer_table_find_spec [OF assms] find_map) (simp add: pt_peers_def find_map)
qed

text \<open>The update through a pointer keeps the table in order, and fails exactly when the entry is gone.\<close>

lemma peer_touch_inv:
  assumes "pt_inv pt"
  shows "if cells (pt_heap pt) p = None then peer_touch f p pt = Inl Bad_Pointer
     else \<exists>pt'. peer_touch f p pt = Inr pt' \<and> pt_inv pt'"
  using assms by (auto simp: peer_touch_def pt_inv_def hget_def split: option.split)

section \<open>Refinement\<close>

datatype pt_op = PT_Add u64 int peer_id nat | PT_Delete int | PT_Touch u32 u64

fun pt_exec :: "pt_op \<Rightarrow> peer_table \<Rightarrow> peer_table res" where
  "pt_exec (PT_Add now conn i tid) pt =
     ebind (peer_insert now (\<lambda>pe. pe\<lparr>pe_conn := conn, pe_peerid := i, pe_tid := tid\<rparr>) pt) (\<lambda>(_, pt). Inr pt)"
| "pt_exec (PT_Delete conn) pt = ebind (peer_table_delete pt conn) (\<lambda>(_, pt). Inr pt)"
| "pt_exec (PT_Touch i d) pt =
     ebind (peer_modify (\<lambda>pe. pe\<lparr>pe_timestamp := pe_timestamp pe + d\<rparr>) i pt) (\<lambda>(_, pt). Inr pt)"

fun peers_exec :: "pt_op \<Rightarrow> peer_entry list \<Rightarrow> peer_entry list" where
  "peers_exec (PT_Add now conn i tid) ps =
     \<lparr>pe_conn = conn, pe_timestamp = now, pe_peerid = i, pe_tid = tid\<rparr> # ps"
| "peers_exec (PT_Delete conn) ps = remove_first (has_conn conn) ps"
| "peers_exec (PT_Touch i d) ps = map_first (has_ip i) (\<lambda>pe. pe\<lparr>pe_timestamp := pe_timestamp pe + d\<rparr>) ps"

definition pt_rep :: "peer_table \<Rightarrow> peer_entry list \<Rightarrow> bool" where
  "pt_rep pt ps \<longleftrightarrow> pt_inv pt \<and> pt_callocs pt = [] \<and> pt_peers pt = ps"

interpretation ptb: data_refinement pt_rep pt_exec peers_exec "\<lambda>_ _. True"
proof
  fix pt ps x
  assume "pt_rep pt ps"
  then have pt: "pt_inv pt" "pt_callocs pt = []" "ps = pt_peers pt" by (simp_all add: pt_rep_def)
  show "\<exists>pt'. pt_exec x pt = Inr pt' \<and> pt_rep pt' (peers_exec x ps)"
  proof (cases x)
    case (PT_Add now conn i tid)
    with peer_insert_spec [OF pt(1), of now "\<lambda>pe. pe\<lparr>pe_conn := conn, pe_peerid := i, pe_tid := tid\<rparr>"] pt(2,3)
    show ?thesis by (auto simp: pt_rep_def pe_zero_def)
  next
    case (PT_Delete conn)
    with peer_table_delete_spec [OF pt(1), of conn] pt(2,3) show ?thesis by (auto simp: pt_rep_def)
  next
    case (PT_Touch i d)
    with peer_modify_spec [OF pt(1), of "\<lambda>pe. pe\<lparr>pe_timestamp := pe_timestamp pe + d\<rparr>" i] pt(2,3)
    show ?thesis by (auto simp: pt_rep_def)
  qed
qed

definition pt_start :: peer_table where
  "pt_start = peer_table_init \<lparr>peer_num = 0, peer_head = [], pt_heap = heap_empty, pt_callocs = []\<rparr>"

lemma pt_start_rep: "pt_rep pt_start []"
  by (simp add: pt_rep_def pt_start_def peer_table_init_def pt_inv_def pt_peers_def)

text \<open>
  C25. The peer table implements a list of peers. From a fresh table, every sequence of
  registrations, deletions by connection and keep-alive updates (look-up and update one after the other) runs without a memory error and
  leaves the peers the same operations leave on a plain list (new peers in front, the first match
  removed or updated), \<open>peer_num\<close> is their number, and \<open>peer_table_find\<close> then returns the first
  peer with the address asked for, or the null pointer.
\<close>

theorem peer_table_refines_list:
  "\<exists>pt. efold pt_exec ops pt_start = Inr pt \<and> pt_peers pt = fold peers_exec ops [] \<and>
     peer_num pt = int (length (fold peers_exec ops [])) \<and>
     (\<exists>p. peer_table_find pt ip = Inr p \<and>
        (case find (has_ip ip) (fold peers_exec ops []) of
           None \<Rightarrow> p = NULL
         | Some pe \<Rightarrow> p \<noteq> NULL \<and> hget (pt_heap pt) p = Inr pe))"
proof -
  have "run_pre (\<lambda>_ _. True) peers_exec ops ps" for ps by (induction ops arbitrary: ps) simp_all
  from ptb.run_refines [OF pt_start_rep this] obtain pt where
    run: "efold pt_exec ops pt_start = Inr pt" and rep: "pt_inv pt" "pt_peers pt = fold peers_exec ops []"
    by (auto simp: pt_rep_def)
  let ?f = "find (\<lambda>p. has_ip ip (peer_at pt p)) (peer_head pt)"
  have found: "find (has_ip ip) (pt_peers pt) = map_option (peer_at pt) ?f"
    by (simp add: pt_peers_def find_map)
  have mem: "p \<in> set (peer_head pt)" if "?f = Some p" for p
    using find_Some_split [OF that] by auto
  have "\<exists>p. peer_table_find pt ip = Inr p \<and>
      (case find (has_ip ip) (pt_peers pt) of None \<Rightarrow> p = NULL
       | Some pe \<Rightarrow> p \<noteq> NULL \<and> hget (pt_heap pt) p = Inr pe)"
    unfolding found peer_table_find_spec [OF rep(1)]
    using mem pt_inv_get [OF rep(1)] pt_inv_not_null [OF rep(1)] by (cases ?f) auto
  moreover have "peer_num pt = int (length (pt_peers pt))" using rep(1) by (simp add: pt_inv_def pt_peers_def)
  ultimately show ?thesis using run rep(2) by auto
qed

end
