(* ===== verification/Tracker.thy ===== *)
theory Tracker
  imports FileMap PeerTable Wire
begin

text \<open>
  The tracker (\<open>server/start.c\<close>): its global state, the body of every thread it starts, and the
  ways in which these threads interleave. A thread body is a function on the state; the threads
  share the file table, the peer table and the sockets, and every event of the environment (a
  connection, a packet, the end of a connection, a timer) or of the scheduler (a pending task
  runs) is one step. The keep-alive task and the watchdog look a peer up in one critical section of the peer table
  and use its entry in another one: these are two steps, and anything may happen between them. The other tasks run
  as a whole in a step.
\<close>

section \<open>State\<close>

text \<open>What the threads are started with. A receiver thread serves one connection; a watcher is a
  \<open>peer_check_alive_task\<close> thread with its local variables, \<open>w_pe\<close> holds the pointer it has looked up, nothing while it sleeps. \<open>T_Touch\<close> is a
  \<open>peer_life_update_task\<close> that has found its peer.\<close>

record receiver =
  rc_tid :: nat
  rc_conn :: int

record watcher =
  w_ip :: u32
  w_last :: u64
  w_tid :: nat
  w_pe :: "ptr option"

datatype task =
    T_Register int peer_id nat
  | T_Life u32
  | T_Touch ptr
  | T_Sync int trans_file_table
  | T_Update int trans_file_table

record tracker =
  tr_ft :: file_table
  tr_pt :: peer_table
  tr_ctr :: ttop_control_info
  tr_socks :: "int \<Rightarrow> sock"
  tr_callocs :: "bool list"
  tr_receivers :: "receiver list"
  tr_cancelled :: "nat list"
  tr_watchers :: "watcher list"
  tr_tasks :: "task list"
  tr_closed :: "int list"

section \<open>Sending\<close>

definition tr_send :: "int \<Rightarrow> ttop_packet \<Rightarrow> tracker \<Rightarrow> int \<times> tracker" where
  "tr_send conn pkt tr =
     (let (r, s) = send_ttop_packet pkt (tr_socks tr conn)
      in (r, tr\<lparr>tr_socks := (tr_socks tr)(conn := s)\<rparr>))"

text \<open>A table is sent by \<open>hdr.data_len = trans_table_len(tft); memcpy(data, tft, hdr.data_len)\<close>: the
  length goes through the 16-bit field first.\<close>

definition table_packet :: "u16 \<Rightarrow> trans_file_table \<Rightarrow> ttop_packet" where
  "table_packet type tft =
     (let data_len = (ucast (trans_table_len tft) :: u16)
      in \<lparr>ttop_hdr = \<lparr>th_type = type, th_data_len = data_len\<rparr>,
          ttop_data = field 0 (unat data_len) (table_bytes tft)\<rparr>)"

definition broadcast_to :: "trans_file_table \<Rightarrow> int \<Rightarrow> ptr \<Rightarrow> tracker \<Rightarrow> tracker res" where
  "broadcast_to tft exclusive_conn p tr =
     ebind (hget (pt_heap (tr_pt tr)) p) (\<lambda>pe.
       if pe_conn pe \<noteq> exclusive_conn
       then Inr (snd (tr_send (pe_conn pe) (table_packet TRACKER_BROADCAST tft) tr))
       else Inr tr)"

definition broadcast_update :: "trans_file_table \<Rightarrow> int \<Rightarrow> tracker \<Rightarrow> tracker res" where
  "broadcast_update tft exclusive_conn tr =
     (if tft_n tft = 0 then Inr tr
      else efold (broadcast_to tft exclusive_conn) (peer_head (tr_pt tr)) tr)"

section \<open>Registration and keep-alive\<close>

definition accept_packet :: "ttop_control_info \<Rightarrow> ttop_packet" where
  "accept_packet c = \<lparr>ttop_hdr = \<lparr>th_type = TRACKER_ACCEPT, th_data_len = 8\<rparr>, ttop_data = control_bytes c\<rparr>"

text \<open>The last act of a registration is to start the watcher, whose \<open>last_timestamp\<close> is 0.\<close>

definition peer_register_handler_task :: "u64 \<Rightarrow> int \<Rightarrow> peer_id \<Rightarrow> nat \<Rightarrow> tracker \<Rightarrow> (int \<times> tracker) res" where
  "peer_register_handler_task now conn i receiver_tid tr =
     (let (r, tr) = tr_send conn (accept_packet (tr_ctr tr)) tr in
      if r < 0 then Inr (-1, tr)
      else ebind (peer_insert now (\<lambda>pe. pe\<lparr>pe_conn := conn, pe_peerid := i, pe_tid := receiver_tid\<rparr>) (tr_pt tr))
        (\<lambda>(r, pt). let tr = tr\<lparr>tr_pt := pt\<rparr> in
           if r < 0 then Inr (-1, tr)
           else Inr (0, tr\<lparr>tr_watchers := tr_watchers tr @ [\<lparr>w_ip = pid_ip i, w_last = 0, w_tid = receiver_tid, w_pe = None\<rparr>]\<rparr>)))"

text \<open>The keep-alive task: the second critical section, in which the timestamp is moved through the pointer, and
  the task without an interruption.\<close>

definition life_touch :: "ptr \<Rightarrow> tracker \<Rightarrow> tracker res" where
  "life_touch p tr =
     ebind (peer_touch (\<lambda>pe. pe\<lparr>pe_timestamp := pe_timestamp pe + word_of_int (ci_interval (tr_ctr tr))\<rparr>) p (tr_pt tr))
       (\<lambda>pt. Inr (tr\<lparr>tr_pt := pt\<rparr>))"

definition peer_life_update_task :: "u32 \<Rightarrow> tracker \<Rightarrow> (int \<times> tracker) res" where
  "peer_life_update_task i tr =
     ebind (peer_table_find (tr_pt tr) i) (\<lambda>p.
       if p = NULL then Inr (-1, tr) else ebind (life_touch p tr) (\<lambda>tr. Inr (-1, tr)))"

text \<open>The watchdog after its sleep: it looks the peer up, and in the second critical section it compares the
  timestamp. The result is \<open>None\<close> when the watcher exits, after it has cancelled the receiver. One round without an interruption
  is \<open>peer_check_alive_task\<close>; \<open>watch_step\<close> is what it does up to the end of the next critical section.\<close>

definition cancel_receiver :: "watcher \<Rightarrow> tracker \<Rightarrow> tracker" where
  "cancel_receiver w tr = tr\<lparr>tr_cancelled := w_tid w # tr_cancelled tr\<rparr>"

definition check_entry :: "watcher \<Rightarrow> ptr \<Rightarrow> tracker \<Rightarrow> (watcher option \<times> tracker) res" where
  "check_entry w p tr =
     ebind (hget (pt_heap (tr_pt tr)) p) (\<lambda>pe.
       if pe_timestamp pe = w_last w then Inr (None, cancel_receiver w tr)
       else Inr (Some (w\<lparr>w_last := pe_timestamp pe\<rparr>), tr))"

definition peer_check_alive_task :: "watcher \<Rightarrow> tracker \<Rightarrow> (watcher option \<times> tracker) res" where
  "peer_check_alive_task w tr =
     ebind (peer_table_find (tr_pt tr) (w_ip w)) (\<lambda>p.
       if p = NULL then Inr (None, cancel_receiver w tr) else check_entry w p tr)"

definition watch_step :: "watcher \<Rightarrow> tracker \<Rightarrow> (watcher option \<times> tracker) res" where
  "watch_step w tr =
     (case w_pe w of
        None \<Rightarrow> ebind (peer_table_find (tr_pt tr) (w_ip w)) (\<lambda>p.
          if p = NULL then Inr (None, cancel_receiver w tr) else Inr (Some (w\<lparr>w_pe := Some p\<rparr>), tr))
      | Some p \<Rightarrow> check_entry (w\<lparr>w_pe := None\<rparr>) p tr)"

section \<open>Synchronisation of a joining peer\<close>

fun trans_file_search_from :: "nat \<Rightarrow> nat \<Rightarrow> trans_file_table \<Rightarrow> string \<Rightarrow> trans_file_entry option res" where
  "trans_file_search_from 0 i tft name = Inr None"
| "trans_file_search_from (Suc k) i tft name =
     ebind (tft_get tft i) (\<lambda>te.
       if te_name te = name then Inr (Some te) else trans_file_search_from k (Suc i) tft name)"

definition trans_file_search :: "trans_file_table \<Rightarrow> string \<Rightarrow> trans_file_entry option res" where
  "trans_file_search tft name = trans_file_search_from (nat (tft_n tft)) 0 tft name"

text \<open>\<open>trans_entry_fill_from(t->entries + t->n, fe); t->entries[t->n].op_type = op; t->n++\<close>\<close>

definition append_filled :: "u16 \<Rightarrow> file_table \<Rightarrow> ptr \<Rightarrow> trans_file_table \<Rightarrow> trans_file_table res" where
  "append_filled op ft p t =
     ebind (tft_get t (nat (tft_n t))) (\<lambda>te.
     ebind (trans_entry_fill_from te ft p) (\<lambda>te.
     ebind (tft_set (nat (tft_n t)) (te\<lparr>te_op_type := op\<rparr>) t) (\<lambda>t.
       Inr (t\<lparr>tft_n := tft_n t + 1\<rparr>))))"

text \<open>\<open>t->entries[t->n] = *te; t->entries[t->n].op_type = op; t->n++\<close>\<close>

definition append_copy :: "u16 \<Rightarrow> trans_file_entry \<Rightarrow> trans_file_table \<Rightarrow> trans_file_table res" where
  "append_copy op te t =
     ebind (tft_set (nat (tft_n t)) (te\<lparr>te_op_type := op\<rparr>) t) (\<lambda>t. Inr (t\<lparr>tft_n := tft_n t + 1\<rparr>))"

text \<open>The two loop bodies of \<open>sync_task\<close>: what the peer has to learn about an entry of the
  tracker, and what the tracker learns from an entry of the peer.\<close>

definition sync_peer_entry :: "file_table \<Rightarrow> trans_file_table \<Rightarrow> ptr \<Rightarrow> trans_file_table \<Rightarrow> trans_file_table res" where
  "sync_peer_entry ft tft p peer_tft =
     ebind (hget (ft_heap ft) p) (\<lambda>fe.
     ebind (trans_file_search tft (fe_name fe)) (\<lambda>found.
       case found of
         None \<Rightarrow> append_filled FILE_ADD ft p peer_tft
       | Some te \<Rightarrow>
           if fe_timestamp fe > te_timestamp te then append_filled FILE_MODIFY ft p peer_tft
           else if fe_timestamp fe = te_timestamp te
           then ebind (has_same_owners ft p te) (\<lambda>same.
                  if \<not> same then append_filled FILE_MODIFY ft p peer_tft else Inr peer_tft)
           else Inr peer_tft))"

definition sync_self_entry ::
    "trans_file_entry \<Rightarrow> file_table \<times> trans_file_table \<Rightarrow> (file_table \<times> trans_file_table) res" where
  "sync_self_entry te = (\<lambda>(ft, broad_tft).
     ebind (file_table_find ft te) (\<lambda>p.
       if p = NULL
       then ebind (file_table_add ft te) (\<lambda>(_, ft).
            ebind (append_copy FILE_ADD te broad_tft) (\<lambda>t. Inr (ft, t)))
       else ebind (hget (ft_heap ft) p) (\<lambda>fe.
         if fe_timestamp fe < te_timestamp te
         then ebind (file_table_update ft te) (\<lambda>(_, ft).
              ebind (append_copy FILE_MODIFY te broad_tft) (\<lambda>t. Inr (ft, t)))
         else ebind (file_table_update ft te) (\<lambda>(_, ft). Inr (ft, broad_tft)))))"

text \<open>A loop over the first \<open>n\<close> entries of a travelling table.\<close>

definition for_entries :: "(trans_file_entry \<Rightarrow> 's \<Rightarrow> 's res) \<Rightarrow> trans_file_table \<Rightarrow> 's \<Rightarrow> 's res" where
  "for_entries body tft s = efold (\<lambda>i s. ebind (tft_get tft i) (\<lambda>te. body te s)) [0..<nat (tft_n tft)] s"

definition sync_body :: "int \<Rightarrow> trans_file_table \<Rightarrow> tracker \<Rightarrow> tracker res" where
  "sync_body conn tft tr =
     ebind (efold (sync_peer_entry (tr_ft tr) tft) (bkt_all (file_htable (tr_ft tr))) tft_zero) (\<lambda>peer_tft.
     let tr = snd (tr_send conn (table_packet TRACKER_SYNC peer_tft) tr) in
     ebind (for_entries sync_self_entry tft (tr_ft tr, tft_zero)) (\<lambda>(ft, broad_tft).
       broadcast_update broad_tft conn (tr\<lparr>tr_ft := ft\<rparr>)))"

text \<open>The three allocations in front; each of them may fail and ends the task with -1.\<close>

definition sync_task :: "int \<Rightarrow> trans_file_table \<Rightarrow> tracker \<Rightarrow> (int \<times> tracker) res" where
  "sync_task conn tft tr =
     (case answer (tr_callocs tr) of
        (False, al) \<Rightarrow> Inr (-1, tr\<lparr>tr_callocs := al\<rparr>)
      | (True, al) \<Rightarrow> (case answer al of
        (False, al) \<Rightarrow> Inr (-1, tr\<lparr>tr_callocs := al\<rparr>)
      | (True, al) \<Rightarrow> (case answer al of
        (False, al) \<Rightarrow> Inr (-1, tr\<lparr>tr_callocs := al\<rparr>)
      | (True, al) \<Rightarrow> ebind (sync_body conn tft (tr\<lparr>tr_callocs := al\<rparr>)) (\<lambda>tr. Inr (0, tr)))))"

section \<open>Reports of changes\<close>

text \<open>The loop body of \<open>peer_file_update_task\<close>. In the case of a modification of an unknown file
  the pointer stays null, so \<open>trans_entry_fill_from\<close> leaves the zeroed entry as it is.\<close>

definition update_entry ::
    "trans_file_entry \<Rightarrow> file_table \<times> trans_file_table \<Rightarrow> (file_table \<times> trans_file_table) res" where
  "update_entry te = (\<lambda>(ft, new_tft).
     if te_op_type te = FILE_ADD then
       ebind (file_table_add ft te) (\<lambda>(p, ft).
         if p \<noteq> NULL then ebind (append_filled FILE_ADD ft p new_tft) (\<lambda>t. Inr (ft, t))
         else Inr (ft, new_tft))
     else if te_op_type te = FILE_DELETE then
       ebind (file_table_delete ft te) (\<lambda>(r, ft).
         if r = 0 then ebind (append_copy (te_op_type te) te new_tft) (\<lambda>t. Inr (ft, t))
         else Inr (ft, new_tft))
     else if te_op_type te = FILE_MODIFY then
       ebind (file_table_find ft te) (\<lambda>p.
       ebind (if p = NULL then ebind (file_table_add ft te) (\<lambda>(_, ft). Inr (FILE_ADD, ft))
              else ebind (file_entry_update ft p te) (\<lambda>(_, ft). Inr (FILE_MODIFY, ft))) (\<lambda>(op_type, ft).
       ebind (append_filled op_type ft p new_tft) (\<lambda>t. Inr (ft, t))))
     else Inr (ft, new_tft))"

definition peer_file_update_task :: "int \<Rightarrow> trans_file_table \<Rightarrow> tracker \<Rightarrow> tracker res" where
  "peer_file_update_task conn tft tr =
     ebind (for_entries update_entry tft (tr_ft tr, tft_zero)) (\<lambda>(ft, new_tft).
       let tr = tr\<lparr>tr_ft := ft\<rparr>
       in if tft_n new_tft > 0 then broadcast_update new_tft conn tr else Inr tr)"

section \<open>The end of a connection\<close>

text \<open>\<open>for (i = 0; i < tft->n; i++) tft->entries[i].op_type = FILE_MODIFY\<close>\<close>

definition mark_modified :: "trans_file_table \<Rightarrow> trans_file_table res" where
  "mark_modified tft =
     efold (\<lambda>i t. ebind (tft_get t i) (\<lambda>te. tft_set i (te\<lparr>te_op_type := FILE_MODIFY\<rparr>) t)) [0..<nat (tft_n tft)] tft"

definition receiver_task_cleanup :: "int \<Rightarrow> tracker \<Rightarrow> tracker res" where
  "receiver_task_cleanup conn tr =
     ebind (peer_table_delete (tr_pt tr) conn) (\<lambda>(peer_ip, pt).
     ebind (file_table_delete_owner (tr_ft tr) (word_of_int peer_ip)) (\<lambda>ft.
       let tr = tr\<lparr>tr_pt := pt, tr_ft := ft\<rparr> in
       case answer (tr_callocs tr) of
         (False, al) \<Rightarrow> Inr (tr\<lparr>tr_callocs := al\<rparr>)
       | (True, al) \<Rightarrow>
           ebind (trans_table_fill_from ft) (\<lambda>tft.
           ebind (mark_modified tft) (\<lambda>tft.
           ebind (broadcast_update tft (-1) (tr\<lparr>tr_callocs := al\<rparr>)) (\<lambda>tr.
             Inr (tr\<lparr>tr_closed := conn # tr_closed tr\<rparr>))))))"

section \<open>The receiver\<close>

text \<open>The cleanup runs when the loop ends, when an allocation fails (\<open>pthread_exit\<close>) and when the
  thread is cancelled; the thread is gone afterwards.\<close>

definition receiver_exit :: "receiver \<Rightarrow> tracker \<Rightarrow> tracker res" where
  "receiver_exit rc tr =
     ebind (receiver_task_cleanup (rc_conn rc) tr) (\<lambda>tr.
       Inr (tr\<lparr>tr_receivers := remove1 rc (tr_receivers tr)\<rparr>))"

definition start_task :: "task \<Rightarrow> tracker \<Rightarrow> tracker" where
  "start_task t tr = tr\<lparr>tr_tasks := tr_tasks tr @ [t]\<rparr>"

text \<open>\<open>memcpy(tft, pkt.data, data_len)\<close> into a zeroed table.\<close>

definition packet_table :: "ptot_packet \<Rightarrow> trans_file_table" where
  "packet_table pkt = table_of_bytes (field 0 (unat (ph_data_len (ptot_hdr pkt))) (ptot_data pkt))"

text \<open>The body of the loop of \<open>receiver_task\<close> for a packet that was received.\<close>

definition receiver_task :: "receiver \<Rightarrow> ptot_packet \<Rightarrow> tracker \<Rightarrow> tracker res" where
  "receiver_task rc pkt tr =
     (let h = ptot_hdr pkt in
      if ph_type h = PEER_REGISTER then
        (case answer (tr_callocs tr) of
           (False, al) \<Rightarrow> receiver_exit rc (tr\<lparr>tr_callocs := al\<rparr>)
         | (True, al) \<Rightarrow>
             Inr (start_task (T_Register (rc_conn rc) \<lparr>pid_ip = ph_ip h, pid_port = ph_port h\<rparr> (rc_tid rc))
                    (tr\<lparr>tr_callocs := al\<rparr>)))
      else if ph_type h = PEER_KEEP_ALIVE then Inr (start_task (T_Life (ph_ip h)) tr)
      else if ph_type h = PEER_SYNC \<or> ph_type h = PEER_FILE_UPDATE then
        (case answer (tr_callocs tr) of
           (False, al) \<Rightarrow> receiver_exit rc (tr\<lparr>tr_callocs := al\<rparr>)
         | (True, al) \<Rightarrow> (case answer al of
           (False, al) \<Rightarrow> receiver_exit rc (tr\<lparr>tr_callocs := al\<rparr>)
         | (True, al) \<Rightarrow>
             Inr (start_task ((if ph_type h = PEER_SYNC then T_Sync else T_Update) (rc_conn rc) (packet_table pkt))
                    (tr\<lparr>tr_callocs := al\<rparr>))))
      else Inr tr)"

section \<open>Events\<close>

fun run_task :: "u64 \<Rightarrow> task \<Rightarrow> tracker \<Rightarrow> tracker res" where
  "run_task now (T_Register conn i tid) tr =
     ebind (peer_register_handler_task now conn i tid tr) (\<lambda>(_, tr). Inr tr)"
| "run_task now (T_Life i) tr = ebind (peer_life_update_task i tr) (\<lambda>(_, tr). Inr tr)"
| "run_task now (T_Touch p) tr = life_touch p tr"
| "run_task now (T_Sync conn tft) tr = ebind (sync_task conn tft tr) (\<lambda>(_, tr). Inr tr)"
| "run_task now (T_Update conn tft) tr = peer_file_update_task conn tft tr"

text \<open>A task up to the end of its step: the keep-alive task stops after the look-up.\<close>

fun task_step :: "u64 \<Rightarrow> task \<Rightarrow> tracker \<Rightarrow> tracker res" where
  "task_step now (T_Life i) tr =
     ebind (peer_table_find (tr_pt tr) i) (\<lambda>p. Inr (if p = NULL then tr else start_task (T_Touch p) tr))"
| "task_step now t tr = run_task now t tr"

text \<open>What can happen next: a connection is accepted; the receiver at a position gets a packet, or
  its connection ends, or it acts on a cancellation; a pending task makes its step at a time; a watcher makes
  its next step.\<close>

datatype tr_event =
    E_Accept int nat
  | E_Packet nat ptot_packet
  | E_Hangup nat
  | E_Cancel nat
  | E_Task nat u64
  | E_Watch nat

definition drop_at :: "nat \<Rightarrow> 'a list \<Rightarrow> 'a list" where
  "drop_at i xs = take i xs @ drop (Suc i) xs"

fun tr_exec :: "tr_event \<Rightarrow> tracker \<Rightarrow> tracker res" where
  "tr_exec (E_Accept conn tid) tr =
     Inr (tr\<lparr>tr_receivers := tr_receivers tr @ [\<lparr>rc_tid = tid, rc_conn = conn\<rparr>]\<rparr>)"
| "tr_exec (E_Packet i pkt) tr =
     (if i < length (tr_receivers tr) then receiver_task (tr_receivers tr ! i) pkt tr else Inr tr)"
| "tr_exec (E_Hangup i) tr =
     (if i < length (tr_receivers tr) then receiver_exit (tr_receivers tr ! i) tr else Inr tr)"
| "tr_exec (E_Cancel i) tr =
     (if i < length (tr_receivers tr) \<and> rc_tid (tr_receivers tr ! i) \<in> set (tr_cancelled tr)
      then receiver_exit (tr_receivers tr ! i) tr else Inr tr)"
| "tr_exec (E_Task i now) tr =
     (if i < length (tr_tasks tr)
      then task_step now (tr_tasks tr ! i) (tr\<lparr>tr_tasks := drop_at i (tr_tasks tr)\<rparr>) else Inr tr)"
| "tr_exec (E_Watch i) tr =
     (if i < length (tr_watchers tr)
      then ebind (watch_step (tr_watchers tr ! i) tr) (\<lambda>(w, tr).
             Inr (tr\<lparr>tr_watchers := (case w of None \<Rightarrow> drop_at i (tr_watchers tr)
                                            | Some w \<Rightarrow> (tr_watchers tr)[i := w])\<rparr>))
      else Inr tr)"

text \<open>The state in which \<open>server_start\<close> begins to accept connections: \<open>al\<close> answers the allocations of the tasks, \<open>pal\<close>
  those of peer entries.\<close>

definition tracker_start :: "ttop_control_info \<Rightarrow> (int \<Rightarrow> sock) \<Rightarrow> bool list \<Rightarrow> bool list \<Rightarrow> tracker" where
  "tracker_start ctr socks al pal =
     \<lparr>tr_ft = ft_start, tr_pt = pt_start\<lparr>pt_callocs := pal\<rparr>, tr_ctr = ctr, tr_socks = socks, tr_callocs = al,
      tr_receivers = [], tr_cancelled = [], tr_watchers = [], tr_tasks = [], tr_closed = []\<rparr>"

end
