(* ===== verification/Client.thy ===== *)
theory Client
  imports Monitor Download Tracker
begin

text \<open>
  The peer (\<open>client/start.c\<close>) without its uploads: its registration, the synchronisation at start-up,
  what it does with the broadcasts of the tracker, and the task that downloads a file. The threads
  share the file table, the table of the monitor and the connection to the tracker; the body of a
  thread is a function on the state of the peer, and \<open>cl_exec\<close> is one step of one of them.
\<close>

section \<open>State\<close>

text \<open>
  The global variables of \<open>client/start.c\<close>, the table of the monitor, the connection to the tracker
  and the regular files of the system by their path. \<open>cl_downloads\<close> holds the arguments of the
  threads that were started on \<open>ptop_download_task\<close> and have not run yet. The shell that \<open>system\<close> runs is not part of the program: \<open>cl_shell\<close> is
  what it makes of the files for a command line.
\<close>

type_synonym files = "string \<Rightarrow> u8 list option"

record client =
  cl_ip :: u32
  cl_ctr :: ttop_control_info
  cl_ft :: file_table
  cl_mt :: monitor_table
  cl_sock :: sock
  cl_files :: files
  cl_shell :: "string \<Rightarrow> files \<Rightarrow> files"
  cl_downloads :: "ptr list"
  cl_callocs :: "bool list"

definition cl_send :: "ptot_packet \<Rightarrow> client \<Rightarrow> int \<times> client" where
  "cl_send pkt cl = (let (r, s) = send_ptot_packet pkt (cl_sock cl) in (r, cl\<lparr>cl_sock := s\<rparr>))"

section \<open>Registration\<close>

text \<open>\<open>memcpy(&ctr_info, data, data_len)\<close>: eight bytes of a global variable.\<close>

definition copy_control :: "ttop_packet \<Rightarrow> ttop_control_info \<Rightarrow> ttop_control_info res" where
  "copy_control pkt c =
     (let n = unat (th_data_len (ttop_hdr pkt))
      in if n \<le> 8 then Inr (control_of_bytes (field 0 n (ttop_data pkt) @ drop n (control_bytes c)))
         else Inl Out_Of_Bounds)"

text \<open>\<open>stack\<close> is what the local packet holds before, \<open>input\<close> what arrives from the tracker; the bytes
  that were not read are part of the result.\<close>

definition register_to_tracker ::
    "ttop_packet \<Rightarrow> u8 list \<Rightarrow> client \<Rightarrow> (int \<times> u8 list \<times> client) res" where
  "register_to_tracker stack input cl =
     (let (r, cl) = cl_send (ptot_packet_init (cl_ip cl) PEER_REGISTER) cl in
      if r < 0 then Inr (r, input, cl)
      else ebind (recv_ttop_packet input stack) (\<lambda>(r, pkt, input).
        if r < 0 then Inr (r, input, cl)
        else if th_type (ttop_hdr pkt) \<noteq> TRACKER_ACCEPT then Inr (-1, input, cl)
        else ebind (copy_control pkt (cl_ctr cl)) (\<lambda>c. Inr (0, input, cl\<lparr>cl_ctr := c\<rparr>))))"

text \<open>The packet is filled once, in front of the loop. One round of the loop: \<open>False\<close> when the thread
  leaves it.\<close>

definition keep_alive_packet :: "u32 \<Rightarrow> u64 \<Rightarrow> ptot_packet res" where
  "keep_alive_packet my_ip now = ptot_packet_fill (ptot_packet_init my_ip PEER_KEEP_ALIVE) (put_le 8 now) 8"

definition keep_alive_task :: "u64 \<Rightarrow> client \<Rightarrow> (bool \<times> client) res" where
  "keep_alive_task now cl =
     ebind (keep_alive_packet (cl_ip cl) now) (\<lambda>pkt.
       let (r, cl) = cl_send pkt cl in Inr (\<not> r < 0, cl))"

section \<open>Downloads\<close>

definition notify_tracker_add_me :: "file_entry \<Rightarrow> client \<Rightarrow> client res" where
  "notify_tracker_add_me fe cl =
     (case answer (cl_callocs cl) of
        (False, al) \<Rightarrow> Inr (cl\<lparr>cl_callocs := al\<rparr>)
      | (True, al) \<Rightarrow> (case answer al of
        (False, al) \<Rightarrow> Inr (cl\<lparr>cl_callocs := al\<rparr>)
      | (True, al) \<Rightarrow>
          ebind (strcpy_name (fe_name fe)) (\<lambda>name.
          ebind (append_me (cl_ip cl) (te_zero\<lparr>te_name := name, te_timestamp := fe_timestamp fe,
                   te_file_type := ucast (fe_type fe), te_op_type := FILE_MODIFY\<rparr>)) (\<lambda>te.
          let tft = \<lparr>tft_n = 1, tft_entries = [te]\<rparr> in
          ebind (ptot_packet_fill (ptot_packet_init (cl_ip cl) PEER_FILE_UPDATE) (table_bytes tft)
                  (sint (ucast (trans_table_len tft) :: u32))) (\<lambda>pkt.
            Inr (snd (cl_send pkt (cl\<lparr>cl_callocs := al\<rparr>))))))))"

text \<open>What the outside does to a download: whether \<open>mkdir\<close> and \<open>open\<close> succeed, the question for the
  length, the allocations of \<open>do_download\<close> and the steps of its threads.\<close>

record dl_env =
  de_made :: bool
  de_opened :: bool
  de_connected :: bool
  de_sock :: sock
  de_input :: "u8 list"
  de_callocs :: "bool list"
  de_events :: "dl_event list"

text \<open>The two branches of the task: a directory is made, a file is fetched. \<open>None\<close> while the download
  has not come to its end.\<close>

definition fetch :: "kernel \<Rightarrow> dl_env \<Rightarrow> file_entry \<Rightarrow> string \<Rightarrow> client \<Rightarrow> (int \<times> client) option res" where
  "fetch K env fe sys_name cl =
     (if fe_type fe = ucast DIRECTORY
      then ebind (file_monitor_mkdir K (de_made env) sys_name (fe_name fe) (cl_mt cl)) (\<lambda>(ret, mt).
             Inr (Some (ret, cl\<lparr>cl_mt := mt\<rparr>)))
      else ebind (do_download (de_opened env) (de_connected env) (de_sock env) (de_input env)
                   (ci_piece_len (cl_ctr cl)) (de_callocs env) (de_events env) (fe_name fe) (fe_owners fe)
                   sys_name (cl_files cl sys_name)) (\<lambda>r.
             Inr (map_option (\<lambda>(ret, f). (ret, cl\<lparr>cl_files := (cl_files cl)(sys_name := f)\<rparr>)) r)))"

definition finish_download :: "int \<Rightarrow> file_entry \<Rightarrow> string \<Rightarrow> client \<Rightarrow> client res" where
  "finish_download ret fe sys_name cl =
     (if ret = 0
      then notify_tracker_add_me fe (cl\<lparr>cl_mt := file_change_modtime sys_name (fe_timestamp fe) (cl_mt cl)\<rparr>)
      else Inr cl)"

definition unblock :: "kernel \<Rightarrow> ptr \<Rightarrow> client \<Rightarrow> client res" where
  "unblock K t cl = ebind (file_monitor_unblock K t (cl_mt cl)) (\<lambda>mt. Inr (cl\<lparr>cl_mt := mt\<rparr>))"

definition ptop_download_task :: "kernel \<Rightarrow> dl_env \<Rightarrow> ptr \<Rightarrow> client \<Rightarrow> (int \<times> client) option res" where
  "ptop_download_task K env p cl =
     ebind (hget (ft_heap (cl_ft cl)) p) (\<lambda>fe.
     ebind (file_monitor_block K (fe_name fe) False (cl_mt cl)) (\<lambda>(t, mt).
       if t = NULL then Inr (Some (-1, cl\<lparr>cl_mt := mt\<rparr>))
       else ebind (monitor_get_sys_name (fe_name fe) t mt) (\<lambda>(sys_name, mt).
         let cl = cl\<lparr>cl_mt := mt\<rparr> in
         case sys_name of
           None \<Rightarrow> ebind (unblock K t cl) (\<lambda>cl. Inr (Some (-1, cl)))
         | Some sys_name \<Rightarrow>
             ebind (fetch K env fe sys_name cl) (\<lambda>r.
               case r of
                 None \<Rightarrow> Inr None
               | Some (ret, cl) \<Rightarrow>
                   ebind (finish_download ret fe sys_name cl) (\<lambda>cl.
                   ebind (unblock K t cl) (\<lambda>cl. Inr (Some (ret, cl))))))))"

section \<open>Deleting a file\<close>

definition file_delete :: "kernel \<Rightarrow> trans_file_entry \<Rightarrow> client \<Rightarrow> client res" where
  "file_delete K te cl =
     ebind (file_monitor_block K (te_name te) True (cl_mt cl)) (\<lambda>(t, mt).
       if t = NULL then Inr (cl\<lparr>cl_mt := mt\<rparr>)
       else ebind (monitor_get_sys_name (te_name te) t mt) (\<lambda>(sys_name, mt).
         let cl = cl\<lparr>cl_mt := mt\<rparr> in
         ebind (case sys_name of
                  None \<Rightarrow> Inr cl
                | Some sys_name \<Rightarrow>
                    if te_file_type te = DIRECTORY
                    then ebind (file_monitor_rmdir sys_name (te_name te) mt) (\<lambda>mt.
                           Inr (cl\<lparr>cl_mt := mt, cl_files := cl_shell cl (rm_command sys_name) (cl_files cl)\<rparr>))
                    else Inr (cl\<lparr>cl_mt := mt\<lparr>mt_calls := mt_calls mt @ [FS_Unlink sys_name]\<rparr>,
                                cl_files := (cl_files cl)(sys_name := None)\<rparr>))
           (unblock K t)))"

section \<open>Broadcasts\<close>

fun remove_owner :: "u32 \<Rightarrow> peer_id list \<Rightarrow> peer_id list" where
  "remove_owner i [] = []"
| "remove_owner i (p # ps) = (if pid_ip p = i then ps else p # remove_owner i ps)"

definition peer_id_list_remove_myself :: "u32 \<Rightarrow> ptr \<Rightarrow> file_table \<Rightarrow> file_table res" where
  "peer_id_list_remove_myself my_ip p ft =
     fe_modify (\<lambda>fe. fe\<lparr>fe_owners := remove_owner my_ip (fe_owners fe)\<rparr>) p ft"

definition start_download :: "ptr \<Rightarrow> client \<Rightarrow> client" where
  "start_download p cl = cl\<lparr>cl_downloads := cl_downloads cl @ [p]\<rparr>"

text \<open>What happens to an entry that is in the table already, and the two cases in which an entry is
  learnt: the code is the same for an addition, a modification and the synchronisation.\<close>

definition refresh_entry :: "trans_file_entry \<Rightarrow> ptr \<Rightarrow> client \<Rightarrow> client res" where
  "refresh_entry te p cl =
     ebind (peer_id_list_replace (cl_ft cl) p te) (\<lambda>ft.
     ebind (peer_id_list_remove_myself (cl_ip cl) p ft) (\<lambda>ft.
     ebind (hget (ft_heap ft) p) (\<lambda>fe.
       if te_timestamp te > fe_timestamp fe
       then ebind (file_entry_update_timestamp ft p (te_timestamp te)) (\<lambda>ft.
              Inr (start_download p (cl\<lparr>cl_ft := ft\<rparr>)))
       else Inr (cl\<lparr>cl_ft := ft\<rparr>))))"

definition learn_entry :: "trans_file_entry \<Rightarrow> client \<Rightarrow> client res" where
  "learn_entry te cl =
     ebind (file_table_find (cl_ft cl) te) (\<lambda>p.
       if p = NULL
       then ebind (file_table_add (cl_ft cl) te) (\<lambda>(p, ft). Inr (start_download p (cl\<lparr>cl_ft := ft\<rparr>)))
       else refresh_entry te p cl)"

definition broadcast_entry_handler :: "kernel \<Rightarrow> trans_file_entry \<Rightarrow> client \<Rightarrow> client res" where
  "broadcast_entry_handler K te cl =
     (if te_op_type te = FILE_ADD then learn_entry te cl
      else if te_op_type te = FILE_DELETE
      then ebind (file_table_delete (cl_ft cl) te) (\<lambda>(_, ft). file_delete K te (cl\<lparr>cl_ft := ft\<rparr>))
      else if te_op_type te = FILE_MODIFY then learn_entry te cl
      else Inr cl)"

definition broadcast_handler_task :: "kernel \<Rightarrow> trans_file_table \<Rightarrow> client \<Rightarrow> client res" where
  "broadcast_handler_task K tft cl = for_entries (broadcast_entry_handler K) tft cl"

text \<open>The body of the loop of \<open>ttop_receiver_task\<close>; the table is copied into zeroed memory.\<close>

definition receive_packet :: "kernel \<Rightarrow> ttop_packet \<Rightarrow> client \<Rightarrow> client res" where
  "receive_packet K pkt cl =
     (if th_type (ttop_hdr pkt) = TRACKER_BROADCAST
      then case answer (cl_callocs cl) of
             (False, al) \<Rightarrow> Inr (cl\<lparr>cl_callocs := al\<rparr>)
           | (True, al) \<Rightarrow>
               broadcast_handler_task K
                 (table_of_bytes (field 0 (unat (th_data_len (ttop_hdr pkt))) (ttop_data pkt)))
                 (cl\<lparr>cl_callocs := al\<rparr>)
      else Inr cl)"

section \<open>Synchronisation\<close>

definition file_table_sync :: "trans_file_table \<Rightarrow> client \<Rightarrow> client res" where
  "file_table_sync tft cl = for_entries learn_entry tft cl"

text \<open>The answer is copied over the table that was sent.\<close>

definition overwrite_table :: "ttop_packet \<Rightarrow> trans_file_table \<Rightarrow> trans_file_table" where
  "overwrite_table pkt tft =
     (let n = unat (th_data_len (ttop_hdr pkt))
      in table_of_bytes (field 0 n (ttop_data pkt) @ drop n (table_bytes tft)))"

definition sync_files :: "ttop_packet \<Rightarrow> target list \<Rightarrow> u8 list \<Rightarrow> client \<Rightarrow> (int \<times> u8 list \<times> client) res" where
  "sync_files stack ts input cl =
     ebind (get_file_table (cl_ip cl) ts (file_table_init (cl_ft cl))) (\<lambda>(r, ft).
       let cl = cl\<lparr>cl_ft := ft\<rparr> in
       if r \<noteq> 0 then Inr (r, input, cl)
       else
         ebind (trans_table_fill_from ft) (\<lambda>tft.
         ebind (ptot_packet_fill (ptot_packet_init (cl_ip cl) PEER_SYNC) (table_bytes tft)
                 (sint (ucast (trans_table_len tft) :: u32))) (\<lambda>pkt.
         let (r, cl) = cl_send pkt cl in
         if r < 0 then Inr (r, input, cl)
         else ebind (recv_ttop_packet input stack) (\<lambda>(r, pkt, input).
           if r < 0 then Inr (r, input, cl)
           else if th_type (ttop_hdr pkt) \<noteq> TRACKER_SYNC then Inr (-1, input, cl)
           else ebind (file_table_sync (overwrite_table pkt tft) cl) (\<lambda>cl. Inr (0, input, cl))))))"

definition client_cleanup :: "client \<Rightarrow> client res" where
  "client_cleanup cl = ebind (file_table_destroy (cl_ft cl)) (\<lambda>ft. Inr (cl\<lparr>cl_ft := ft\<rparr>))"

section \<open>The threads\<close>

text \<open>The loop of \<open>ttop_receiver_task\<close> on everything that arrives before the connection fails.\<close>

function ttop_receiver_task :: "kernel \<Rightarrow> u8 list \<Rightarrow> ttop_packet \<Rightarrow> client \<Rightarrow> client res" where
  "ttop_receiver_task K input pkt cl =
     (case recv_ttop_packet input pkt of
        Inl e \<Rightarrow> Inl e
      | Inr (r, pkt, input) \<Rightarrow>
          if r > 0 then ebind (receive_packet K pkt cl) (\<lambda>cl. ttop_receiver_task K input pkt cl) else Inr cl)"
  by pat_completeness auto

termination
  by (relation "measure (\<lambda>(K, input, pkt, cl). length input)") (auto dest: recv_packet_shorter(1))

declare ttop_receiver_task.simps [simp del]

text \<open>
  One step of the peer: a packet of the tracker is handled, the monitor handles a buffer of events, a
  download that was started runs to its end, the keep-alive thread sends. The watch descriptors \<open>K\<close>
  and the times of the files \<open>st\<close> are those of the moment.
\<close>

datatype cl_event =
    C_Packet ttop_packet
  | C_Batch "inotify_event list"
  | C_Download nat dl_env
  | C_Alive u64

fun cl_exec :: "kernel \<Rightarrow> (string \<Rightarrow> u64 option) \<Rightarrow> cl_event \<Rightarrow> client \<Rightarrow> client res" where
  "cl_exec K st (C_Packet pkt) cl = receive_packet K pkt cl"
| "cl_exec K st (C_Batch evs) cl =
     ebind (monitor_batch (cl_ip cl) K st evs (cl_mt cl, cl_ft cl, cl_sock cl)) (\<lambda>(mt, ft, s).
       Inr (cl\<lparr>cl_mt := mt, cl_ft := ft, cl_sock := s\<rparr>))"
| "cl_exec K st (C_Download i env) cl =
     (if i < length (cl_downloads cl)
      then ebind (ptop_download_task K env (cl_downloads cl ! i) cl) (\<lambda>r.
             Inr (case r of
                    None \<Rightarrow> cl
                  | Some (_, cl') \<Rightarrow> cl'\<lparr>cl_downloads := drop_at i (cl_downloads cl')\<rparr>))
      else Inr cl)"
| "cl_exec K st (C_Alive now) cl = ebind (keep_alive_task now cl) (\<lambda>(_, cl). Inr cl)"

end
