(* ===== verification/MonitorProps.thy ===== *)
theory MonitorProps
  imports Monitor
begin

text \<open>
  Properties of the file monitor: the invariant of the table of watched directories, the translation of
  names, and the directories \<open>file_monitor_block\<close> makes. Where the code relies on the descriptors of the kernel, this
  is the assumption \<open>kernel_fits\<close>.
\<close>

section \<open>The invariant of the table\<close>

definition target_at :: "monitor_table \<Rightarrow> ptr \<Rightarrow> monitor_target \<Rightarrow> bool" where
  "target_at mt p t \<longleftrightarrow> p \<in> set (mt_head mt) \<and> cells (mt_heap mt) p = Some t"

definition target_ok :: "monitor_table \<Rightarrow> ptr \<Rightarrow> monitor_target \<Rightarrow> bool" where
  "target_ok mt p t \<longleftrightarrow> 0 \<le> t_wd t \<and> nat (t_wd t) < WD_HASH_SIZE \<and> mt_targets mt ! nat (t_wd t) = p \<and>
     length (t_sys_name t) < MAX_NAME_LEN \<and> length (t_logic_name t) < MAX_NAME_LEN"

text \<open>The list holds valid targets, no target twice, and all targets that are allocated; every target
  is in the slot of its descriptor, and every slot that is used holds the target of this descriptor.\<close>

definition mt_inv :: "monitor_table \<Rightarrow> bool" where
  "mt_inv mt \<longleftrightarrow> heap_ok (mt_heap mt) \<and> distinct (mt_head mt) \<and> length (mt_targets mt) = WD_HASH_SIZE \<and>
     (\<forall>p \<in> set (mt_head mt). \<exists>t. cells (mt_heap mt) p = Some t \<and> target_ok mt p t) \<and>
     (\<forall>i < WD_HASH_SIZE. mt_targets mt ! i \<noteq> NULL \<longrightarrow>
        (\<exists>t. target_at mt (mt_targets mt ! i) t \<and> t_wd t = int i)) \<and>
     (\<forall>p t. cells (mt_heap mt) p = Some t \<longrightarrow> p \<in> set (mt_head mt))"

text \<open>The part of it that does not depend on the descriptors the kernel gives.\<close>

definition mt_live :: "monitor_table \<Rightarrow> bool" where
  "mt_live mt \<longleftrightarrow> heap_ok (mt_heap mt) \<and> distinct (mt_head mt) \<and> (\<forall>p. p \<in> set (mt_head mt) \<longleftrightarrow> cells (mt_heap mt) p \<noteq> None)"

text \<open>The name of the system that belongs to a logic name: \<open>R\<close> gives the target directory for the part
  in front of the first slash.\<close>

definition sys_of :: "(string \<Rightarrow> string option) \<Rightarrow> string \<Rightarrow> string option" where
  "sys_of R l = map_option (\<lambda>d. d @ dropWhile (\<lambda>c. c \<noteq> slash) l) (R (takeWhile (\<lambda>c. c \<noteq> slash) l))"

definition mt_names :: "(string \<Rightarrow> string option) \<Rightarrow> monitor_table \<Rightarrow> bool" where
  "mt_names R mt \<longleftrightarrow> (\<forall>p t. target_at mt p t \<longrightarrow> sys_of R (t_logic_name t) = Some (t_sys_name t))"

text \<open>What the code relies on: a path that is watched keeps its descriptor, two paths do not share
  one, and descriptors stay below the size of the table.\<close>

definition kernel_fits :: "kernel \<Rightarrow> monitor_table \<Rightarrow> bool" where
  "kernel_fits K mt \<longleftrightarrow> (\<forall>path. K path < int WD_HASH_SIZE) \<and>
     (\<forall>path path'. 0 \<le> K path \<longrightarrow> K path = K path' \<longrightarrow> path = path') \<and>
     (\<forall>p t. target_at mt p t \<longrightarrow> K (t_sys_name t) = t_wd t)"

lemma sys_of_append: "sys_of R l = Some s \<Longrightarrow> sys_of R (l @ slash # x) = Some (s @ slash # x)"
  by (cases "slash \<in> set l") (auto simp: sys_of_def takeWhile_tail dropWhile_append3)

lemma mt_inv_live: "mt_inv mt \<Longrightarrow> mt_live mt"
  by (auto simp: mt_inv_def mt_live_def)

lemma target_at_ok: "mt_inv mt \<Longrightarrow> target_at mt p t \<Longrightarrow> target_ok mt p t"
  by (auto simp: mt_inv_def target_at_def)

lemma target_at_fun: "target_at mt p t \<Longrightarrow> target_at mt p t' \<Longrightarrow> t' = t"
  by (simp add: target_at_def)

lemma live_not_null: "mt_live mt \<Longrightarrow> target_at mt p t \<Longrightarrow> p \<noteq> NULL"
  by (auto simp: mt_live_def target_at_def dest: heap_ok_not_null)

lemma live_head: "mt_live mt \<Longrightarrow> p \<in> set (mt_head mt) \<Longrightarrow> \<exists>t. target_at mt p t"
  by (auto simp: mt_live_def target_at_def)

lemma live_hget: "mt_live mt \<Longrightarrow> hget (mt_heap mt) p = Inr t \<longleftrightarrow> target_at mt p t"
  by (auto simp: mt_live_def target_at_def hget_eq_Inr)

lemmas target_not_null = live_not_null [OF mt_inv_live]
lemmas head_target = live_head [OF mt_inv_live]
lemmas hget_target = live_hget [OF mt_inv_live]

lemma slot_target:
  "mt_inv mt \<Longrightarrow> i < WD_HASH_SIZE \<Longrightarrow> mt_targets mt ! i \<noteq> NULL \<Longrightarrow> \<exists>t. target_at mt (mt_targets mt ! i) t \<and> t_wd t = int i"
  by (simp add: mt_inv_def)

lemma target_unique_wd:
  assumes "mt_inv mt" and "target_at mt p t" and "target_at mt q u" and "t_wd t = t_wd u"
  shows "p = q"
  using target_at_ok [OF assms(1,2)] target_at_ok [OF assms(1,3)] assms(4) by (auto simp: target_ok_def)

text \<open>The parts of the table the invariant does not depend on.\<close>

lemma mt_frame [simp]:
  "target_at (mt\<lparr>mt_masks := x\<rparr>) = target_at mt" "target_at (mt\<lparr>mt_calls := y\<rparr>) = target_at mt"
  "target_at (mt\<lparr>mt_callocs := z\<rparr>) = target_at mt"
  "mt_inv (mt\<lparr>mt_masks := x\<rparr>) = mt_inv mt" "mt_inv (mt\<lparr>mt_calls := y\<rparr>) = mt_inv mt"
  "mt_inv (mt\<lparr>mt_callocs := z\<rparr>) = mt_inv mt"
  "mt_names R (mt\<lparr>mt_masks := x\<rparr>) = mt_names R mt" "mt_names R (mt\<lparr>mt_calls := y\<rparr>) = mt_names R mt"
  "mt_names R (mt\<lparr>mt_callocs := z\<rparr>) = mt_names R mt"
  "kernel_fits K (mt\<lparr>mt_masks := x\<rparr>) = kernel_fits K mt" "kernel_fits K (mt\<lparr>mt_calls := y\<rparr>) = kernel_fits K mt"
  "kernel_fits K (mt\<lparr>mt_callocs := z\<rparr>) = kernel_fits K mt"
  by (simp_all add: fun_eq_iff target_at_def mt_inv_def target_ok_def mt_names_def kernel_fits_def)

section \<open>Adding and removing a target\<close>

definition add_target :: "int \<Rightarrow> string \<Rightarrow> string \<Rightarrow> bool list \<Rightarrow> monitor_table \<Rightarrow> monitor_table" where
  "add_target wd s l al mt = mt\<lparr>mt_masks := (mt_masks mt)(wd \<mapsto> DEFAULT_WATCH_MASK), mt_callocs := al,
     mt_heap := snd (hnew \<lparr>t_wd = wd, t_sys_name = s, t_logic_name = l\<rparr> (mt_heap mt)),
     mt_targets := (mt_targets mt)[nat wd := brk (mt_heap mt)],
     mt_head := mt_head mt @ [brk (mt_heap mt)], mt_n := mt_n mt + 1\<rparr>"

definition watched :: "kernel \<Rightarrow> string \<Rightarrow> monitor_table \<Rightarrow> monitor_table" where
  "watched K s mt = mt\<lparr>mt_masks := (mt_masks mt)(K s \<mapsto> DEFAULT_WATCH_MASK)\<rparr>"

lemma watch_target_add_eq:
  "watch_target_add K s l mt =
     (if K s < 0 then Inr (NULL, mt)
      else if nat (K s) \<ge> WD_HASH_SIZE then Inl Out_Of_Bounds
      else if mt_targets mt ! nat (K s) \<noteq> NULL then Inr (mt_targets mt ! nat (K s), watched K s mt)
      else case answer (mt_callocs mt) of
             (False, al) \<Rightarrow> Inr (NULL, (watched K s mt)\<lparr>mt_callocs := al\<rparr>)
           | (True, al) \<Rightarrow> if length s < MAX_NAME_LEN \<and> length l < MAX_NAME_LEN
                           then Inr (brk (mt_heap mt), add_target (K s) s l al mt) else Inl Out_Of_Bounds)"
  by (auto simp: watch_target_add_def inotify_add_watch_def slot_get_def slot_set_def strcpy_name_def hnew_def
      add_target_def watched_def split: bool.split prod.split)

lemma watched_frame [simp]:
  "target_at (watched K s mt) = target_at mt" "mt_inv (watched K s mt) = mt_inv mt"
  "mt_names R (watched K s mt) = mt_names R mt" "kernel_fits K' (watched K s mt) = kernel_fits K' mt"
  by (simp_all add: watched_def)

lemma watch_target_add_cases:
  assumes "watch_target_add K s l mt = Inr (p, mt')"
  obtains "mt' = mt" "p = NULL" "K s < 0"
    | "mt' = watched K s mt" "p = mt_targets mt ! nat (K s)" "p \<noteq> NULL" "0 \<le> K s" "nat (K s) < WD_HASH_SIZE"
    | al where "mt' = (watched K s mt)\<lparr>mt_callocs := al\<rparr>" "p = NULL" "0 \<le> K s" "nat (K s) < WD_HASH_SIZE"
    | al where "mt' = add_target (K s) s l al mt" "p = brk (mt_heap mt)" "0 \<le> K s" "nat (K s) < WD_HASH_SIZE"
        "mt_targets mt ! nat (K s) = NULL" "length s < MAX_NAME_LEN" "length l < MAX_NAME_LEN"
  using assms by (auto simp: watch_target_add_eq not_less not_le split: if_splits prod.splits bool.splits)

lemma add_target_at:
  assumes "mt_inv mt"
  shows "target_at (add_target wd s l al mt) p t \<longleftrightarrow>
     (if p = brk (mt_heap mt) then t = \<lparr>t_wd = wd, t_sys_name = s, t_logic_name = l\<rparr> else target_at mt p t)"
  using assms heap_ok_fresh [of "mt_heap mt"] by (auto simp: target_at_def add_target_def mt_inv_def)

lemma add_target_inv:
  assumes inv: "mt_inv mt" and "0 \<le> wd" "nat wd < WD_HASH_SIZE" "mt_targets mt ! nat wd = NULL"
    and "length s < MAX_NAME_LEN" "length l < MAX_NAME_LEN"
  shows "mt_inv (add_target wd s l al mt)"
proof -
  let ?mt = "add_target wd s l al mt" and ?b = "brk (mt_heap mt)"
  have h: "heap_ok (mt_heap mt)" "length (mt_targets mt) = WD_HASH_SIZE" "distinct (mt_head mt)" "0 < ?b"
    using inv by (simp_all add: mt_inv_def)
  have fresh: "?b \<notin> set (mt_head mt)"
    using heap_ok_fresh [OF h(1)] head_target [OF inv, of ?b] by (auto simp: target_at_def)
  have parts: "mt_heap ?mt = snd (hnew \<lparr>t_wd = wd, t_sys_name = s, t_logic_name = l\<rparr> (mt_heap mt))"
    "mt_head ?mt = mt_head mt @ [?b]" "mt_targets ?mt = (mt_targets mt)[nat wd := ?b]" by (simp_all add: add_target_def)
  have "\<exists>t. cells (mt_heap ?mt) p = Some t \<and> target_ok ?mt p t" if "p \<in> set (mt_head ?mt)" for p
  proof (cases "p = ?b")
    case True
    with assms(2,3,5,6) h(2) show ?thesis by (simp add: parts target_ok_def)
  next
    case False
    with that obtain t where t: "target_at mt p t" using head_target [OF inv] by (auto simp: parts)
    have "nat (t_wd t) \<noteq> nat wd"
      using target_at_ok [OF inv t] target_not_null [OF inv t] assms(4) by (auto simp: target_ok_def)
    with t False target_at_ok [OF inv t] show ?thesis by (auto simp: parts target_at_def target_ok_def)
  qed
  moreover have "\<exists>t. target_at ?mt (mt_targets ?mt ! i) t \<and> t_wd t = int i"
    if i: "i < WD_HASH_SIZE" "mt_targets ?mt ! i \<noteq> NULL" for i
  proof (cases "i = nat wd")
    case True
    with assms(2,3) h(2) show ?thesis by (auto simp: add_target_at [OF inv] parts)
  next
    case False
    with i slot_target [OF inv, of i] obtain t where t: "target_at mt (mt_targets mt ! i) t" "t_wd t = int i"
      by (auto simp: parts)
    then have "mt_targets mt ! i \<noteq> ?b" using fresh by (auto simp: target_at_def)
    with t False show ?thesis by (auto simp: add_target_at [OF inv] parts)
  qed
  moreover have "heap_ok (mt_heap ?mt)" "distinct (mt_head ?mt)" "length (mt_targets ?mt) = WD_HASH_SIZE"
    using h fresh by (simp_all add: parts)
  moreover have "p \<in> set (mt_head ?mt)" if "cells (mt_heap ?mt) p = Some t" for p t
    using that inv by (auto simp: parts mt_inv_def split: if_splits)
  ultimately show ?thesis by (auto simp: mt_inv_def)
qed

definition mt_ok :: "(string \<Rightarrow> string option) \<Rightarrow> monitor_table \<Rightarrow> bool" where
  "mt_ok R mt \<longleftrightarrow> mt_inv mt \<and> mt_names R mt"

lemma add_target_fits:
  assumes "mt_inv mt" and "kernel_fits K mt"
  shows "kernel_fits K (add_target (K s) s l al mt)"
  using assms(2) by (simp add: kernel_fits_def add_target_at [OF assms(1)])

lemma watch_target_add_ok:
  assumes ok: "mt_ok R mt" and fits: "kernel_fits K mt" and name: "sys_of R l = Some s"
    and run: "watch_target_add K s l mt = Inr (p, mt')"
  shows "mt_ok R mt' \<and> kernel_fits K mt' \<and> (p \<noteq> NULL \<longrightarrow> (\<exists>t. target_at mt' p t \<and> t_sys_name t = s))"
proof -
  have inv: "mt_inv mt" using ok by (simp add: mt_ok_def)
  from run show ?thesis
  proof (cases rule: watch_target_add_cases)
    case 1
    with ok fits show ?thesis by simp
  next
    case 2
    from slot_target [OF inv, of "nat (K s)"] 2 obtain t where t: "target_at mt p t" "t_wd t = K s" by auto
    with fits have "K (t_sys_name t) = K s" by (simp add: kernel_fits_def)
    with fits 2(4) have "t_sys_name t = s" by (metis kernel_fits_def)
    with 2 t ok fits show ?thesis by (auto simp: mt_ok_def)
  next
    case 3
    with ok fits show ?thesis by (simp add: mt_ok_def)
  next
    case (4 al)
    have "mt_names R mt'"
      using ok name by (auto simp: 4(1) mt_names_def mt_ok_def add_target_at [OF inv])
    with 4 add_target_inv [OF inv 4(3-7), of al] add_target_fits [OF inv fits, of s l al] show ?thesis
      by (auto simp: mt_ok_def add_target_at [OF inv])
  qed
qed

definition drop_target :: "ptr \<Rightarrow> monitor_target \<Rightarrow> monitor_table \<Rightarrow> monitor_table" where
  "drop_target p t mt = mt\<lparr>mt_targets := (mt_targets mt)[nat (t_wd t) := NULL], mt_masks := (mt_masks mt)(t_wd t := None),
     mt_head := remove1 p (mt_head mt), mt_heap := hfree p (mt_heap mt)\<rparr>"

lemma unwatch_eq:
  assumes "mt_inv mt" and "target_at mt p t"
  shows "unwatch_and_free_target p mt = Inr (drop_target p t mt)"
  using assms target_at_ok [OF assms] target_not_null [OF assms]
  by (simp add: unwatch_and_free_target_def target_at_def slot_set_def target_ok_def inotify_rm_watch_def drop_target_def)

lemma drop_target_at:
  assumes "mt_inv mt" and "target_at mt p t"
  shows "target_at (drop_target p t mt) q u \<longleftrightarrow> q \<noteq> p \<and> target_at mt q u"
  using assms by (auto simp: target_at_def drop_target_def mt_inv_def)

lemma drop_target_inv:
  assumes inv: "mt_inv mt" and p: "target_at mt p t"
  shows "mt_inv (drop_target p t mt)"
proof -
  let ?mt = "drop_target p t mt"
  have parts: "mt_head ?mt = remove1 p (mt_head mt)" "mt_heap ?mt = hfree p (mt_heap mt)"
    "mt_targets ?mt = (mt_targets mt)[nat (t_wd t) := NULL]" by (simp_all add: drop_target_def)
  have h: "heap_ok (mt_heap mt)" "length (mt_targets mt) = WD_HASH_SIZE" "distinct (mt_head mt)"
    using inv by (simp_all add: mt_inv_def)
  have t: "0 \<le> t_wd t" "nat (t_wd t) < WD_HASH_SIZE" "mt_targets mt ! nat (t_wd t) = p"
    using target_at_ok [OF inv p] by (simp_all add: target_ok_def)
  have "\<exists>u. cells (mt_heap ?mt) q = Some u \<and> target_ok ?mt q u" if "q \<in> set (mt_head ?mt)" for q
  proof -
    from that h(3) have q: "q \<noteq> p" "q \<in> set (mt_head mt)" by (simp_all add: parts)
    then obtain u where u: "target_at mt q u" using head_target [OF inv] by blast
    have "nat (t_wd u) \<noteq> nat (t_wd t)" using target_at_ok [OF inv u] t(3) q(1) by (auto simp: target_ok_def)
    with u q target_at_ok [OF inv u] show ?thesis by (auto simp: parts target_at_def target_ok_def)
  qed
  moreover have "\<exists>u. target_at ?mt (mt_targets ?mt ! i) u \<and> t_wd u = int i"
    if i: "i < WD_HASH_SIZE" "mt_targets ?mt ! i \<noteq> NULL" for i
  proof -
    from i t(2) h(2) have "i \<noteq> nat (t_wd t)" by (auto simp: parts)
    with i have ni: "mt_targets mt ! i \<noteq> NULL" "mt_targets ?mt ! i = mt_targets mt ! i" by (simp_all add: parts)
    with slot_target [OF inv i(1)] obtain u where u: "target_at mt (mt_targets mt ! i) u" "t_wd u = int i" by blast
    with \<open>i \<noteq> nat (t_wd t)\<close> target_at_fun [OF p] have "mt_targets mt ! i \<noteq> p" by auto
    with u ni show ?thesis by (auto simp: drop_target_at [OF inv p])
  qed
  moreover have "q \<in> set (mt_head ?mt)" if "cells (mt_heap ?mt) q = Some u" for q u
    using that inv by (auto simp: parts mt_inv_def split: if_splits)
  ultimately show ?thesis using h by (auto simp: mt_inv_def parts)
qed

lemma drop_target_ok:
  assumes "mt_ok R mt" and "target_at mt p t"
  shows "mt_ok R (drop_target p t mt)" and "kernel_fits K mt \<Longrightarrow> kernel_fits K (drop_target p t mt)"
  using assms drop_target_inv [of mt p t] drop_target_at [of mt p t]
  by (auto simp: mt_ok_def mt_names_def kernel_fits_def)

text \<open>A target whose directory is watched again keeps its descriptor; only the mask changes.\<close>

definition masked :: "int \<Rightarrow> u32 \<Rightarrow> monitor_table \<Rightarrow> monitor_table" where
  "masked wd flags mt = mt\<lparr>mt_masks := (mt_masks mt)(wd \<mapsto> flags)\<rparr>"

lemma masked_frame [simp]:
  "target_at (masked w f mt) = target_at mt" "mt_inv (masked w f mt) = mt_inv mt"
  "mt_names R (masked w f mt) = mt_names R mt" "kernel_fits K (masked w f mt) = kernel_fits K mt"
  "mt_ok R (masked w f mt) = mt_ok R mt"
  by (simp_all add: masked_def mt_ok_def)

lemma watch_again_eq:
  assumes inv: "mt_inv mt" and fits: "kernel_fits K mt" and t: "target_at mt p t"
  shows "watch_again K f p mt = Inr (masked (t_wd t) f mt)"
proof -
  have K: "K (t_sys_name t) = t_wd t" "0 \<le> t_wd t"
    using fits t target_at_ok [OF inv t] by (auto simp: kernel_fits_def target_ok_def)
  have "hput p t (mt_heap mt) = mt_heap mt" using t by (simp add: target_at_def hput_same)
  with K t target_not_null [OF inv t] show ?thesis
    by (simp add: watch_again_def target_at_def inotify_add_watch_def masked_def)
qed

lemma find_logic_head:
  assumes inv: "mt_live mt" and "set ps \<subseteq> set (mt_head mt)"
  shows "\<exists>q. find_logic (mt_heap mt) name ps = Inr q \<and>
     (if q = NULL then \<forall>p t. p \<in> set ps \<longrightarrow> target_at mt p t \<longrightarrow> t_logic_name t \<noteq> name
      else \<exists>t. target_at mt q t \<and> t_logic_name t = name)"
  using assms(2)
proof (induction ps)
  case Nil
  then show ?case by simp
next
  case (Cons p ps)
  then obtain t where t: "target_at mt p t" using live_head [OF inv] by fastforce
  have run: "find_logic (mt_heap mt) name (p # ps) =
      (if t_logic_name t = name then Inr p else find_logic (mt_heap mt) name ps)"
    using t by (simp add: target_at_def)
  show ?case
  proof (cases "t_logic_name t = name")
    case True
    with run t live_not_null [OF inv t] show ?thesis by auto
  next
    case False
    from Cons obtain q where q: "find_logic (mt_heap mt) name ps = Inr q"
      "if q = NULL then \<forall>p t. p \<in> set ps \<longrightarrow> target_at mt p t \<longrightarrow> t_logic_name t \<noteq> name
       else \<exists>t. target_at mt q t \<and> t_logic_name t = name" by auto
    with False run target_at_fun [OF t] show ?thesis by (cases "q = NULL") auto
  qed
qed

definition logic_known :: "monitor_table \<Rightarrow> string \<Rightarrow> bool" where
  "logic_known mt l \<longleftrightarrow> (\<exists>p t. target_at mt p t \<and> t_logic_name t = l)"

lemma find_live:
  assumes "mt_live mt"
  obtains "\<not> logic_known mt l" "find_logic (mt_heap mt) l (mt_head mt) = Inr NULL"
    | q t where "logic_known mt l" "find_logic (mt_heap mt) l (mt_head mt) = Inr q" "q \<noteq> NULL"
        "target_at mt q t" "t_logic_name t = l"
  using find_logic_head [OF assms order_refl, of l]
  by (auto simp: logic_known_def target_at_def split: if_splits)

lemma find_target:
  assumes "mt_inv mt"
  obtains "\<not> logic_known mt l" "find_logic (mt_heap mt) l (mt_head mt) = Inr NULL"
    | q t where "logic_known mt l" "find_logic (mt_heap mt) l (mt_head mt) = Inr q" "q \<noteq> NULL"
        "target_at mt q t" "t_logic_name t = l"
  by (rule find_live [OF mt_inv_live [OF assms], of l]) (use that in blast)+

section \<open>Names\<close>

lemma rindex_slash: "slash \<notin> set f \<Longrightarrow> rindex slash (d @ slash # f) = Some (length d)"
  by (simp add: rindex_def takeWhile_append2 takeWhile_append)

lemma rindex_SomeE:
  assumes "rindex slash l = Some i"
  obtains f where "l = take i l @ slash # f" "slash \<notin> set f" "drop i l = slash # f"
proof -
  from assms have "slash \<in> set l" by (auto simp: rindex_def split: if_splits)
  then obtain d f where l: "l = d @ slash # f" "slash \<notin> set f" by (metis split_list_last)
  with rindex_slash [OF l(2), of d] assms have "i = length d" by simp
  with l that show ?thesis by auto
qed

lemma sys_name_in_eq:
  assumes ok: "mt_names R mt" and t: "target_at mt p t" and l: "rindex slash l = Some i" "t_logic_name t = take i l"
  shows "\<exists>s. sys_of R l = Some s \<and> sys_name_in mt l p = strcpy_name s"
proof -
  from l(1) obtain f where f: "l = take i l @ slash # f" "drop i l = slash # f" by (rule rindex_SomeE)
  have "sys_of R (take i l) = Some (t_sys_name t)" using ok t l(2) by (metis mt_names_def)
  from sys_of_append [OF this, of f] f(1) have "sys_of R l = Some (t_sys_name t @ drop i l)" using f(2) by simp
  with t l(1) show ?thesis by (simp add: sys_name_in_def target_at_def)
qed

lemma get_sys_name_eq:
  assumes live: "mt_live mt" and ok: "mt_names R mt" and al: "mt_callocs mt = []"
  shows "get_sys_name l mt =
     (case rindex slash l of
        None \<Rightarrow> Inl Bad_Pointer
      | Some i \<Rightarrow> if logic_known mt (take i l) then ebind (strcpy_name (the (sys_of R l))) (\<lambda>s. Inr (Some s, mt))
                  else Inr (None, mt))"
proof (cases "rindex slash l")
  case None
  then show ?thesis by (simp add: get_sys_name_def al get_file_target_def)
next
  case (Some i)
  have mt: "mt\<lparr>mt_callocs := []\<rparr> = mt" using al by (cases mt) simp
  from live show ?thesis
  proof (cases rule: find_live [where l = "take i l"])
    case 1
    with Some show ?thesis by (simp add: get_sys_name_def al mt get_file_target_def)
  next
    case (2 q t)
    from sys_name_in_eq [OF ok 2(4) Some 2(5)] obtain s where
      "sys_of R l = Some s" "sys_name_in mt l q = strcpy_name s" by blast
    with 2 Some show ?thesis by (simp add: get_sys_name_def al mt get_file_target_def)
  qed
qed

section \<open>Blocking\<close>

lemma deepest_append: "deepest mt l (xs @ ys) p = ebind (deepest mt l xs p) (deepest mt l ys)"
  by (induction xs arbitrary: p) (auto simp: ebind_def split: sum.split)

lemma deepest_unknown:
  assumes inv: "mt_inv mt" and "\<forall>i \<in> set ks. \<not> logic_known mt (take i l)"
  shows "deepest mt l ks p = Inr p"
  using assms(2)
proof (induction ks)
  case (Cons i ks)
  then show ?case by (cases rule: find_target [OF inv, of "take i l"]) simp_all
qed simp

lemma deepest_total:
  assumes inv: "mt_inv mt"
  shows "\<exists>q. deepest mt l ks p = Inr q"
proof (induction ks arbitrary: p)
  case (Cons i ks)
  then show ?case by (cases rule: find_target [OF inv, of "take i l"]) simp_all
qed simp

lemma deepest_last:
  assumes inv: "mt_inv mt" and "logic_known mt (take i l)" and "\<forall>j \<in> set js. \<not> logic_known mt (take j l)"
  shows "\<exists>q t. deepest mt l (ks @ i # js) p = Inr q \<and> q \<noteq> NULL \<and> target_at mt q t \<and> t_logic_name t = take i l"
proof -
  from deepest_total [OF inv] obtain q0 where q0: "deepest mt l ks p = Inr q0" by blast
  from inv show ?thesis
  proof (cases rule: find_target [where l = "take i l"])
    case 1
    with assms(2) show ?thesis by simp
  next
    case (2 q t)
    with q0 deepest_unknown [OF inv assms(3), of q] show ?thesis by (auto simp: deepest_append)
  qed
qed

text \<open>A path below a directory, and the names in it.\<close>

definition join :: "string \<Rightarrow> string list \<Rightarrow> string" where
  "join a ns = foldl (\<lambda>d n. d @ slash # n) a ns"

lemma join_simps [simp]:
  "join a [] = a" "join a (n # ns) = join (a @ slash # n) ns" "join a (ns @ [n]) = join a ns @ slash # n"
  by (simp_all add: join_def)

lemma join_append: "join a (ns @ ms) = join (join a ns) ms"
  by (simp add: join_def)

lemma join_prefix: "\<exists>z. join a ns = a @ z"
proof (induction ns arbitrary: a)
  case (Cons n ns)
  from Cons [of "a @ slash # n"] show ?case by auto
qed simp

lemma join_take: "\<exists>z. join a ns = join a (take k ns) @ z"
  using join_prefix [of "join a (take k ns)" "drop k ns"] by (metis append_take_drop_id join_append)

lemma join_shift: "join (a @ b) ns = a @ join b ns"
  by (induction ns arbitrary: b) simp_all

lemma slashes_append: "slashes (x @ y) = slashes x @ map (\<lambda>i. length x + i) (slashes y)"
proof -
  have upt: "[length x..<length x + length y] = map (\<lambda>i. length x + i) [0..<length y]"
    using map_add_upt [of "length x" "length y"] by (simp add: add.commute)
  have "filter (\<lambda>i. (x @ y) ! i = slash) [0..<length x] = slashes x"
    unfolding slashes_def by (rule filter_cong) (auto simp: nth_append)
  moreover have "filter (\<lambda>i. (x @ y) ! i = slash) (map (\<lambda>i. length x + i) [0..<length y]) =
      map (\<lambda>i. length x + i) (slashes y)"
    by (simp add: filter_map comp_def slashes_def)
  ultimately show ?thesis unfolding slashes_def length_append upt_add_eq_append [OF le0] filter_append upt
    by simp
qed

lemma slashes_none: "slash \<notin> set f \<Longrightarrow> slashes f = []"
  unfolding slashes_def filter_empty_conv by (metis atLeastLessThan_iff nth_mem set_upt)

lemma slashes_file: "slash \<notin> set f \<Longrightarrow> slashes (x @ slash # f) = slashes x @ [length x]"
proof -
  assume f: "slash \<notin> set f"
  have "slashes (x @ [slash] @ f) = slashes x @ [length x]"
    unfolding slashes_append by (simp add: slashes_none [OF f]) (simp add: slashes_def)
  then show ?thesis by simp
qed

lemma slashes_join:
  "\<forall>n \<in> set ns. slash \<notin> set n \<Longrightarrow> slashes (join a ns) = slashes a @ map (\<lambda>k. length (join a (take k ns))) [0..<length ns]"
proof (induction ns rule: rev_induct)
  case (snoc n ns)
  have "map (\<lambda>k. length (join a (take k (ns @ [n])))) [0..<length ns] = map (\<lambda>k. length (join a (take k ns))) [0..<length ns]"
    by simp
  with snoc show ?case by (simp add: slashes_file)
qed simp

lemma components_plain: "slash \<notin> set f \<Longrightarrow> components acc f = []"
  by (induction f arbitrary: acc) auto

lemma components_step: "slash \<notin> set n \<Longrightarrow> components acc (n @ slash # x) = (acc @ n) # components [] x"
  by (induction n arbitrary: acc) auto

lemma components_join:
  assumes "\<forall>n \<in> set ns. slash \<notin> set n" and "slash \<notin> set f"
  shows "components [] (drop (length a + 1) (join a ns @ slash # f)) = ns"
  using assms(1)
proof (induction ns arbitrary: a)
  case Nil
  then show ?case using assms(2) by (simp add: components_plain)
next
  case (Cons n ns)
  from Cons.IH [of "a @ slash # n"] Cons.prems
  have IH: "components [] (drop (length a + 1 + length n + 1) (join (a @ slash # n) ns @ slash # f)) = ns" by simp
  obtain x where x: "join (a @ slash # n) ns @ slash # f = (a @ slash # n) @ slash # x"
  proof (cases ns)
    case Nil
    then show ?thesis using that [of f] by simp
  next
    case (Cons m ms)
    have "join (a @ slash # n) ns = (a @ slash # n) @ slash # join m ms"
      using join_shift [of "a @ slash # n @ [slash]" m ms] by (simp add: Cons)
    with that [of "join m ms @ slash # f"] show ?thesis by simp
  qed
  have "n \<in> set (n # ns)" by simp
  with Cons.prems have "slash \<notin> set n" by blast
  with IH show ?case by (simp add: x components_step)
qed

text \<open>Target directories are different and none lies in another one: a directory of the system has one
  logic name.\<close>

definition roots_apart :: "(string \<Rightarrow> string option) \<Rightarrow> bool" where
  "roots_apart R \<longleftrightarrow> (\<forall>l l' s. sys_of R l = Some s \<longrightarrow> sys_of R l' = Some s \<longrightarrow> l = l')"

text \<open>The directories that are watched, by their two names.\<close>

definition mt_pairs :: "monitor_table \<Rightarrow> (string \<times> string) set" where
  "mt_pairs mt = {(t_sys_name t, t_logic_name t) | t. \<exists>p. target_at mt p t}"

lemma watch_target_add_total:
  assumes ok: "mt_ok R mt" and fits: "kernel_fits K mt" and apart: "roots_apart R" and name: "sys_of R l = Some s"
    and al: "mt_callocs mt = []" and K: "0 \<le> K s" and len: "length s < MAX_NAME_LEN" "length l < MAX_NAME_LEN"
  shows "\<exists>p t mt'. watch_target_add K s l mt = Inr (p, mt') \<and> mt_ok R mt' \<and> kernel_fits K mt' \<and> mt_callocs mt' = [] \<and>
     target_at mt' p t \<and> t_sys_name t = s \<and> t_logic_name t = l \<and> mt_calls mt' = mt_calls mt \<and>
     mt_pairs mt' = insert (s, l) (mt_pairs mt) \<and>
     (\<forall>l'. logic_known mt l' \<longrightarrow> logic_known mt' l') \<and> mt_masks mt' = (mt_masks mt)(t_wd t \<mapsto> DEFAULT_WATCH_MASK)"
proof -
  have inv: "mt_inv mt" using ok by (simp add: mt_ok_def)
  have wd: "\<not> K s < 0" "nat (K s) < WD_HASH_SIZE" using K fits by (auto simp: kernel_fits_def nat_less_iff)
  show ?thesis
  proof (cases "mt_targets mt ! nat (K s) = NULL")
    case True
    let ?mt = "add_target (K s) s l [] mt"
    have run: "watch_target_add K s l mt = Inr (brk (mt_heap mt), ?mt)"
      using True wd len by (simp add: watch_target_add_eq al)
    have "logic_known ?mt l'" if "logic_known mt l'" for l'
      using that target_not_null [OF inv] heap_ok_fresh [of "mt_heap mt"] inv
      by (auto simp: logic_known_def add_target_at [OF inv]) (metis mt_inv_def option.distinct(1) target_at_def)
    moreover have at: "target_at ?mt q u \<longleftrightarrow> q = brk (mt_heap mt) \<and> u = \<lparr>t_wd = K s, t_sys_name = s, t_logic_name = l\<rparr> \<or> target_at mt q u" for q u
    proof -
      have "target_at mt q u \<Longrightarrow> q \<noteq> brk (mt_heap mt)"
        using inv heap_ok_fresh [of "mt_heap mt"] by (auto simp: mt_inv_def target_at_def)
      then show ?thesis unfolding add_target_at [OF inv] by auto
    qed
    have "(s, l) \<in> mt_pairs ?mt" unfolding mt_pairs_def at
      by (intro CollectI exI [of _ "\<lparr>t_wd = K s, t_sys_name = s, t_logic_name = l\<rparr>"]) auto
    then have "mt_pairs ?mt = insert (s, l) (mt_pairs mt)" unfolding mt_pairs_def at by auto
    ultimately show ?thesis using run watch_target_add_ok [OF ok fits name run]
      by (intro exI [of _ "brk (mt_heap mt)"] exI [of _ "\<lparr>t_wd = K s, t_sys_name = s, t_logic_name = l\<rparr>"] exI [of _ ?mt])
         (simp add: add_target_at [OF inv], simp add: add_target_def)
  next
    case False
    let ?p = "mt_targets mt ! nat (K s)"
    have run: "watch_target_add K s l mt = Inr (?p, watched K s mt)"
      using False wd by (simp add: watch_target_add_eq)
    from watch_target_add_ok [OF ok fits name run] False obtain t where
      t: "target_at (watched K s mt) ?p t" "t_sys_name t = s" "mt_ok R (watched K s mt)" by auto
    then have "sys_of R (t_logic_name t) = Some s" by (metis mt_ok_def mt_names_def)
    with apart name have "t_logic_name t = l" by (metis roots_apart_def)
    moreover have "t_wd t = K s" using t fits by (auto simp: kernel_fits_def)
    moreover have "mt_pairs (watched K s mt) = insert (s, l) (mt_pairs mt)"
      using t(1,2) \<open>t_logic_name t = l\<close> by (auto simp: mt_pairs_def)
    ultimately show ?thesis using t run watch_target_add_ok [OF ok fits name run] al
      by (intro exI [of _ ?p] exI [of _ t] exI [of _ "watched K s mt"]) (simp add: logic_known_def, simp add: watched_def)
  qed
qed

lemma make_dir_total:
  assumes ok: "mt_ok R mt" and fits: "kernel_fits K mt" and apart: "roots_apart R" and t: "target_at mt p t"
    and al: "mt_callocs mt = []" and K: "0 \<le> K (t_sys_name t @ slash # n)"
    and len: "length (t_sys_name t @ slash # n) < MAX_NAME_LEN" "length (t_logic_name t @ slash # n) < MAX_NAME_LEN"
  shows "\<exists>p' t' mt'. make_dir K n (p, mt) = Inr (p', mt') \<and> mt_ok R mt' \<and> kernel_fits K mt' \<and> mt_callocs mt' = [] \<and>
     target_at mt' p' t' \<and> t_sys_name t' = t_sys_name t @ slash # n \<and> t_logic_name t' = t_logic_name t @ slash # n \<and>
     mt_calls mt' = mt_calls mt @ [FS_Mkdir (t_sys_name t @ slash # n)] \<and>
     (\<forall>l'. logic_known mt l' \<longrightarrow> logic_known mt' l')"
proof -
  let ?s = "t_sys_name t @ slash # n" and ?l = "t_logic_name t @ slash # n"
  have inv: "mt_inv mt" using ok by (simp add: mt_ok_def)
  let ?mt1 = "masked (t_wd t) BLOCK_ALL_MASK mt"
  let ?mt2 = "?mt1\<lparr>mt_calls := mt_calls mt @ [FS_Mkdir ?s]\<rparr>"
  let ?mt3 = "masked (t_wd t) DEFAULT_WATCH_MASK ?mt2"
  have "monitor_block K p mt = Inr ?mt1" by (simp add: monitor_block_def watch_again_eq [OF inv fits t])
  moreover have "file_monitor_unblock K p ?mt2 = Inr ?mt3"
    unfolding file_monitor_unblock_def by (rule watch_again_eq) (use inv fits t in simp_all)
  moreover have c: "mt_calls ?mt1 = mt_calls mt" "mt_callocs ?mt3 = []" "mt_calls ?mt3 = mt_calls mt @ [FS_Mkdir ?s]"
    using al by (simp_all add: masked_def)
  ultimately have run: "make_dir K n (p, mt) = watch_target_add K ?s ?l ?mt3"
    using t len by (simp add: make_dir_def target_at_def sprintf_path_def strcpy_name_def)
  have name: "sys_of R ?l = Some ?s"
    using ok t by (intro sys_of_append) (auto simp: mt_ok_def mt_names_def)
  have ok3: "mt_ok R ?mt3" "kernel_fits K ?mt3" using ok fits by (simp_all add: mt_ok_def)
  from watch_target_add_total [OF ok3 apart name c(2) K len] c(3) run show ?thesis
    by (auto simp: logic_known_def)
qed

lemma make_dirs_total:
  assumes "mt_ok R mt" and "kernel_fits K mt" and apart: "roots_apart R" and "target_at mt p t"
    and "mt_callocs mt = []" and "\<forall>k < length ns. 0 \<le> K (join (t_sys_name t) (take (Suc k) ns))"
    and "length (join (t_sys_name t) ns) < MAX_NAME_LEN" "length (join (t_logic_name t) ns) < MAX_NAME_LEN"
  shows "\<exists>p' t' mt'. efold (make_dir K) ns (p, mt) = Inr (p', mt') \<and> mt_ok R mt' \<and> kernel_fits K mt' \<and> mt_callocs mt' = [] \<and>
     target_at mt' p' t' \<and> t_sys_name t' = join (t_sys_name t) ns \<and> t_logic_name t' = join (t_logic_name t) ns \<and>
     mt_calls mt' = mt_calls mt @ map (\<lambda>k. FS_Mkdir (join (t_sys_name t) (take (Suc k) ns))) [0..<length ns] \<and>
     (\<forall>l'. logic_known mt l' \<longrightarrow> logic_known mt' l')"
  using assms(1,2,4-8)
proof (induction ns arbitrary: p t mt)
  case Nil
  then show ?case by auto
next
  case (Cons n ns)
  obtain z z' where z: "join (t_sys_name t) (n # ns) = (t_sys_name t @ slash # n) @ z"
      "join (t_logic_name t) (n # ns) = (t_logic_name t @ slash # n) @ z'"
    using join_prefix [of "t_sys_name t @ slash # n" ns] join_prefix [of "t_logic_name t @ slash # n" ns] by auto
  then have len: "length (t_sys_name t @ slash # n) < MAX_NAME_LEN" "length (t_logic_name t @ slash # n) < MAX_NAME_LEN"
    using Cons.prems(6,7) by simp_all
  have K: "0 \<le> K (t_sys_name t @ slash # n)" using spec [OF Cons.prems(5), of 0] by simp
  from make_dir_total [OF Cons.prems(1,2) apart Cons.prems(3,4) K len] obtain p1 t1 mt1 where
    m: "make_dir K n (p, mt) = Inr (p1, mt1)" "mt_ok R mt1" "kernel_fits K mt1" "mt_callocs mt1 = []" "target_at mt1 p1 t1"
      "t_sys_name t1 = t_sys_name t @ slash # n" "t_logic_name t1 = t_logic_name t @ slash # n"
      "mt_calls mt1 = mt_calls mt @ [FS_Mkdir (t_sys_name t @ slash # n)]" "\<forall>l'. logic_known mt l' \<longrightarrow> logic_known mt1 l'"
    by blast
  have len1: "length (join (t_sys_name t1) ns) < MAX_NAME_LEN" "length (join (t_logic_name t1) ns) < MAX_NAME_LEN"
    using Cons.prems(6,7) m(6,7) by simp_all
  have K1: "\<forall>k < length ns. 0 \<le> K (join (t_sys_name t1) (take (Suc k) ns))"
  proof (intro allI impI)
    fix k
    assume "k < length ns"
    with spec [OF Cons.prems(5), of "Suc k"] show "0 \<le> K (join (t_sys_name t1) (take (Suc k) ns))" by (simp add: m(6))
  qed
  from Cons.IH [OF m(2,3,5,4) K1 len1] obtain p2 t2 mt2 where
    i: "efold (make_dir K) ns (p1, mt1) = Inr (p2, mt2)" "mt_ok R mt2" "kernel_fits K mt2" "mt_callocs mt2 = []"
      "target_at mt2 p2 t2" "t_sys_name t2 = join (t_sys_name t1) ns" "t_logic_name t2 = join (t_logic_name t1) ns"
      "mt_calls mt2 = mt_calls mt1 @ map (\<lambda>k. FS_Mkdir (join (t_sys_name t1) (take (Suc k) ns))) [0..<length ns]"
      "\<forall>l'. logic_known mt1 l' \<longrightarrow> logic_known mt2 l'" by blast
  have "map (\<lambda>k. FS_Mkdir (join (t_sys_name t) (take (Suc k) (n # ns)))) [0..<length (n # ns)] =
      FS_Mkdir (t_sys_name t @ slash # n) # map (\<lambda>k. FS_Mkdir (join (t_sys_name t1) (take (Suc k) ns))) [0..<length ns]"
    unfolding m(6) by (simp only: list.size(4) add_Suc_right add_0_right upt_conv_Cons [of 0 "Suc (length ns)"] zero_less_Suc
        list.map map_Suc_upt [symmetric] map_map comp_def take_Suc_Cons take_0 join_simps)
  with m i show ?case by (intro exI [of _ p2] exI [of _ t2] exI [of _ mt2]) simp
qed

lemma block_known:
  assumes "mt_inv mt" and "kernel_fits K mt" and l: "l = d @ slash # f" "slash \<notin> set f" and "logic_known mt d"
  shows "\<exists>p t. file_monitor_block K l del mt = Inr (p, masked (t_wd t) BLOCK_ALL_MASK mt) \<and> target_at mt p t \<and> t_logic_name t = d"
proof -
  have i: "index_of slash l \<noteq> None" "rindex slash l = Some (length d)"
    using rindex_slash [OF l(2)] by (simp_all add: l(1) index_of_def)
  from assms(1) show ?thesis
  proof (cases rule: find_target [where l = d])
    case 1
    with assms(5) show ?thesis by simp
  next
    case (2 q t)
    have "monitor_block K q mt = Inr (masked (t_wd t) BLOCK_ALL_MASK mt)"
      unfolding monitor_block_def by (rule watch_again_eq [OF assms(1,2) 2(4)])
    with 2 i show ?thesis
      by (intro exI [of _ q] exI [of _ t]) (simp add: file_monitor_block_def get_file_target_def l(1))
  qed
qed

text \<open>
  C16. Before a file is written, its directory is there, watched and blocked. Let the nearest directory
  above the file that is watched have the logic name \<open>a\<close>, and let \<open>ns\<close> be the names of the
  directories between it and the file. Then \<open>file_monitor_block\<close> makes exactly these directories, from
  the top downwards, each at the place in the system that belongs to its logic name, returns the target
  of the directory of the file, and leaves the mask of this directory such that writing to it gives
  no event; the table stays in order, and no target is lost.
\<close>

theorem block_makes_missing_directories:
  assumes ok: "mt_ok R mt" and fits: "kernel_fits K mt" and apart: "roots_apart R" and al: "mt_callocs mt = []"
    and names: "\<forall>n \<in> set (f # ns). slash \<notin> set n" and a: "logic_known mt a" "sys_of R a = Some s"
    and miss: "\<forall>k < length ns. \<not> logic_known mt (join a (take (Suc k) ns))"
    and K: "\<forall>k < length ns. 0 \<le> K (join s (take (Suc k) ns))"
    and len: "length (join a ns) < MAX_NAME_LEN" "length (join s ns) < MAX_NAME_LEN"
  shows "\<exists>p t mt'. file_monitor_block K (join a ns @ slash # f) False mt = Inr (p, mt') \<and> mt_ok R mt' \<and>
     target_at mt' p t \<and> t_logic_name t = join a ns \<and> t_sys_name t = join s ns \<and>
     mt_masks mt' (t_wd t) = Some BLOCK_ALL_MASK \<and>
     mt_calls mt' = mt_calls mt @ map (\<lambda>k. FS_Mkdir (join s (take (Suc k) ns))) [0..<length ns] \<and>
     (\<forall>l. logic_known mt l \<longrightarrow> logic_known mt' l)"
proof (cases "ns = []")
  case True
  have inv: "mt_inv mt" and f: "slash \<notin> set f" using ok names by (simp_all add: mt_ok_def)
  from block_known [OF inv fits refl f a(1), of False] obtain p t where
    p: "file_monitor_block K (a @ slash # f) False mt = Inr (p, masked (t_wd t) BLOCK_ALL_MASK mt)" "target_at mt p t" "t_logic_name t = a"
    by blast
  moreover have "sys_of R a = Some (t_sys_name t)" using ok p(2,3) by (auto simp: mt_ok_def mt_names_def)
  ultimately show ?thesis using True ok a(2)
    by (intro exI [of _ p] exI [of _ t] exI [of _ "masked (t_wd t) BLOCK_ALL_MASK mt"]) (simp add: logic_known_def, simp add: masked_def)
next
  case False
  let ?l = "join a ns @ slash # f"
  have inv: "mt_inv mt" and f: "slash \<notin> set f" using ok names by (simp_all add: mt_ok_def)
  have i: "index_of slash ?l \<noteq> None" "rindex slash ?l = Some (length (join a ns))"
    using rindex_slash [OF f] by (simp_all add: index_of_def)
  have "\<not> logic_known mt (join a ns)" using miss [rule_format, of "length ns - 1"] False by simp
  with inv have none: "get_file_target mt ?l = Inr NULL"
    by (cases rule: find_target [where l = "join a ns"]) (simp_all add: get_file_target_def i(2))
  have sl: "butlast (slashes ?l) = slashes a @ length a # map (\<lambda>k. length (join a (take k ns))) [1..<length ns]"
    using names False unfolding slashes_file [OF f] butlast_snoc by (simp add: slashes_join upt_conv_Cons)
  have tk: "take (length (join a (take k ns))) ?l = join a (take k ns)" for k
    using join_take [of a ns k] by auto
  let ?js = "map (\<lambda>k. length (join a (take k ns))) [1..<length ns]"
  have new: "\<not> logic_known mt (take j ?l)" if "j \<in> set ?js" for j
  proof -
    from that obtain k where k: "j = length (join a (take k ns))" "1 \<le> k" "k < length ns" by auto
    then have "\<not> logic_known mt (join a (take k ns))" using miss [rule_format, of "k - 1"] by simp
    then show ?thesis unfolding k(1) tk .
  qed
  have ta: "take (length a) ?l = a" using tk [of 0] by simp
  have "logic_known mt (take (length a) ?l)" unfolding ta by (rule a(1))
  from deepest_last [OF inv this, of ?js "slashes a" NULL] new
  obtain q t where q: "deepest mt ?l (butlast (slashes ?l)) NULL = Inr q" "q \<noteq> NULL" "target_at mt q t" "t_logic_name t = a"
    unfolding sl ta by blast
  have ts: "t_sys_name t = s" using ok q(3,4) a(2) by (auto simp: mt_ok_def mt_names_def)
  have comps: "components [] (drop (length (t_logic_name t) + 1) ?l) = ns"
    using components_join [of ns f a] names q(4) by simp
  from make_dirs_total [OF ok fits apart q(3) al, of ns] K len obtain p' t' mt' where
    m: "efold (make_dir K) ns (q, mt) = Inr (p', mt')" "mt_ok R mt'" "kernel_fits K mt'" "target_at mt' p' t'"
      "t_sys_name t' = join s ns" "t_logic_name t' = join a ns"
      "mt_calls mt' = mt_calls mt @ map (\<lambda>k. FS_Mkdir (join s (take (Suc k) ns))) [0..<length ns]"
      "\<forall>l'. logic_known mt l' \<longrightarrow> logic_known mt' l'"
    unfolding ts q(4) by blast
  have inv': "mt_inv mt'" using m(2) by (simp add: mt_ok_def)
  have blk: "monitor_block K p' mt' = Inr (masked (t_wd t') BLOCK_ALL_MASK mt')"
    unfolding monitor_block_def by (rule watch_again_eq [OF inv' m(3,4)])
  have "file_monitor_block K ?l False mt = Inr (p', masked (t_wd t') BLOCK_ALL_MASK mt')"
    using i(1) none q m(1) blk target_not_null [OF inv' m(4)] q(3) comps
    by (simp add: file_monitor_block_def target_at_def)
  with m show ?thesis
    by (intro exI [of _ p'] exI [of _ t'] exI [of _ "masked (t_wd t') BLOCK_ALL_MASK mt'"])
       (simp add: logic_known_def, simp add: masked_def)
qed

definition mt_example :: monitor_table where
  "mt_example = add_target 5 ''/home'' ''1'' [] mt_start"

definition K_example :: kernel where
  "K_example path = (if path = ''/home'' then 5 else if path = ''/home/a'' then 6 else if path = ''/home/a/b'' then 7 else -1)"

definition R_example :: "string \<Rightarrow> string option" where
  "R_example = [''1'' \<mapsto> ''/home'']"

lemma mt_start_inv: "mt_inv mt_start"
  by (auto simp: mt_inv_def mt_start_def heap_empty_def target_at_def WD_HASH_SIZE_def heap_ok_def)

lemma mt_start_at: "\<not> target_at mt_start p t"
  by (simp add: target_at_def mt_start_def)

lemma mt_example_at: "target_at mt_example p t \<longleftrightarrow> p = 1 \<and> t = \<lparr>t_wd = 5, t_sys_name = ''/home'', t_logic_name = ''1''\<rparr>"
proof -
  have "brk (mt_heap mt_start) = 1" by (simp add: mt_start_def heap_empty_def)
  then show ?thesis unfolding mt_example_def add_target_at [OF mt_start_inv] using mt_start_at [of p t] by auto
qed

lemma example_slash [simp]: "(CHR ''/'' = slash) = True"
  by (simp add: slash_def)

lemma mt_example_ok: "mt_ok R_example mt_example"
proof -
  have "mt_inv mt_example" unfolding mt_example_def
    by (rule add_target_inv [OF mt_start_inv]) (simp_all add: WD_HASH_SIZE_def mt_start_def MAX_NAME_LEN_def)
  moreover have "mt_names R_example mt_example"
    by (auto simp: mt_names_def mt_example_at sys_of_def R_example_def slash_def)
  ultimately show ?thesis by (simp add: mt_ok_def)
qed

lemma K_example_fits: "kernel_fits K_example mt_example"
  by (auto simp: kernel_fits_def mt_example_at K_example_def WD_HASH_SIZE_def split: if_splits)

lemma R_example_apart: "roots_apart R_example"
proof -
  have "l = ''1'' @ drop 5 s" if l: "sys_of R_example l = Some s" for l s
  proof -
    have 1: "takeWhile (\<lambda>c. c \<noteq> slash) l = ''1''" and 2: "s = ''/home'' @ dropWhile (\<lambda>c. c \<noteq> slash) l"
      using l by (auto simp: sys_of_def R_example_def split: if_splits)
    have "l = takeWhile (\<lambda>c. c \<noteq> slash) l @ dropWhile (\<lambda>c. c \<noteq> slash) l" by simp
    also have "\<dots> = ''1'' @ drop 5 s" unfolding 1 2 by simp
    finally show ?thesis .
  qed
  then show ?thesis unfolding roots_apart_def by metis
qed

theorem block_makes_missing_directories_witness:
  "\<exists>p mt'. file_monitor_block K_example ''1/a/b/f'' False mt_example = Inr (p, mt') \<and>
     mt_calls mt' = [FS_Mkdir ''/home/a'', FS_Mkdir ''/home/a/b''] \<and> logic_known mt' ''1''"
proof -
  have k: "logic_known mt_example l \<longleftrightarrow> l = ''1''" for l by (auto simp: logic_known_def mt_example_at)
  have names: "\<forall>n \<in> set (''f'' # [''a'', ''b'']). slash \<notin> set n" by (simp add: slash_def)
  have s: "sys_of R_example ''1'' = Some ''/home''" by (simp add: sys_of_def R_example_def slash_def)
  have al: "mt_callocs mt_example = []" by (simp add: mt_example_def add_target_def)
  have miss: "\<forall>j < length [''a'', ''b'']. \<not> logic_known mt_example (join ''1'' (take (Suc j) [''a'', ''b'']))"
    by (simp add: k less_Suc_eq)
  have K: "\<forall>j < length [''a'', ''b'']. 0 \<le> K_example (join ''/home'' (take (Suc j) [''a'', ''b'']))"
    by (simp add: less_Suc_eq K_example_def slash_def)
  from block_makes_missing_directories [OF mt_example_ok K_example_fits R_example_apart al names _ s miss K] k
  obtain p mt' where p: "file_monitor_block K_example (join ''1'' [''a'', ''b''] @ slash # ''f'') False mt_example = Inr (p, mt')"
    "mt_calls mt' = mt_calls mt_example @ map (\<lambda>k. FS_Mkdir (join ''/home'' (take (Suc k) [''a'', ''b'']))) [0..<2]"
    "logic_known mt' ''1''" by (auto simp: MAX_NAME_LEN_def numeral_2_eq_2)
  moreover have "mt_calls mt_example = []" by (simp add: mt_example_def add_target_def mt_start_def)
  ultimately show ?thesis by (intro exI [of _ p] exI [of _ mt']) (simp add: slash_def numeral_2_eq_2)
qed

section \<open>Every state the monitor reaches\<close>

text \<open>The names of the target directories are different decimal numbers.\<close>

declare decimal.simps [simp del]

definition digits_value :: "string \<Rightarrow> nat" where
  "digits_value s = foldl (\<lambda>v c. 10 * v + (of_char c - 48)) 0 s"

lemma digits_value_decimal: "digits_value (decimal n) = n"
proof (induction n rule: decimal.induct)
  case (1 n)
  have "of_char (char_of (k + 48) :: char) = k + 48" if "k < 10" for k :: nat
    using that by (simp add: of_char_of)
  with 1 show ?case by (cases "n < 10") (simp_all add: digits_value_def decimal.simps [of n])
qed

lemma decimal_inj: "decimal m = decimal n \<Longrightarrow> m = n"
  by (metis digits_value_decimal)

lemma decimal_no_slash: "slash \<notin> set (decimal n)"
proof (induction n rule: decimal.induct)
  case (1 n)
  have "char_of (k + 48) \<noteq> slash" if "k < 10" for k :: nat
  proof
    assume "char_of (k + 48) = slash"
    then have "of_char (char_of (k + 48) :: char) = (of_char slash :: nat)" by simp
    with that show False by (simp add: slash_def)
  qed
  from this [of n] this [of "n mod 10"] 1 show ?case by (cases "n < 10") (auto simp: decimal.simps [of n])
qed

definition root_map :: "target list \<Rightarrow> string \<Rightarrow> string option" where
  "root_map ts = map_of (zip (map (\<lambda>i. decimal (Suc i)) [0..<length ts]) (map fst ts))"

lemma root_map_nth:
  assumes "i < length ts"
  shows "root_map ts (decimal (Suc i)) = Some (fst (ts ! i))"
proof -
  let ?ks = "map (\<lambda>i. decimal (Suc i)) [0..<length ts]"
  have "distinct ?ks" by (auto simp: distinct_map dest: decimal_inj intro!: inj_onI)
  from map_of_zip_nth [OF _ this, of "map fst ts" i] assms show ?thesis by (simp add: root_map_def)
qed

lemma sys_of_root: "i < length ts \<Longrightarrow> sys_of (root_map ts) (decimal (Suc i)) = Some (fst (ts ! i))"
proof -
  assume i: "i < length ts"
  have "\<forall>c \<in> set (decimal (Suc i)). c \<noteq> slash" using decimal_no_slash [of "Suc i"] by blast
  then have 1: "takeWhile (\<lambda>c. c \<noteq> slash) (decimal (Suc i)) = decimal (Suc i)" and
      2: "dropWhile (\<lambda>c. c \<noteq> slash) (decimal (Suc i)) = []"
    by (simp_all only: takeWhile_eq_all_conv dropWhile_eq_Nil_conv)
  show ?thesis unfolding sys_of_def 1 2 root_map_nth [OF i] by simp
qed

text \<open>The kernel names a file for what happens in a directory; events that make a file are such events.\<close>

definition event_real :: "inotify_event \<Rightarrow> bool" where
  "event_real ev \<longleftrightarrow> (ev_len ev = 0 \<longrightarrow> \<not> has_flag ev IN_CREATE \<and> \<not> has_flag ev IN_MOVED_TO)"

lemma classify_cases:
  "fst (classify ev) = FILE_ADD \<Longrightarrow> \<not> fst (snd (classify ev)) \<and> (has_flag ev IN_CREATE \<or> has_flag ev IN_MOVED_TO)"
  by (auto simp: classify_def op_type_defs split: if_splits)

lemma classify_self: "fst (snd (classify ev)) \<Longrightarrow> fst (classify ev) = FILE_DELETE"
  by (auto simp: classify_def split: if_splits)

lemma decimal_1: "decimal 1 = ''1''" "decimal (Suc 0) = ''1''"
  by code_simp+

end
