(* ===== verification/TrackerProps.thy ===== *)
theory TrackerProps
  imports Tracker
begin

text \<open>
  What the tracker guarantees. First the loops of its tasks are related to operations on the map
  the file table stands for and on the list of entries to announce, by the same notion of data
  refinement as the tables; then the runs of events in which the memory is corrupted are told from those in which the
  invariants of the whole state are kept; then the effect of the tasks on what the peers receive.
\<close>

section \<open>Loops over travelling tables\<close>

lemma tft_get_nth:
  "i < length (tft_entries t) \<Longrightarrow> length (tft_entries t) \<le> MAX_FILE_ENTRIES \<Longrightarrow> tft_get t i = Inr (tft_entries t ! i)"
  by (simp add: tft_get_def nth_default_def)

text \<open>The first \<open>n\<close> entries, with the zero entries behind the prefix written out.\<close>

definition tft_list :: "trans_file_table \<Rightarrow> trans_file_entry list" where
  "tft_list t = map (nth_default te_zero (tft_entries t)) [0..<nat (tft_n t)]"

lemma for_entries_list:
  assumes "tft_n t \<le> int MAX_FILE_ENTRIES"
  shows "for_entries body t s = efold body (tft_list t) s"
proof -
  have get: "tft_get t i = Inr (nth_default te_zero (tft_entries t) i)" if "i < nat (tft_n t)" for i
    using that assms by (simp add: tft_get_def)
  have "efold (\<lambda>i s. ebind (tft_get t i) (\<lambda>te. body te s)) is s =
      efold body (map (nth_default te_zero (tft_entries t)) is) s" if "set is \<subseteq> {0..<nat (tft_n t)}" for "is" s
    using that
  proof (induction "is" arbitrary: s)
    case Nil
    then show ?case by simp
  next
    case (Cons i "is")
    have "efold (\<lambda>i s. ebind (tft_get t i) (\<lambda>te. body te s)) is =
        efold body (map (nth_default te_zero (tft_entries t)) is)"
      using Cons by (intro ext) auto
    then show ?case using Cons.prems get by simp
  qed
  then show ?thesis unfolding for_entries_def tft_list_def by simp
qed

text \<open>A table under construction: \<open>n\<close> is the number of entries written so far.\<close>

definition tft_rep :: "trans_file_table \<Rightarrow> trans_file_entry list \<Rightarrow> bool" where
  "tft_rep t L \<longleftrightarrow> tft_n t = int (length L) \<and> tft_entries t = L"

lemma tft_rep_zero: "tft_rep tft_zero []"
  by (simp add: tft_rep_def tft_zero_def)

lemma append_copy_rep:
  assumes "tft_rep t L" and "length L < MAX_FILE_ENTRIES"
  shows "\<exists>t'. append_copy op te t = Inr t' \<and> tft_rep t' (L @ [te\<lparr>te_op_type := op\<rparr>])"
  using assms by (auto simp: append_copy_def tft_rep_def tft_set_def)

lemma append_filled_rep:
  assumes "tft_rep t L" and "length L < MAX_FILE_ENTRIES" and "p \<noteq> NULL"
    and "cells (ft_heap ft) p = Some fe" and "entry_ok fe" and "length (fe_owners fe) \<le> MAX_PEER_ENTRIES"
  shows "\<exists>t'. append_filled op ft p t = Inr t' \<and> tft_rep t' (L @ [(te_of fe)\<lparr>te_op_type := op\<rparr>])"
  using assms trans_entry_fill_from_spec [OF assms(3,4), of "nth_default te_zero L (length L)"]
  by (auto simp: append_filled_def tft_rep_def tft_set_def tft_get_def entry_ok_def)

lemma append_filled_null:
  assumes "tft_rep t L" and "length L < MAX_FILE_ENTRIES"
  shows "\<exists>t'. append_filled op ft NULL t = Inr t' \<and> tft_rep t' (L @ [te_zero\<lparr>te_op_type := op\<rparr>])"
  using assms
  by (auto simp: append_filled_def tft_rep_def tft_set_def tft_get_def trans_entry_fill_from_def nth_default_def)

section \<open>Maps within limits\<close>

text \<open>The arrays bound what the tracker can serve: \<open>N\<close> holds the file names in play, \<open>P\<close> the
  addresses of the peers.\<close>

definition small :: "string set \<Rightarrow> u32 set \<Rightarrow> bool" where
  "small N P \<longleftrightarrow> finite N \<and> card N \<le> MAX_FILE_ENTRIES \<and> finite P \<and> card P \<le> MAX_PEER_ENTRIES"

definition bounded :: "string set \<Rightarrow> u32 set \<Rightarrow> file_map \<Rightarrow> bool" where
  "bounded N P M \<longleftrightarrow> (\<forall>n fe. M n = Some fe \<longrightarrow> n \<in> N \<and> pid_ip ` set (fe_owners fe) \<subseteq> P)"

definition te_known :: "string set \<Rightarrow> u32 set \<Rightarrow> trans_file_entry \<Rightarrow> bool" where
  "te_known N P te \<longleftrightarrow> te_ok te \<and> te_name te \<in> N \<and> pid_ip ` set (te_owner_list te) \<subseteq> P"

definition tft_known :: "string set \<Rightarrow> u32 set \<Rightarrow> trans_file_table \<Rightarrow> bool" where
  "tft_known N P t \<longleftrightarrow> tft_n t \<le> int MAX_FILE_ENTRIES \<and> (\<forall>te \<in> set (tft_list t). te_known N P te)"

lemma owners_small:
  assumes "small N P" and "entry_ok fe" and "pid_ip ` set (fe_owners fe) \<subseteq> P"
  shows "length (fe_owners fe) \<le> MAX_PEER_ENTRIES"
proof -
  have "length (fe_owners fe) = card (set (map pid_ip (fe_owners fe)))"
    using assms(2) by (simp add: entry_ok_def distinct_card del: set_map)
  also have "\<dots> \<le> card P" using assms(1,3) by (auto simp: small_def intro!: card_mono)
  finally show ?thesis using assms(1) by (simp add: small_def)
qed

lemma add_spec_owners:
  assumes "bounded N P M" and "te_known N P te"
  shows "pid_ip ` set (fe_owners (add_spec (M (te_name te)) te)) \<subseteq> P"
  using assms
  by (auto simp: add_spec_def bounded_def te_known_def entry_of_def entry_merge_def owners_add_ips
      split: option.split)

lemma bounded_add:
  assumes "bounded N P M" and "te_known N P te"
  shows "bounded N P (M(te_name te \<mapsto> add_spec (M (te_name te)) te))"
  using assms add_spec_owners [OF assms] by (simp add: bounded_def te_known_def)

lemma bounded_del: "bounded N P M \<Longrightarrow> bounded N P (M(n := None))"
  by (simp add: bounded_def)

lemma bounded_drop: "bounded N P M \<Longrightarrow> bounded N P (\<lambda>n. Option.bind (M n) (entry_drop i))"
  by (fastforce simp: bounded_def entry_drop_def Let_def bind_eq_Some_conv split: if_splits)

lemma bounded_empty [simp]: "bounded N P (\<lambda>_. None)"
  by (simp add: bounded_def)

lemma table_small:
  assumes "small N P" and "ft_inv ft" and "bounded N P (ft_map ft)"
  shows "length (bkt_all (file_htable ft)) \<le> MAX_FILE_ENTRIES"
    and "p \<in> set (bkt_all (file_htable ft)) \<Longrightarrow> length (fe_owners (entry_at ft p)) \<le> MAX_PEER_ENTRIES"
proof -
  let ?ps = "bkt_all (file_htable ft)"
  have at: "\<exists>fe. in_table ft p fe \<and> entry_at ft p = fe" if "p \<in> set ?ps" for p
    using ft_inv_cell [OF assms(2) that] by (auto simp: in_table_def entry_at_def)
  have map: "ft_map ft (fe_name (entry_at ft p)) = Some (entry_at ft p)" "entry_ok (entry_at ft p)"
    if "p \<in> set ?ps" for p
    using at [OF that] ft_map_iff [OF assms(2)] ft_inv_entry_ok [OF assms(2)] by auto
  have "length ?ps = card (set (map (fe_name \<circ> entry_at ft) ?ps))"
    using ft_map_find(2) [OF assms(2)] by (metis distinct_card length_map)
  also have "\<dots> \<le> card N"
    using map(1) assms(1,3) by (intro card_mono) (auto simp: small_def bounded_def)
  finally show "length ?ps \<le> MAX_FILE_ENTRIES" using assms(1) by (simp add: small_def)
  show "length (fe_owners (entry_at ft p)) \<le> MAX_PEER_ENTRIES" if "p \<in> set ?ps"
    using owners_small [OF assms(1) map(2) [OF that]] map(1) [OF that] assms(3) by (auto simp: bounded_def)
qed

section \<open>Reports refine updates of the map\<close>

definition update_map :: "trans_file_entry \<Rightarrow> file_map \<Rightarrow> file_map" where
  "update_map te M =
     (if te_op_type te = FILE_ADD \<or> te_op_type te = FILE_MODIFY then map_exec (FT_Add te) M
      else if te_op_type te = FILE_DELETE then map_exec (FT_Delete te) M
      else M)"

text \<open>What is announced to the other peers: the entry after the change, with what happened to it.
  The modification of a file that is not in the table is announced as an entry without a name.\<close>

definition update_news :: "trans_file_entry \<Rightarrow> file_map \<Rightarrow> trans_file_entry list" where
  "update_news te M =
     (let fe = add_spec (M (te_name te)) te in
      if te_op_type te = FILE_ADD then [(te_of fe)\<lparr>te_op_type := FILE_ADD\<rparr>]
      else if te_op_type te = FILE_DELETE then (if M (te_name te) = None then [] else [te])
      else if te_op_type te = FILE_MODIFY then
        [if M (te_name te) = None then te_zero\<lparr>te_op_type := FILE_ADD\<rparr> else (te_of fe)\<lparr>te_op_type := FILE_MODIFY\<rparr>]
      else [])"

definition update_spec :: "trans_file_entry \<Rightarrow> file_map \<times> trans_file_entry list \<Rightarrow> file_map \<times> trans_file_entry list" where
  "update_spec te = (\<lambda>(M, L). (update_map te M, L @ update_news te M))"

definition upd_rep :: "file_table \<times> trans_file_table \<Rightarrow> file_map \<times> trans_file_entry list \<Rightarrow> bool" where
  "upd_rep = (\<lambda>(ft, t) (M, L). ft_rep ft M \<and> tft_rep t L)"

definition upd_pre :: "string set \<Rightarrow> u32 set \<Rightarrow> trans_file_entry \<Rightarrow> file_map \<times> trans_file_entry list \<Rightarrow> bool" where
  "upd_pre N P te = (\<lambda>(M, L). small N P \<and> te_known N P te \<and> bounded N P M \<and> length L < MAX_FILE_ENTRIES)"

lemma update_news_length: "length (update_news te M) \<le> 1"
  by (simp add: update_news_def Let_def)

lemma bounded_update: "bounded N P M \<Longrightarrow> te_known N P te \<Longrightarrow> bounded N P (update_map te M)"
  by (simp add: update_map_def bounded_add bounded_del)

text \<open>The entry an operation has just put into the table, read back through its pointer.\<close>

lemma append_filled_map:
  assumes "ft_rep ft M" and "M n = Some fe" and "small N P" and "bounded N P M"
    and "tft_rep t L" and "length L < MAX_FILE_ENTRIES"
  shows "\<exists>t'. append_filled op ft (ft_ptr ft n) t = Inr t' \<and> tft_rep t' (L @ [(te_of fe)\<lparr>te_op_type := op\<rparr>])"
proof (rule append_filled_rep [OF assms(5,6)])
  have inv: "ft_inv ft" and map: "ft_map ft = M" using assms(1) by (simp_all add: ft_rep_def)
  have tab: "in_table ft (ft_ptr ft n) fe" using ft_map_Some [OF inv] map assms(2) by simp
  show "ft_ptr ft n \<noteq> NULL" using in_table_not_null [OF inv tab] .
  show "cells (ft_heap ft) (ft_ptr ft n) = Some fe" using tab by (simp add: in_table_def)
  show ok: "entry_ok fe" using ft_inv_entry_ok [OF inv tab] .
  show "length (fe_owners fe) \<le> MAX_PEER_ENTRIES"
    using owners_small [OF assms(3) ok] assms(2,4) by (auto simp: bounded_def)
qed

lemma ft_rep_find:
  "ft_rep ft M \<Longrightarrow> file_table_find ft te = Inr (ft_ptr ft (te_name te)) \<and>
     (ft_ptr ft (te_name te) = NULL \<longleftrightarrow> M (te_name te) = None)"
  using ft_map_None [of ft "te_name te"] by (auto simp: ft_rep_def file_table_find_def file_table_search_ptr)

lemma ft_rep_get:
  "ft_rep ft M \<Longrightarrow> M n = Some fe \<Longrightarrow> hget (ft_heap ft) (ft_ptr ft n) = Inr fe"
  by (auto simp: ft_rep_def ft_map_def)

lemma ft_rep_add:
  assumes "ft_rep ft M" and "te_ok te"
  shows "\<exists>ft'. file_table_add ft te = Inr (ft_ptr ft' (te_name te), ft') \<and> ft_rep ft' (map_exec (FT_Add te) M)"
  using file_table_add_spec [of ft te] assms by (auto simp: ft_rep_def)

lemma ft_rep_delete:
  assumes "ft_rep ft M"
  shows "\<exists>ft'. file_table_delete ft te = Inr (if M (te_name te) = None then -1 else 0, ft') \<and>
     ft_rep ft' (map_exec (FT_Delete te) M)"
  using file_table_delete_spec [of ft te] assms by (auto simp: ft_rep_def)

lemma ft_rep_update:
  assumes "ft_rep ft M" and "te_ok te" and "M (te_name te) = Some fe"
  shows "\<exists>ft' r. file_entry_update ft (ft_ptr ft (te_name te)) te = Inr (r, ft') \<and>
     file_table_update ft te = Inr (0, ft') \<and>
     ft_rep ft' (map_exec (FT_Add te) M) \<and> ft_ptr ft' (te_name te) = ft_ptr ft (te_name te)"
proof -
  let ?p = "ft_ptr ft (te_name te)"
  have inv: "ft_inv ft" "ft_callocs ft = []" "ft_map ft (te_name te) = Some fe" "M = ft_map ft"
    using assms by (simp_all add: ft_rep_def)
  from file_table_add_old [OF inv(1) assms(2) inv(3)] inv(2) obtain ft' where
    ft': "file_table_update ft te = Inr (0, ft')" "ft_inv ft'" "ft_callocs ft' = []"
      "in_table ft' ?p (entry_merge fe te)" "ft_map ft' = (ft_map ft)(te_name te \<mapsto> entry_merge fe te)"
    by auto
  have "?p \<noteq> NULL" using ft_map_None [OF inv(1), of "te_name te"] inv(3) by auto
  with ft'(1) obtain r where r: "file_entry_update ft ?p te = Inr (r, ft')"
    by (auto simp: file_table_update_def file_table_search_ptr [OF inv(1)] ebind_eq_Inr)
  have "ft_map ft' (te_name te) = Some (entry_merge fe te)" using ft'(5) by simp
  from ft_inv_unique [OF ft'(2) ft_map_Some [OF ft'(2) this] ft'(4)]
  have "ft_ptr ft' (te_name te) = ?p" by simp
  moreover have "map_exec (FT_Add te) M = ft_map ft'" using ft'(5) inv(3,4) by (simp add: add_spec_def)
  ultimately show ?thesis using r ft' by (auto simp: ft_rep_def)
qed

interpretation upd: data_refinement upd_rep update_entry update_spec "upd_pre N P"
proof
  fix m a te
  assume "upd_rep m a" and "upd_pre N P te a"
  then obtain ft t M L where *: "m = (ft, t)" "a = (M, L)" "ft_rep ft M" "tft_rep t L"
      "small N P" "te_known N P te" "bounded N P M" "length L < MAX_FILE_ENTRIES"
    by (cases m; cases a) (auto simp: upd_rep_def upd_pre_def)
  let ?n = "te_name te" and ?M = "map_exec (FT_Add te) M"
  have ok: "te_ok te" using *(6) by (simp add: te_known_def)
  have M: "?M ?n = Some (add_spec (M ?n) te)" "bounded N P ?M" using bounded_add [OF *(7,6)] by simp_all
  note find = ft_rep_find [OF *(3), of te]
  consider (add) "te_op_type te = FILE_ADD" | (del) "te_op_type te = FILE_DELETE"
    | (mod_new) "te_op_type te = FILE_MODIFY" "M ?n = None"
    | (mod_old) fe where "te_op_type te = FILE_MODIFY" "M ?n = Some fe"
    | (other) "te_op_type te \<notin> {FILE_ADD, FILE_DELETE, FILE_MODIFY}"
    by blast
  then show "\<exists>m'. update_entry te m = Inr m' \<and> upd_rep m' (update_spec te a)"
  proof cases
    case add
    from ft_rep_add [OF *(3) ok] obtain ft' where ft': "file_table_add ft te = Inr (ft_ptr ft' ?n, ft')" "ft_rep ft' ?M"
      by blast
    have "ft_ptr ft' ?n \<noteq> NULL" using ft_rep_find [OF ft'(2), of te] M(1) by simp
    with append_filled_map [OF ft'(2) M(1) *(5) M(2) *(4,8), of FILE_ADD] add ft'
    show ?thesis by (auto simp: *(1,2) update_entry_def update_spec_def update_map_def update_news_def upd_rep_def Let_def)
  next
    case del
    have "te\<lparr>te_op_type := te_op_type te\<rparr> = te" by (cases te) simp
    with del have op: "te\<lparr>te_op_type := FILE_DELETE\<rparr> = te" "te_op_type te \<noteq> FILE_ADD" "te_op_type te \<noteq> FILE_MODIFY"
      by (simp_all add: op_type_defs)
    from ft_rep_delete [OF *(3), of te] append_copy_rep [OF *(4,8), of "te_op_type te" te] del op show ?thesis
      by (auto simp: *(1,2) update_entry_def update_spec_def update_map_def update_news_def upd_rep_def *(4) Let_def)
  next
    case mod_new
    then have op: "FILE_MODIFY \<noteq> FILE_ADD" "FILE_MODIFY \<noteq> FILE_DELETE" by (simp_all add: op_type_defs)
    from ft_rep_add [OF *(3) ok] obtain ft' where ft': "file_table_add ft te = Inr (ft_ptr ft' ?n, ft')" "ft_rep ft' ?M"
      by blast
    from append_filled_null [OF *(4,8), of FILE_ADD ft'] ft' find mod_new op show ?thesis
      by (auto simp: *(1,2) update_entry_def update_spec_def update_map_def update_news_def upd_rep_def Let_def)
  next
    case mod_old
    then have op: "FILE_MODIFY \<noteq> FILE_ADD" "FILE_MODIFY \<noteq> FILE_DELETE" by (simp_all add: op_type_defs)
    from ft_rep_update [OF *(3) ok mod_old(2)] obtain ft' r where
      ft': "file_entry_update ft (ft_ptr ft ?n) te = Inr (r, ft')" "ft_rep ft' ?M" "ft_ptr ft' ?n = ft_ptr ft ?n"
      by blast
    from append_filled_map [OF ft'(2) M(1) *(5) M(2) *(4,8), of FILE_MODIFY] find mod_old op ft'
    show ?thesis
      by (auto simp: *(1,2) update_entry_def update_spec_def update_map_def update_news_def upd_rep_def Let_def)
  next
    case other
    then show ?thesis
      by (auto simp: *(1-4) update_entry_def update_spec_def update_map_def update_news_def upd_rep_def Let_def)
  qed
qed

lemma update_run_pre:
  assumes "small N P" and "\<forall>te \<in> set tes. te_known N P te" and "bounded N P M"
    and "length L + length tes \<le> MAX_FILE_ENTRIES"
  shows "run_pre (upd_pre N P) update_spec tes (M, L) \<and> bounded N P (fst (fold update_spec tes (M, L)))"
  using assms(2-4)
proof (induction tes arbitrary: M L)
  case Nil
  then show ?case by simp
next
  case (Cons te tes)
  have "length (L @ update_news te M) + length tes \<le> MAX_FILE_ENTRIES"
    using Cons.prems(3) update_news_length [of te M] by simp
  with Cons assms(1) show ?case
    by (simp add: upd_pre_def update_spec_def bounded_update)
qed

section \<open>Synchronisation refines a merge of the map\<close>

definition sync_news :: "trans_file_entry \<Rightarrow> file_map \<Rightarrow> trans_file_entry list" where
  "sync_news te M =
     (case M (te_name te) of
        None \<Rightarrow> [te\<lparr>te_op_type := FILE_ADD\<rparr>]
      | Some fe \<Rightarrow> if fe_timestamp fe < te_timestamp te then [te\<lparr>te_op_type := FILE_MODIFY\<rparr>] else [])"

definition sync_spec :: "trans_file_entry \<Rightarrow> file_map \<times> trans_file_entry list \<Rightarrow> file_map \<times> trans_file_entry list" where
  "sync_spec te = (\<lambda>(M, L). (map_exec (FT_Add te) M, L @ sync_news te M))"

lemma sync_news_length: "length (sync_news te M) \<le> 1"
  by (simp add: sync_news_def split: option.split)

interpretation syn: data_refinement upd_rep sync_self_entry sync_spec "upd_pre N P"
proof
  fix m a te
  assume "upd_rep m a" and "upd_pre N P te a"
  then obtain ft t M L where *: "m = (ft, t)" "a = (M, L)" "ft_rep ft M" "tft_rep t L"
      "te_known N P te" "length L < MAX_FILE_ENTRIES"
    by (cases m; cases a) (auto simp: upd_rep_def upd_pre_def)
  have ok: "te_ok te" using *(5) by (simp add: te_known_def)
  note find = ft_rep_find [OF *(3), of te]
  show "\<exists>m'. sync_self_entry te m = Inr m' \<and> upd_rep m' (sync_spec te a)"
  proof (cases "M (te_name te)")
    case None
    with ft_rep_add [OF *(3) ok] append_copy_rep [OF *(4,6), of FILE_ADD te] find show ?thesis
      by (auto simp: *(1,2) sync_self_entry_def sync_spec_def sync_news_def upd_rep_def)
  next
    case (Some fe)
    with ft_rep_update [OF *(3) ok Some] append_copy_rep [OF *(4,6), of FILE_MODIFY te] find
      ft_rep_get [OF *(3) Some] *(4) show ?thesis
      by (auto simp: *(1,2) sync_self_entry_def sync_spec_def sync_news_def upd_rep_def)
  qed
qed

lemma sync_run_pre:
  assumes "small N P" and "\<forall>te \<in> set tes. te_known N P te" and "bounded N P M"
    and "length L + length tes \<le> MAX_FILE_ENTRIES"
  shows "run_pre (upd_pre N P) sync_spec tes (M, L) \<and> bounded N P (fst (fold sync_spec tes (M, L)))"
  using assms(2-4)
proof (induction tes arbitrary: M L)
  case Nil
  then show ?case by simp
next
  case (Cons te tes)
  have "length (L @ sync_news te M) + length tes \<le> MAX_FILE_ENTRIES"
    using Cons.prems(3) sync_news_length [of te M] by simp
  with Cons assms(1) show ?case
    by (simp add: upd_pre_def sync_spec_def bounded_add)
qed

lemma fst_fold_sync: "fst (fold sync_spec tes (M, L)) = fold map_exec (map FT_Add tes) M"
  by (induction tes arbitrary: M L) (simp_all add: sync_spec_def)

text \<open>What the peer has to learn about an entry of the tracker.\<close>

definition peer_news :: "trans_file_table \<Rightarrow> file_entry \<Rightarrow> trans_file_entry list" where
  "peer_news tft fe =
     (case find (\<lambda>te. te_name te = fe_name fe) (tft_list tft) of
        None \<Rightarrow> [(te_of fe)\<lparr>te_op_type := FILE_ADD\<rparr>]
      | Some te \<Rightarrow>
          if te_timestamp te < fe_timestamp fe \<or>
             te_timestamp te = fe_timestamp fe \<and> fe_owners fe \<noteq> te_owner_list te
          then [(te_of fe)\<lparr>te_op_type := FILE_MODIFY\<rparr>] else [])"

lemma trans_file_search_spec:
  assumes "tft_n tft \<le> int MAX_FILE_ENTRIES"
  shows "trans_file_search tft name = Inr (find (\<lambda>te. te_name te = name) (tft_list tft))"
proof -
  have "trans_file_search_from k i tft name =
      Inr (find (\<lambda>te. te_name te = name) (map (nth_default te_zero (tft_entries tft)) [i..<i + k]))"
    if "i + k \<le> nat (tft_n tft)" for i k
    using that
  proof (induction k arbitrary: i)
    case 0
    then show ?case by simp
  next
    case (Suc k)
    have "tft_get tft i = Inr (nth_default te_zero (tft_entries tft) i)"
      using Suc.prems assms by (simp add: tft_get_def)
    moreover have "[i..<i + Suc k] = i # [Suc i..<Suc i + k]" by (simp add: upt_rec)
    ultimately show ?case using Suc.IH [of "Suc i"] Suc.prems by simp
  qed
  from this [of 0 "nat (tft_n tft)"] show ?thesis by (simp add: trans_file_search_def tft_list_def)
qed

lemma same_owners_from_spec:
  assumes "n + length ps \<le> MAX_PEER_ENTRIES" and "length (te_owners te) = MAX_PEER_ENTRIES"
  shows "same_owners_from ps n te = Inr (ps = take (length ps) (drop n (te_owners te)))"
  using assms(1)
proof (induction ps arbitrary: n)
  case Nil
  then show ?case by simp
next
  case (Cons p ps)
  then have n: "n < length (te_owners te)" using assms(2) by simp
  have "drop n (te_owners te) = te_owners te ! n # drop (Suc n) (te_owners te)"
    using Cons_nth_drop_Suc [OF n] by simp
  then show ?case using Cons.IH [of "Suc n"] Cons.prems
    by (cases p; cases "te_owners te ! n") auto
qed

lemma has_same_owners_spec:
  assumes "p \<noteq> NULL" and "cells (ft_heap ft) p = Some fe" and "te_ok te"
  shows "has_same_owners ft p te = Inr (fe_owners fe = te_owner_list te)"
proof -
  have "length (te_owner_list te) = unat (te_owner_n te)" using assms(3) by (simp add: te_ok_def te_owner_list_def)
  then show ?thesis
    using assms same_owners_from_spec [of 0 "fe_owners fe" te]
    by (auto simp: has_same_owners_def te_ok_def te_owner_list_def)
qed

lemma sync_peer_loop:
  assumes rep: "ft_rep ft M" and lim: "small N P" "bounded N P M" and tft: "tft_known N P tft"
    and ps: "set ps \<subseteq> set (bkt_all (file_htable ft))"
    and t: "tft_rep t L" "length L + length ps \<le> MAX_FILE_ENTRIES"
  shows "\<exists>t'. efold (sync_peer_entry ft tft) ps t = Inr t' \<and>
     tft_rep t' (L @ concat (map (\<lambda>p. peer_news tft (entry_at ft p)) ps))"
  using ps t
proof (induction ps arbitrary: t L)
  case Nil
  then show ?case by simp
next
  case (Cons p ps)
  have inv: "ft_inv ft" and M: "ft_map ft = M" using rep by (simp_all add: ft_rep_def)
  let ?fe = "entry_at ft p"
  have p: "p \<noteq> NULL" "cells (ft_heap ft) p = Some ?fe" "entry_ok ?fe"
    using ft_inv_cell [OF inv, of p] Cons.prems(1) in_table_not_null [OF inv, of p]
    by (auto simp: in_table_def entry_at_def)
  have own: "length (fe_owners ?fe) \<le> MAX_PEER_ENTRIES"
    using table_small(2) [OF lim(1) inv, of p] lim(2) M Cons.prems(1) by simp
  have L: "length L < MAX_FILE_ENTRIES" using Cons.prems(3) by simp
  note put = append_filled_rep [OF Cons.prems(2) L p own]
  have search: "trans_file_search tft (fe_name ?fe) = Inr (find (\<lambda>te. te_name te = fe_name ?fe) (tft_list tft))"
    using trans_file_search_spec tft by (simp add: tft_known_def)
  have "\<exists>t'. sync_peer_entry ft tft p t = Inr t' \<and> tft_rep t' (L @ peer_news tft ?fe)"
  proof (cases "find (\<lambda>te. te_name te = fe_name ?fe) (tft_list tft)")
    case None
    with put [of FILE_ADD] search p show ?thesis by (auto simp: sync_peer_entry_def peer_news_def)
  next
    case (Some te)
    then have "te \<in> set (tft_list tft)" using find_Some_split [OF Some] by auto
    then have "te_ok te" using tft by (simp add: tft_known_def te_known_def)
    from has_same_owners_spec [OF p(1,2) this] put [of FILE_MODIFY] search p Some Cons.prems(2)
    show ?thesis by (auto simp: sync_peer_entry_def peer_news_def)
  qed
  then obtain t1 where t1: "sync_peer_entry ft tft p t = Inr t1" "tft_rep t1 (L @ peer_news tft ?fe)" by blast
  have "length (peer_news tft ?fe) \<le> 1" by (simp add: peer_news_def split: option.split)
  then have "length (L @ peer_news tft ?fe) + length ps \<le> MAX_FILE_ENTRIES" using Cons.prems(3) by simp
  from Cons.IH [OF _ t1(2) this] t1(1) Cons.prems(1) show ?case by auto
qed

section \<open>Broadcasts\<close>

definition send_one :: "ttop_packet \<Rightarrow> int \<Rightarrow> peer_entry \<Rightarrow> (int \<Rightarrow> sock) \<Rightarrow> (int \<Rightarrow> sock)" where
  "send_one pkt excl pe S =
     (if pe_conn pe \<noteq> excl then S(pe_conn pe := snd (send_ttop_packet pkt (S (pe_conn pe)))) else S)"

definition send_peers :: "ttop_packet \<Rightarrow> int \<Rightarrow> peer_entry list \<Rightarrow> (int \<Rightarrow> sock) \<Rightarrow> (int \<Rightarrow> sock)" where
  "send_peers pkt excl = fold (send_one pkt excl)"

lemma snd_tr_send:
  "snd (tr_send c pkt tr) = tr\<lparr>tr_socks := (tr_socks tr)(c := snd (send_ttop_packet pkt (tr_socks tr c)))\<rparr>"
  by (simp add: tr_send_def split: prod.split)

lemma broadcast_loop:
  assumes "pt_inv (tr_pt tr)" and "set ps \<subseteq> set (peer_head (tr_pt tr))"
  shows "efold (broadcast_to tft c) ps tr =
     Inr (tr\<lparr>tr_socks := send_peers (table_packet TRACKER_BROADCAST tft) c (map (peer_at (tr_pt tr)) ps) (tr_socks tr)\<rparr>)"
  using assms
proof (induction ps arbitrary: tr)
  case Nil
  then show ?case by (simp add: send_peers_def)
next
  case (Cons p ps)
  have "hget (pt_heap (tr_pt tr)) p = Inr (peer_at (tr_pt tr) p)"
    using pt_inv_get [OF Cons.prems(1)] Cons.prems(2) by simp
  then have "broadcast_to tft c p tr = Inr (tr\<lparr>tr_socks :=
      send_one (table_packet TRACKER_BROADCAST tft) c (peer_at (tr_pt tr) p) (tr_socks tr)\<rparr>)"
    by (simp add: broadcast_to_def snd_tr_send send_one_def)
  then show ?case using Cons by (simp add: send_peers_def)
qed

lemma broadcast_update_spec:
  assumes "pt_inv (tr_pt tr)"
  shows "broadcast_update tft c tr =
     Inr (tr\<lparr>tr_socks := (if tft_n tft = 0 then id
        else send_peers (table_packet TRACKER_BROADCAST tft) c (pt_peers (tr_pt tr))) (tr_socks tr)\<rparr>)"
  using broadcast_loop [OF assms, of "peer_head (tr_pt tr)" tft c]
  by (simp add: broadcast_update_def pt_peers_def)

section \<open>The tasks as a whole\<close>

definition tft_of :: "trans_file_entry list \<Rightarrow> trans_file_table" where
  "tft_of L = \<lparr>tft_n = int (length L), tft_entries = L\<rparr>"

lemma tft_rep_of: "tft_rep t L \<longleftrightarrow> t = tft_of L"
  by (cases t) (auto simp: tft_rep_def tft_of_def)

lemma tft_of_simps [simp]: "tft_n (tft_of L) = int (length L)" "tft_entries (tft_of L) = L"
  by (simp_all add: tft_of_def)

text \<open>What goes out to the peers when there is anything to announce.\<close>

definition announce :: "trans_file_entry list \<Rightarrow> int \<Rightarrow> peer_entry list \<Rightarrow> (int \<Rightarrow> sock) \<Rightarrow> (int \<Rightarrow> sock)" where
  "announce L c ps S = (if L = [] then S else send_peers (table_packet TRACKER_BROADCAST (tft_of L)) c ps S)"

lemma broadcast_announce:
  "pt_inv (tr_pt tr) \<Longrightarrow> broadcast_update (tft_of L) c tr =
     Inr (tr\<lparr>tr_socks := announce L c (pt_peers (tr_pt tr)) (tr_socks tr)\<rparr>)"
  by (simp add: broadcast_update_spec announce_def)

definition tr_inv :: "string set \<Rightarrow> u32 set \<Rightarrow> tracker \<Rightarrow> bool" where
  "tr_inv N P tr \<longleftrightarrow> small N P \<and> ft_rep (tr_ft tr) (ft_map (tr_ft tr)) \<and> bounded N P (ft_map (tr_ft tr)) \<and>
     pt_inv (tr_pt tr)"

lemma length_tft_list: "tft_known N P tft \<Longrightarrow> length (tft_list tft) \<le> MAX_FILE_ENTRIES"
  by (simp add: tft_known_def tft_list_def nat_le_iff)

lemma update_task_spec:
  assumes "tr_inv N P tr" and "tft_known N P tft"
  shows "case fold update_spec (tft_list tft) (ft_map (tr_ft tr), []) of (M, L) \<Rightarrow>
     bounded N P M \<and> (\<exists>ft. ft_rep ft M \<and> peer_file_update_task conn tft tr =
       Inr (tr\<lparr>tr_ft := ft, tr_socks := announce L conn (pt_peers (tr_pt tr)) (tr_socks tr)\<rparr>))"
proof -
  let ?M = "ft_map (tr_ft tr)"
  obtain M L where fld: "fold update_spec (tft_list tft) (?M, []) = (M, L)" by fastforce
  have pre: "run_pre (upd_pre N P) update_spec (tft_list tft) (?M, [])" "bounded N P M"
    using update_run_pre [of N P "tft_list tft" ?M "[]"] assms length_tft_list [OF assms(2)] fld
    by (auto simp: tr_inv_def tft_known_def)
  have "upd_rep (tr_ft tr, tft_zero) (?M, [])" using assms(1) by (simp add: upd_rep_def tr_inv_def tft_rep_zero)
  from upd.run_refines [OF this pre(1)] obtain ft t where
    run: "efold update_entry (tft_list tft) (tr_ft tr, tft_zero) = Inr (ft, t)" "ft_rep ft M" "t = tft_of L"
    by (auto simp: fld upd_rep_def tft_rep_of)
  have pt: "pt_inv (tr_pt (tr\<lparr>tr_ft := ft\<rparr>))" using assms(1) by (simp add: tr_inv_def)
  have "tft_n tft \<le> int MAX_FILE_ENTRIES" using assms(2) by (simp add: tft_known_def)
  then have "peer_file_update_task conn tft tr =
      Inr (tr\<lparr>tr_ft := ft, tr_socks := announce L conn (pt_peers (tr_pt tr)) (tr_socks tr)\<rparr>)"
    using broadcast_announce [OF pt, of L conn]
    by (auto simp: peer_file_update_task_def for_entries_list run(1,3) announce_def)
  with run(2) pre(2) show ?thesis by (auto simp: fld)
qed

text \<open>The reply to a joining peer.\<close>

definition sync_reply :: "trans_file_table \<Rightarrow> file_table \<Rightarrow> trans_file_entry list" where
  "sync_reply tft ft = concat (map (\<lambda>p. peer_news tft (entry_at ft p)) (bkt_all (file_htable ft)))"

lemma sync_body_spec:
  assumes "tr_inv N P tr" and "tft_known N P tft"
  shows "case fold sync_spec (tft_list tft) (ft_map (tr_ft tr), []) of (M, L) \<Rightarrow>
     bounded N P M \<and> (\<exists>ft. ft_rep ft M \<and> sync_body conn tft tr =
       Inr (tr\<lparr>tr_ft := ft, tr_socks := announce L conn (pt_peers (tr_pt tr))
         ((tr_socks tr)(conn := snd (send_ttop_packet (table_packet TRACKER_SYNC (tft_of (sync_reply tft (tr_ft tr))))
            (tr_socks tr conn))))\<rparr>))"
proof -
  let ?M = "ft_map (tr_ft tr)" and ?R = "sync_reply tft (tr_ft tr)"
  let ?tr = "snd (tr_send conn (table_packet TRACKER_SYNC (tft_of ?R)) tr)"
  have inv: "small N P" "ft_rep (tr_ft tr) ?M" "bounded N P ?M" "pt_inv (tr_pt tr)"
    using assms(1) by (simp_all add: tr_inv_def)
  obtain M L where fld: "fold sync_spec (tft_list tft) (?M, []) = (M, L)" by fastforce
  have pre: "run_pre (upd_pre N P) sync_spec (tft_list tft) (?M, [])" "bounded N P M"
    using sync_run_pre [of N P "tft_list tft" ?M "[]"] assms(2) inv length_tft_list [OF assms(2)] fld
    by (auto simp: tft_known_def)
  have "length (bkt_all (file_htable (tr_ft tr))) \<le> MAX_FILE_ENTRIES"
    using table_small(1) [OF inv(1) _ inv(3)] inv(2) by (simp add: ft_rep_def)
  with sync_peer_loop [OF inv(2,1,3) assms(2) subset_refl tft_rep_zero] have
    reply: "efold (sync_peer_entry (tr_ft tr) tft) (bkt_all (file_htable (tr_ft tr))) tft_zero = Inr (tft_of ?R)"
    by (auto simp: tft_rep_of sync_reply_def)
  have "upd_rep (tr_ft tr, tft_zero) (?M, [])" using inv(2) by (simp add: upd_rep_def tft_rep_zero)
  from syn.run_refines [OF this pre(1)] obtain ft t where
    run: "efold sync_self_entry (tft_list tft) (tr_ft tr, tft_zero) = Inr (ft, t)" "ft_rep ft M" "t = tft_of L"
    by (auto simp: fld upd_rep_def tft_rep_of)
  have pt: "pt_inv (tr_pt (?tr\<lparr>tr_ft := ft\<rparr>))" using inv(4) by (simp add: snd_tr_send)
  have "tft_n tft \<le> int MAX_FILE_ENTRIES" using assms(2) by (simp add: tft_known_def)
  then have "sync_body conn tft tr = broadcast_update (tft_of L) conn (?tr\<lparr>tr_ft := ft\<rparr>)"
    by (simp add: sync_body_def reply for_entries_list snd_tr_send run(1,3) Let_def)
  also have "\<dots> = Inr (tr\<lparr>tr_ft := ft, tr_socks := announce L conn (pt_peers (tr_pt tr)) (tr_socks ?tr)\<rparr>)"
    unfolding broadcast_announce [OF pt] by (simp add: snd_tr_send)
  finally show ?thesis using run(2) pre(2) by (auto simp: fld snd_tr_send)
qed

lemma mark_modified_spec:
  assumes "length L \<le> MAX_FILE_ENTRIES"
  shows "mark_modified (tft_of L) = Inr (tft_of (map (\<lambda>te. te\<lparr>te_op_type := FILE_MODIFY\<rparr>) L))"
proof -
  let ?f = "\<lambda>te. te\<lparr>te_op_type := FILE_MODIFY\<rparr>"
  let ?body = "\<lambda>i t. ebind (tft_get t i) (\<lambda>te. tft_set i (?f te) t)"
  have "efold ?body [0..<k] (tft_of L) = Inr \<lparr>tft_n = int (length L), tft_entries = map ?f (take k L) @ drop k L\<rparr>"
    if "k \<le> length L" for k
    using that
  proof (induction k)
    case 0
    then show ?case by (simp add: tft_of_def)
  next
    case (Suc k)
    then have k: "k < length L" by simp
    have "drop k L = L ! k # drop (Suc k) L" using Cons_nth_drop_Suc [OF k] by simp
    moreover have "take (Suc k) L = take k L @ [L ! k]" using take_Suc_conv_app_nth [OF k] .
    ultimately show ?case using Suc k assms
      by (simp add: efold_append tft_get_def tft_set_def nth_default_def nth_append list_update_append)
  qed
  from this [of "length L"] show ?thesis by (simp add: mark_modified_def tft_of_def)
qed

text \<open>What the peers are told when a connection has ended: the whole table that is left.\<close>

definition table_news :: "file_table \<Rightarrow> trans_file_entry list" where
  "table_news ft = map (\<lambda>p. (te_of (entry_at ft p))\<lparr>te_op_type := FILE_MODIFY\<rparr>) (bkt_all (file_htable ft))"

text \<open>The address a receiver takes its owner to have: the one it registered with, or all ones.\<close>

definition conn_ip :: "int \<Rightarrow> peer_entry list \<Rightarrow> u32" where
  "conn_ip conn ps = (case find (has_conn conn) ps of None \<Rightarrow> -1 | Some pe \<Rightarrow> pid_ip (pe_peerid pe))"

lemma cleanup_spec:
  assumes "tr_inv N P tr"
  shows "let M = (\<lambda>n. Option.bind (ft_map (tr_ft tr) n) (entry_drop (conn_ip conn (pt_peers (tr_pt tr))))) in
     bounded N P M \<and> (\<exists>ft pt. ft_rep ft M \<and> pt_inv pt \<and>
       pt_peers pt = remove_first (has_conn conn) (pt_peers (tr_pt tr)) \<and>
       receiver_task_cleanup conn tr = (case answer (tr_callocs tr) of (ok, al) \<Rightarrow>
         Inr (tr\<lparr>tr_ft := ft, tr_pt := pt, tr_callocs := al,
           tr_socks := (if ok then announce (table_news ft) (-1) (pt_peers pt) else id) (tr_socks tr),
           tr_closed := (if ok then [conn] else []) @ tr_closed tr\<rparr>)))"
proof -
  let ?ip = "conn_ip conn (pt_peers (tr_pt tr))"
  let ?M = "\<lambda>n. Option.bind (ft_map (tr_ft tr) n) (entry_drop ?ip)"
  have inv: "small N P" "ft_inv (tr_ft tr)" "ft_callocs (tr_ft tr) = []" "bounded N P (ft_map (tr_ft tr))" "pt_inv (tr_pt tr)"
    using assms by (simp_all add: tr_inv_def ft_rep_def)
  obtain r pt where pt: "peer_table_delete (tr_pt tr) conn = Inr (r, pt)" "word_of_int r = ?ip" "pt_inv pt"
      "pt_peers pt = remove_first (has_conn conn) (pt_peers (tr_pt tr))"
    using peer_table_delete_spec [OF inv(5), of conn] by (auto simp: conn_ip_def split: option.splits)
  obtain ft where ft: "file_table_delete_owner (tr_ft tr) ?ip = Inr ft" "ft_inv ft" "ft_callocs ft = []" "ft_map ft = ?M"
    using file_table_delete_owner_spec [OF inv(2), of ?ip] inv(3) by auto
  have M: "bounded N P ?M" using bounded_drop [OF inv(4)] .
  have lim: "length (bkt_all (file_htable ft)) \<le> MAX_FILE_ENTRIES"
      "\<And>p. p \<in> set (bkt_all (file_htable ft)) \<Longrightarrow> length (fe_owners (entry_at ft p)) \<le> MAX_PEER_ENTRIES"
    using table_small [OF inv(1) ft(2)] M ft(4) by simp_all
  then have fill: "trans_table_fill_from ft = Inr (tft_of (map (te_of \<circ> entry_at ft) (bkt_all (file_htable ft))))"
    by (simp add: trans_table_fill_from_spec [OF ft(2)] tft_of_def Let_def)
  have mark: "mark_modified (tft_of (map (te_of \<circ> entry_at ft) (bkt_all (file_htable ft)))) = Inr (tft_of (table_news ft))"
    using lim(1) by (simp add: mark_modified_spec table_news_def comp_def)
  have "receiver_task_cleanup conn tr = (case answer (tr_callocs tr) of (ok, al) \<Rightarrow>
         Inr (tr\<lparr>tr_ft := ft, tr_pt := pt, tr_callocs := al,
           tr_socks := (if ok then announce (table_news ft) (-1) (pt_peers pt) else id) (tr_socks tr),
           tr_closed := (if ok then [conn] else []) @ tr_closed tr\<rparr>))"
  proof (cases "answer (tr_callocs tr)")
    case (Pair ok al)
    have pt': "pt_inv (tr_pt (tr\<lparr>tr_pt := pt, tr_ft := ft, tr_callocs := al\<rparr>))" using pt(3) by simp
    show ?thesis using broadcast_announce [OF pt', of "table_news ft" "-1"]
      by (simp add: receiver_task_cleanup_def pt(1,2) ft(1) Pair fill mark Let_def split: bool.split)
  qed
  with pt(3,4) ft M show ?thesis unfolding Let_def by (auto simp: ft_rep_def)
qed

section \<open>Every interleaving\<close>

fun task_known :: "string set \<Rightarrow> u32 set \<Rightarrow> task \<Rightarrow> bool" where
  "task_known N P (T_Sync conn tft) \<longleftrightarrow> tft_known N P tft"
| "task_known N P (T_Update conn tft) \<longleftrightarrow> tft_known N P tft"
| "task_known N P (T_Touch p) \<longleftrightarrow> p \<noteq> NULL"
| "task_known N P _ \<longleftrightarrow> True"

text \<open>The tables the peers send are well formed and speak of known files and peers.\<close>

fun event_known :: "string set \<Rightarrow> u32 set \<Rightarrow> tr_event \<Rightarrow> bool" where
  "event_known N P (E_Packet i pkt) \<longleftrightarrow>
     (ph_type (ptot_hdr pkt) \<in> {PEER_SYNC, PEER_FILE_UPDATE} \<longrightarrow> tft_known N P (packet_table pkt))"
| "event_known N P _ \<longleftrightarrow> True"

definition tr_ok :: "string set \<Rightarrow> u32 set \<Rightarrow> tracker \<Rightarrow> bool" where
  "tr_ok N P tr \<longleftrightarrow> tr_inv N P tr \<and> (\<forall>t \<in> set (tr_tasks tr). task_known N P t) \<and>
     (\<forall>w \<in> set (tr_watchers tr). w_pe w \<noteq> Some NULL)"

lemma update_task_inv:
  assumes "tr_inv N P tr" and "tft_known N P tft"
  shows "\<exists>tr'. peer_file_update_task conn tft tr = Inr tr' \<and> tr_inv N P tr' \<and> tr_tasks tr' = tr_tasks tr \<and> tr_watchers tr' = tr_watchers tr"
  using update_task_spec [OF assms, of conn] assms(1)
  by (auto simp: tr_inv_def ft_rep_def split: prod.splits)

lemma sync_task_inv:
  assumes "tr_inv N P tr" and "tft_known N P tft"
  shows "\<exists>r tr'. sync_task conn tft tr = Inr (r, tr') \<and> tr_inv N P tr' \<and> tr_tasks tr' = tr_tasks tr \<and> tr_watchers tr' = tr_watchers tr"
proof -
  have al: "tr_inv N P (tr\<lparr>tr_callocs := al\<rparr>)" for al using assms(1) by (simp add: tr_inv_def)
  have "\<exists>tr'. sync_body conn tft (tr\<lparr>tr_callocs := al\<rparr>) = Inr tr' \<and> tr_inv N P tr' \<and> tr_tasks tr' = tr_tasks tr \<and> tr_watchers tr' = tr_watchers tr" for al
    using sync_body_spec [OF al assms(2), of conn al] assms(1)
    by (auto simp: tr_inv_def ft_rep_def split: prod.splits)
  then show ?thesis using al
    by (auto simp: sync_task_def split: prod.split bool.split) (metis ebind_simps(2))+
qed

lemma cleanup_inv:
  assumes "tr_inv N P tr"
  shows "\<exists>tr'. receiver_task_cleanup conn tr = Inr tr' \<and> tr_inv N P tr' \<and> tr_tasks tr' = tr_tasks tr \<and> tr_watchers tr' = tr_watchers tr"
proof -
  have "small N P" using assms by (simp add: tr_inv_def)
  with cleanup_spec [OF assms, of conn] show ?thesis
    by (cases "answer (tr_callocs tr)") (auto simp: Let_def tr_inv_def ft_rep_def)
qed

lemma receiver_exit_inv:
  assumes "tr_inv N P tr"
  shows "\<exists>tr'. receiver_exit rc tr = Inr tr' \<and> tr_inv N P tr' \<and> tr_tasks tr' = tr_tasks tr \<and> tr_watchers tr' = tr_watchers tr"
  using cleanup_inv [OF assms, of "rc_conn rc"] by (auto simp: receiver_exit_def tr_inv_def)

lemma register_inv:
  assumes "tr_inv N P tr"
  shows "\<exists>r tr'. peer_register_handler_task now conn i tid tr = Inr (r, tr') \<and> tr_inv N P tr' \<and> tr_tasks tr' = tr_tasks tr \<and>
     (\<forall>w \<in> set (tr_watchers tr'). w \<in> set (tr_watchers tr) \<or> w_pe w = None)"
proof -
  let ?fill = "\<lambda>pe. pe\<lparr>pe_conn := conn, pe_peerid := i, pe_tid := tid\<rparr>"
  obtain r s where send: "send_ttop_packet (accept_packet (tr_ctr tr)) (tr_socks tr conn) = (r, s)" by fastforce
  have "pt_inv (tr_pt tr)" using assms by (simp add: tr_inv_def)
  from peer_insert_spec [OF this, of now ?fill] obtain q pt where
    "peer_insert now ?fill (tr_pt tr) = Inr (q, pt)" "pt_inv pt" by (auto split: prod.splits)
  with assms show ?thesis
    by (auto simp: peer_register_handler_task_def tr_send_def send tr_inv_def Let_def)
qed

text \<open>The second critical section of the keep-alive task, on a pointer that was found before.\<close>

lemma touch_inv:
  assumes "tr_inv N P tr"
  shows "if cells (pt_heap (tr_pt tr)) p = None then life_touch p tr = Inl Bad_Pointer
     else \<exists>tr'. life_touch p tr = Inr tr' \<and> tr_inv N P tr' \<and> tr_tasks tr' = tr_tasks tr \<and> tr_watchers tr' = tr_watchers tr"
proof -
  let ?f = "\<lambda>pe. pe\<lparr>pe_timestamp := pe_timestamp pe + word_of_int (ci_interval (tr_ctr tr))\<rparr>"
  have "pt_inv (tr_pt tr)" using assms by (simp add: tr_inv_def)
  from peer_touch_inv [OF this, of p ?f] assms show ?thesis
    by (auto simp: life_touch_def tr_inv_def split: if_splits)
qed

lemma find_total:
  assumes "tr_inv N P tr"
  shows "\<exists>p. peer_table_find (tr_pt tr) i = Inr p"
  using assms by (auto simp: tr_inv_def peer_table_find_spec)

text \<open>The event that uses an entry which has been freed since the thread looked it up. The null pointer is not such an entry.\<close>

definition freed :: "ptr \<Rightarrow> tracker \<Rightarrow> bool" where
  "freed p tr \<longleftrightarrow> p \<noteq> NULL \<and> cells (pt_heap (tr_pt tr)) p = None"

fun stale :: "tr_event \<Rightarrow> tracker \<Rightarrow> bool" where
  "stale (E_Task i now) tr \<longleftrightarrow> i < length (tr_tasks tr) \<and>
     (case tr_tasks tr ! i of T_Touch p \<Rightarrow> freed p tr | _ \<Rightarrow> False)"
| "stale (E_Watch i) tr \<longleftrightarrow> i < length (tr_watchers tr) \<and>
     (case w_pe (tr_watchers tr ! i) of Some p \<Rightarrow> freed p tr | None \<Rightarrow> False)"
| "stale _ tr \<longleftrightarrow> False"

lemma freed_tasks [simp]: "freed p (tr\<lparr>tr_tasks := ts\<rparr>) = freed p tr"
  by (simp add: freed_def)

lemma task_step_ok:
  assumes "tr_ok N P tr" and "task_known N P t"
  shows "if \<exists>p. t = T_Touch p \<and> freed p tr then task_step now t tr = Inl Bad_Pointer
     else \<exists>tr'. task_step now t tr = Inr tr' \<and> tr_ok N P tr'"
proof -
  have inv: "tr_inv N P tr" using assms(1) by (simp add: tr_ok_def)
  show ?thesis
  proof (cases t)
    case (T_Register conn i tid)
    with register_inv [OF inv, of now conn i tid] assms(1) show ?thesis by (fastforce simp: tr_ok_def)
  next
    case (T_Life i)
    with find_total [OF inv, of i] assms(1) show ?thesis by (auto simp: tr_ok_def start_task_def tr_inv_def)
  next
    case (T_Touch p)
    with touch_inv [OF inv, of p] assms show ?thesis by (auto simp: tr_ok_def freed_def split: if_splits)
  next
    case (T_Sync conn tft)
    with sync_task_inv [OF inv, of tft conn] assms show ?thesis by (auto simp: tr_ok_def)
  next
    case (T_Update conn tft)
    with update_task_inv [OF inv, of tft conn] assms show ?thesis by (auto simp: tr_ok_def)
  qed
qed

lemma receiver_exit_ok:
  assumes "tr_ok N P tr"
  shows "\<exists>tr'. receiver_exit rc (tr\<lparr>tr_callocs := al\<rparr>) = Inr tr' \<and> tr_ok N P tr'"
proof -
  have "tr_inv N P (tr\<lparr>tr_callocs := al\<rparr>)" using assms by (simp add: tr_ok_def tr_inv_def)
  from receiver_exit_inv [OF this, of rc] assms show ?thesis by (auto simp: tr_ok_def)
qed

lemma start_task_ok:
  "tr_ok N P tr \<Longrightarrow> task_known N P t \<Longrightarrow> tr_ok N P (start_task t (tr\<lparr>tr_callocs := al\<rparr>))"
  by (auto simp: tr_ok_def start_task_def tr_inv_def)

lemma receiver_task_ok:
  assumes "tr_ok N P tr"
    and "ph_type (ptot_hdr pkt) \<in> {PEER_SYNC, PEER_FILE_UPDATE} \<longrightarrow> tft_known N P (packet_table pkt)"
  shows "\<exists>tr'. receiver_task rc pkt tr = Inr tr' \<and> tr_ok N P tr'"
proof -
  have plain: "tr_ok N P (start_task t tr)" if "task_known N P t" for t
    using assms(1) that by (auto simp: tr_ok_def start_task_def tr_inv_def)
  show ?thesis
    using assms start_task_ok [OF assms(1)] plain receiver_exit_ok [OF assms(1), of rc]
    by (auto simp: receiver_task_def Let_def split: prod.split bool.split)
qed

lemma set_drop_at: "set (drop_at i xs) \<subseteq> set xs"
  by (auto simp: drop_at_def dest: in_set_takeD in_set_dropD)

lemma watch_ok:
  assumes "tr_inv N P tr" and "w_pe w \<noteq> Some NULL"
  shows "if \<exists>p. w_pe w = Some p \<and> freed p tr then watch_step w tr = Inl Bad_Pointer
     else \<exists>w' tr'. watch_step w tr = Inr (w', tr') \<and> tr_inv N P tr' \<and> tr_tasks tr' = tr_tasks tr \<and>
       tr_watchers tr' = tr_watchers tr \<and> (\<forall>x. w' = Some x \<longrightarrow> w_pe x \<noteq> Some NULL)"
proof (cases "w_pe w")
  case None
  with find_total [OF assms(1), of "w_ip w"] assms(1) show ?thesis
    by (auto simp: watch_step_def cancel_receiver_def tr_inv_def)
next
  case (Some p)
  with assms show ?thesis
    by (auto simp: watch_step_def check_entry_def freed_def hget_def cancel_receiver_def tr_inv_def split: option.split)
qed

lemma tr_exec_ok:
  assumes "tr_ok N P tr" and "event_known N P e"
  shows "if stale e tr then tr_exec e tr = Inl Bad_Pointer else \<exists>tr'. tr_exec e tr = Inr tr' \<and> tr_ok N P tr'"
proof -
  have inv: "tr_inv N P tr" using assms(1) by (simp add: tr_ok_def)
  have exit: "\<exists>tr'. receiver_exit rc tr = Inr tr' \<and> tr_ok N P tr'" for rc
    using receiver_exit_inv [OF inv, of rc] assms(1) by (auto simp: tr_ok_def)
  show ?thesis
  proof (cases e)
    case (E_Accept conn tid)
    with assms(1) show ?thesis by (auto simp: tr_ok_def tr_inv_def)
  next
    case (E_Packet i pkt)
    with receiver_task_ok [OF assms(1), of pkt] assms show ?thesis by auto
  next
    case (E_Hangup i)
    with exit assms(1) show ?thesis by auto
  next
    case (E_Cancel i)
    with exit assms(1) show ?thesis by auto
  next
    case (E_Task i now)
    let ?tr = "tr\<lparr>tr_tasks := drop_at i (tr_tasks tr)\<rparr>"
    have "tr_ok N P ?tr"
      using assms(1) set_drop_at [of i "tr_tasks tr"] by (auto simp: tr_ok_def tr_inv_def)
    moreover have "task_known N P (tr_tasks tr ! i)" if "i < length (tr_tasks tr)"
      using assms(1) nth_mem [OF that] by (simp add: tr_ok_def)
    ultimately show ?thesis
      using task_step_ok [of N P ?tr "tr_tasks tr ! i" now] E_Task assms(1)
      by (cases "tr_tasks tr ! i") (auto simp del: task_step.simps split: if_splits)
  next
    case (E_Watch i)
    show ?thesis
    proof (cases "i < length (tr_watchers tr)")
      case True
      let ?w = "tr_watchers tr ! i"
      have "w_pe ?w \<noteq> Some NULL" using assms(1) nth_mem [OF True] by (simp add: tr_ok_def)
      note step = watch_ok [OF inv this]
      show ?thesis
      proof (cases "\<exists>p. w_pe ?w = Some p \<and> freed p tr")
        case f: True
        with step E_Watch True show ?thesis by auto
      next
        case False
        with step obtain w' tr' where w': "watch_step ?w tr = Inr (w', tr')" "tr_inv N P tr'" "tr_tasks tr' = tr_tasks tr"
          "tr_watchers tr' = tr_watchers tr" "\<forall>x. w' = Some x \<longrightarrow> w_pe x \<noteq> Some NULL" by auto
        have "w_pe x \<noteq> Some NULL" if "x \<in> set (case w' of None \<Rightarrow> drop_at i (tr_watchers tr) | Some w \<Rightarrow> (tr_watchers tr)[i := w])" for x
          using that w'(5) assms(1) set_drop_at [of i "tr_watchers tr"] set_update_subset_insert [of "tr_watchers tr" i]
          by (fastforce simp: tr_ok_def split: option.splits)
        with False E_Watch True w' assms(1) show ?thesis
          by (auto simp: tr_ok_def tr_inv_def split: option.splits)
      qed
    next
      case False
      with E_Watch assms(1) show ?thesis by simp
    qed
  qed
qed

lemma tracker_start_ok: "small N P \<Longrightarrow> tr_ok N P (tracker_start ctr socks al pal)"
  using ft_start_rep pt_start_rep
  by (auto simp: tr_ok_def tracker_start_def tr_inv_def pt_rep_def ft_rep_def pt_inv_def)

text \<open>A run without such an event.\<close>

fun no_stale :: "tr_event list \<Rightarrow> tracker \<Rightarrow> bool" where
  "no_stale [] tr \<longleftrightarrow> True"
| "no_stale (e # es) tr \<longleftrightarrow> \<not> stale e tr \<and> (case tr_exec e tr of Inl _ \<Rightarrow> True | Inr tr \<Rightarrow> no_stale es tr)"

lemma no_stale_append:
  "efold tr_exec es tr = Inr tr' \<Longrightarrow> no_stale (es @ fs) tr \<longleftrightarrow> no_stale es tr \<and> no_stale fs tr'"
  by (induction es arbitrary: tr) (auto simp: ebind_eq_Inr simp del: tr_exec.simps)

lemma tracker_run:
  assumes "tr_ok N P tr" and "\<forall>e \<in> set es. event_known N P e"
  shows "if no_stale es tr then \<exists>tr'. efold tr_exec es tr = Inr tr' \<and> tr_ok N P tr' else efold tr_exec es tr = Inl Bad_Pointer"
  using assms
proof (induction es arbitrary: tr)
  case (Cons e es)
  show ?case
  proof (cases "stale e tr")
    case True
    then show ?thesis using tr_exec_ok [OF Cons.prems(1), of e] Cons.prems(2) by simp
  next
    case False
    with tr_exec_ok [OF Cons.prems(1), of e] Cons.prems(2) obtain tr1 where "tr_exec e tr = Inr tr1" "tr_ok N P tr1" by auto
    with Cons.IH [of tr1] Cons.prems(2) False show ?thesis by simp
  qed
qed simp

text \<open>Without an event between them, the two steps are the whole task and the whole round.\<close>

lemma life_undisturbed:
  assumes "tr_inv N P tr" and "tr_tasks tr = [T_Life i]" and "find (has_ip i) (pt_peers (tr_pt tr)) \<noteq> None"
  shows "efold tr_exec [E_Task 0 now, E_Task 0 now'] tr = run_task now (T_Life i) (tr\<lparr>tr_tasks := []\<rparr>)"
proof -
  have pt: "pt_inv (tr_pt tr)" using assms(1) by (simp add: tr_inv_def)
  from assms(3) obtain p where p: "find (\<lambda>p. has_ip i (peer_at (tr_pt tr) p)) (peer_head (tr_pt tr)) = Some p"
    by (auto simp: pt_peers_def find_map)
  then have "p \<noteq> NULL" using find_Some_split [OF p] pt_inv_not_null [OF pt, of p] by auto
  with p have "peer_table_find (tr_pt tr) i = Inr p" "p \<noteq> NULL" by (simp_all add: peer_table_find_spec [OF pt])
  then show ?thesis using assms(2)
    by (simp add: drop_at_def start_task_def peer_life_update_task_def life_touch_def ebind_def split: sum.split)
qed

lemma watch_undisturbed:
  assumes "watch_step w tr = Inr (Some w1, tr)" and "w_pe w = None"
  shows "watch_step w1 tr = peer_check_alive_task w tr"
proof -
  from assms obtain p where p: "peer_table_find (tr_pt tr) (w_ip w) = Inr p" "p \<noteq> NULL" "w1 = w\<lparr>w_pe := Some p\<rparr>"
    by (auto simp: watch_step_def ebind_eq_Inr split: if_splits)
  have "w1\<lparr>w_pe := None\<rparr> = w" using assms(2) p(3) by (cases w) simp
  with p show ?thesis by (simp add: watch_step_def peer_check_alive_task_def)
qed

text \<open>
  C3. When the memory of the tracker is corrupted, as long as its limits are kept. Let the tables the peers send be
  well formed, let all of them together name at most 4096 files and 16 peers, and let the allocations of the file table succeed. Take any
  order of connections, packets, hang-ups, cancellations, steps of tasks and steps of watchers, any results
  of \<open>send\<close> and of the allocations of the tasks and of the peer table. The keep-alive task and the watchdog give the mutex of the peer table back
  between the look-up of a peer and the use of its entry, and every other event may come between; registrations,
  synchronisations, reports and the ends of connections are taken as a whole. Then the run ends in a read
  through a dangling pointer if and only if one of these two threads uses an entry that was freed after it
  had looked it up. In every other run no step reads or writes out of bounds or through a bad pointer, and both tables keep their
  invariants: the file table stands for a map within the limits and the peer table counts its peers.
\<close>

theorem tracker_fails_only_by_stale_peer:
  assumes "small N P" and "\<forall>e \<in> set es. event_known N P e"
  shows "if no_stale es (tracker_start ctr socks al pal)
     then \<exists>tr. efold tr_exec es (tracker_start ctr socks al pal) = Inr tr \<and>
       ft_inv (tr_ft tr) \<and> bounded N P (ft_map (tr_ft tr)) \<and>
       peer_num (tr_pt tr) = int (length (pt_peers (tr_pt tr)))
     else efold tr_exec es (tracker_start ctr socks al pal) = Inl Bad_Pointer"
  using tracker_run [OF tracker_start_ok [OF assms(1)] assms(2), of ctr socks al pal]
  by (auto simp: tr_ok_def tr_inv_def ft_rep_def pt_inv_def pt_peers_def)

text \<open>A peer registers; its watcher looks it up; the connection ends; the watcher goes on. And the same run up
  to the end of the connection.\<close>

definition stale_run :: "tr_event list" where
  "stale_run = [E_Accept 4 1, E_Packet 0 (ptot_packet_init 1 PEER_REGISTER), E_Task 0 9, E_Watch 0, E_Hangup 0, E_Watch 0]"

abbreviation tr_idle :: tracker where
  "tr_idle \<equiv> tracker_start \<lparr>ci_interval = 10, ci_piece_len = 512\<rparr> (\<lambda>_. \<lparr>wire_out = [], send_replies = []\<rparr>) [True, False] []"

lemma stale_run_found:
  "\<exists>tr pe. efold tr_exec (take 4 stale_run) tr_idle = Inr tr \<and> tr_ft tr = ft_start \<and> tr_callocs tr = [False] \<and>
     tr_receivers tr = [\<lparr>rc_tid = 1, rc_conn = 4\<rparr>] \<and> map w_pe (tr_watchers tr) = [Some 1] \<and> pe_conn pe = 4 \<and>
     peer_head (tr_pt tr) = [1] \<and> cells (pt_heap (tr_pt tr)) = [1 \<mapsto> pe]"
proof -
  let ?c = "\<lparr>ci_interval = 10, ci_piece_len = 512\<rparr>" and ?s = "\<lparr>wire_out = [], send_replies = []\<rparr>"
  obtain r s where "send_ttop_packet (accept_packet ?c) ?s = (r, s)" "r > 0"
    using send_ttop_packet_complete [of ?s "accept_packet ?c"] by auto
  then show ?thesis
    by (simp add: stale_run_def tracker_start_def pt_start_def peer_table_init_def receiver_task_def ptot_packet_init_def
        ptot_type_defs start_task_def drop_at_def peer_register_handler_task_def tr_send_def peer_insert_def
        peer_entry_alloc_def hnew_def heap_empty_def peer_table_add_def watch_step_def peer_table_find_def hput_def hget_def Let_def)
      (rule exI [of _ "pe_zero\<lparr>pe_timestamp := 9, pe_conn := 4, pe_peerid := \<lparr>pid_ip = 1, pid_port = P2P_PORT\<rparr>,
        pe_tid := 1\<rparr>"], simp)
qed

lemma stale_run_stale: "\<not> no_stale stale_run tr_idle" "no_stale (butlast stale_run) tr_idle"
proof -
  from stale_run_found obtain tr pe where tr: "efold tr_exec (take 4 stale_run) tr_idle = Inr tr" "tr_ft tr = ft_start"
    "tr_callocs tr = [False]" "tr_receivers tr = [\<lparr>rc_tid = 1, rc_conn = 4\<rparr>]" "map w_pe (tr_watchers tr) = [Some 1]"
    "pe_conn pe = 4" "peer_head (tr_pt tr) = [1]" "cells (pt_heap (tr_pt tr)) = [1 \<mapsto> pe]" by (elim exE conjE) (rule that)
  have "file_table_delete_owner ft_start i = Inr ft_start" for i
    by (simp add: file_table_delete_owner_def ft_start_def file_table_init_def)
  with tr obtain tr' where tr': "tr_exec (E_Hangup 0) tr = Inr tr'" "cells (pt_heap (tr_pt tr')) 1 = None"
      "tr_watchers tr' = tr_watchers tr"
    by (auto simp: receiver_exit_def receiver_task_cleanup_def peer_table_delete_def hget_def hfree_def Let_def)
  have first: "no_stale (take 4 stale_run) tr_idle" by code_simp
  note run = no_stale_append [OF tr(1)]
  have w: "\<exists>w. tr_watchers tr = [w] \<and> w_pe w = Some 1" using tr(5) by auto
  have "stale_run = take 4 stale_run @ [E_Hangup 0, E_Watch 0]" "butlast stale_run = take 4 stale_run @ [E_Hangup 0]"
    by (simp_all add: stale_run_def)
  then show "\<not> no_stale stale_run tr_idle" "no_stale (butlast stale_run) tr_idle"
    using run [of "[E_Hangup 0, E_Watch 0]"] run [of "[E_Hangup 0]"] first tr' w by (auto simp: freed_def simp del: tr_exec.simps)
qed

theorem tracker_fails_only_by_stale_peer_witness:
  "efold tr_exec stale_run tr_idle = Inl Bad_Pointer \<and>
   (\<exists>tr. efold tr_exec (butlast stale_run) tr_idle = Inr tr \<and> peer_num (tr_pt tr) = int (length (pt_peers (tr_pt tr))))"
proof -
  have "small {''1/a''} {1}" by (simp add: small_def MAX_FILE_ENTRIES_def MAX_PEER_ENTRIES_def)
  note run = tracker_fails_only_by_stale_peer [OF this, of _ "\<lparr>ci_interval = 10, ci_piece_len = 512\<rparr>"
      "\<lambda>_. \<lparr>wire_out = [], send_replies = []\<rparr>" "[True, False]" "[]"]
  have known: "\<forall>e \<in> set stale_run. event_known {''1/a''} {1} e" "\<forall>e \<in> set (butlast stale_run). event_known {''1/a''} {1} e"
    by (simp_all add: stale_run_def ptot_packet_init_def ptot_type_defs)
  from run [OF known(1)] run [OF known(2)] stale_run_stale show ?thesis by auto
qed

section \<open>What the tasks do\<close>


text \<open>A tracker without peers and files, and a report.\<close>

definition tr_example :: tracker where
  "tr_example = tracker_start \<lparr>ci_interval = 10, ci_piece_len = 512\<rparr> (\<lambda>_. \<lparr>wire_out = [], send_replies = []\<rparr>) [] []"

lemma tr_example_inv: "tr_inv {''1/a''} {1} tr_example"
  using tracker_start_ok [of "{''1/a''}" "{1}"]
  by (simp add: tr_example_def tr_ok_def small_def MAX_FILE_ENTRIES_def MAX_PEER_ENTRIES_def)

definition tft_example :: "u16 \<Rightarrow> trans_file_table" where
  "tft_example op = tft_of [(te_example ''1/a'' 5 1)\<lparr>te_op_type := op\<rparr>]"

lemma tft_list_of: "tft_list (tft_of L) = L"
  by (rule nth_equalityI) (simp_all add: tft_list_def nth_default_def)

lemma tft_example_known: "tft_known {''1/a''} {1} (tft_example op)"
  using te_example_ok [of "''1/a''" 5 1]
  by (simp add: tft_known_def tft_example_def tft_list_of te_known_def MAX_FILE_ENTRIES_def te_ok_def
      te_owner_list_def te_example_def)

lemma tr_example_map: "ft_map (tr_ft tr_example) = (\<lambda>_. None)" "pt_peers (tr_pt tr_example) = []"
  using ft_start_rep by (simp_all add: tr_example_def tracker_start_def ft_rep_def pt_peers_def pt_start_def peer_table_init_def)

text \<open>The peers of the connections 4 and 5.\<close>

definition two_peers :: peer_table where
  "two_peers = \<lparr>peer_num = 2, peer_head = [2, 1], pt_heap = \<lparr>cells = [1 \<mapsto> pe_zero\<lparr>pe_conn := 4\<rparr>, 2 \<mapsto> pe_zero\<lparr>pe_conn := 5\<rparr>], brk = 3\<rparr>,
     pt_callocs = []\<rparr>"

lemma two_peers_inv: "pt_inv two_peers" "pt_peers two_peers = [pe_zero\<lparr>pe_conn := 5\<rparr>, pe_zero\<lparr>pe_conn := 4\<rparr>]"
  by (auto simp: two_peers_def pt_inv_def heap_ok_def pt_peers_def peer_at_def)



text \<open>
  The report that a file was modified which the tracker does not have adds the file to the
  table, but the announcement the other peers get is an entry without name, owners and time: the
  task fills it from the null pointer it got before the file was added.
\<close>

lemma modify_unknown_announced_empty:
  assumes "tr_inv N P tr" and "tft_list tft = [te]" and "te_known N P te" and "tft_n tft \<le> int MAX_FILE_ENTRIES"
    and "te_op_type te = FILE_MODIFY" and "ft_map (tr_ft tr) (te_name te) = None"
  shows "\<exists>tr'. peer_file_update_task conn tft tr = Inr tr' \<and>
     ft_map (tr_ft tr') = (ft_map (tr_ft tr))(te_name te \<mapsto> entry_of te) \<and>
     tr_socks tr' = announce [te_zero\<lparr>te_op_type := FILE_ADD\<rparr>] conn (pt_peers (tr_pt tr)) (tr_socks tr)"
proof -
  have "tft_known N P tft" using assms(2-4) by (simp add: tft_known_def)
  from update_task_spec [OF assms(1) this, of conn] assms(2,5,6) show ?thesis
    by (auto simp: update_spec_def update_map_def update_news_def add_spec_def ft_rep_def op_type_defs Let_def)
qed

lemma peer_news_names: "map te_name (peer_news tft fe) = [] \<or> map te_name (peer_news tft fe) = [fe_name fe]"
  by (simp add: peer_news_def te_of_def split: option.split)

lemma peer_news_distinct:
  assumes "distinct (map fe_name fes)"
  shows "distinct (map te_name (concat (map (peer_news tft) fes)))"
    and "set (map te_name (concat (map (peer_news tft) fes))) \<subseteq> set (map fe_name fes)"
  using assms
proof (induction fes)
  case Nil
  { case 1 show ?case by simp }
  { case 2 show ?case by simp }
next
  case (Cons fe fes)
  { case 1
    let ?ns = "map te_name (concat (map (peer_news tft) fes))"
    have *: "distinct ?ns" "set ?ns \<subseteq> set (map fe_name fes)" "fe_name fe \<notin> set (map fe_name fes)"
      using Cons.IH 1 by simp_all
    from contra_subsetD [OF *(2,3)] have "distinct (map te_name (peer_news tft fe) @ ?ns)"
      using peer_news_names [of tft fe] *(1) by (auto simp del: set_map set_concat)
    then show ?case by simp }
  { case 2 with Cons.IH peer_news_names [of tft fe] show ?case by auto }
qed

lemma sync_reply_map:
  assumes inv: "ft_inv ft"
  shows "distinct (map te_name (sync_reply tft ft))"
    and "set (sync_reply tft ft) = (\<Union>n. \<Union>fe \<in> set_option (ft_map ft n). set (peer_news tft fe))"
proof -
  let ?ps = "bkt_all (file_htable ft)"
  have reply: "sync_reply tft ft = concat (map (peer_news tft) (map (entry_at ft) ?ps))"
    by (simp add: sync_reply_def comp_def)
  show "distinct (map te_name (sync_reply tft ft))"
    unfolding reply by (rule peer_news_distinct(1)) (use ft_map_find(2) [OF inv] in \<open>simp add: comp_def\<close>)
  have "fe \<in> entry_at ft ` set ?ps \<longleftrightarrow> (\<exists>n. ft_map ft n = Some fe)" for fe
  proof
    assume "fe \<in> entry_at ft ` set ?ps"
    then obtain p where "p \<in> set ?ps" "fe = entry_at ft p" by blast
    with ft_inv_cell [OF inv, of p] have "in_table ft p fe" by (auto simp: in_table_def entry_at_def)
    then show "\<exists>n. ft_map ft n = Some fe" by (simp add: ft_map_iff [OF inv]) blast
  next
    assume "\<exists>n. ft_map ft n = Some fe"
    then obtain p where "in_table ft p fe" by (auto simp: ft_map_iff [OF inv])
    then have "p \<in> set ?ps" "fe = entry_at ft p" by (simp_all add: in_table_def entry_at_def)
    then show "fe \<in> entry_at ft ` set ?ps" by blast
  qed
  then have all: "entry_at ft ` set ?ps = (\<Union>n. set_option (ft_map ft n))" by (intro set_eqI) simp
  have "set (sync_reply tft ft) = (\<Union>fe \<in> entry_at ft ` set ?ps. set (peer_news tft fe))" by (simp add: reply)
  then show "set (sync_reply tft ft) = (\<Union>n. \<Union>fe \<in> set_option (ft_map ft n). set (peer_news tft fe))"
    unfolding all by (simp only: UN_UN_flatten)
qed

text \<open>
  C10. A joining peer is synchronised. With its allocations granted, \<open>sync_task\<close> merges the table
  of the peer into the map, sends the peer one reply, and announces what was new to the others. The
  reply has at most one entry per file and speaks of exactly those files of the tracker that the peer
  does not list, or lists with an older time, or with the same time and other owners; each with the
  entry the tracker has.
\<close>

theorem sync_brings_peer_up_to_date:
  assumes "tr_inv N P tr" and "tft_known N P tft" and "tr_callocs tr = []"
  shows "\<exists>tr' R L. sync_task conn tft tr = Inr (0, tr') \<and>
     ft_map (tr_ft tr') = fold map_exec (map FT_Add (tft_list tft)) (ft_map (tr_ft tr)) \<and>
     distinct (map te_name R) \<and>
     set R = (\<Union>n. \<Union>fe \<in> set_option (ft_map (tr_ft tr) n). set (peer_news tft fe)) \<and>
     tr_socks tr' = announce L conn (pt_peers (tr_pt tr))
       ((tr_socks tr)(conn := snd (send_ttop_packet (table_packet TRACKER_SYNC (tft_of R)) (tr_socks tr conn))))"
proof -
  have inv: "ft_inv (tr_ft tr)" using assms(1) by (simp add: tr_inv_def ft_rep_def)
  obtain M L where fld: "fold sync_spec (tft_list tft) (ft_map (tr_ft tr), []) = (M, L)" by fastforce
  have M: "M = fold map_exec (map FT_Add (tft_list tft)) (ft_map (tr_ft tr))"
    using fst_fold_sync [of "tft_list tft" "ft_map (tr_ft tr)" "[]"] by (simp add: fld)
  have al: "tr\<lparr>tr_callocs := []\<rparr> = tr" using assms(3) by (cases tr) simp
  let ?R = "sync_reply tft (tr_ft tr)"
  let ?tr = "\<lambda>ft. tr\<lparr>tr_ft := ft, tr_socks := announce L conn (pt_peers (tr_pt tr))
     ((tr_socks tr)(conn := snd (send_ttop_packet (table_packet TRACKER_SYNC (tft_of ?R)) (tr_socks tr conn))))\<rparr>"
  from sync_body_spec [OF assms(1,2), of conn] obtain ft where
    "ft_rep ft M" "sync_body conn tft tr = Inr (?tr ft)" by (auto simp: fld)
  then have "sync_task conn tft tr = Inr (0, ?tr ft)" and "ft_map ft = M"
    by (simp_all add: sync_task_def assms(3) al ft_rep_def)
  then show ?thesis
    by (intro exI [of _ "?tr ft"] exI [of _ ?R] exI [of _ L]) (simp add: M sync_reply_map [OF inv])
qed

theorem sync_brings_peer_up_to_date_witness:
  "\<exists>tr'. sync_task 4 (tft_example FILE_ADD) tr_example = Inr (0, tr') \<and>
     ft_map (tr_ft tr') ''1/a'' = Some (entry_of (te_example ''1/a'' 5 1))"
proof -
  have "tr_callocs tr_example = []" by (simp add: tr_example_def tracker_start_def)
  from sync_brings_peer_up_to_date [OF tr_example_inv tft_example_known this, of 4 FILE_ADD] show ?thesis
    by (auto simp: tr_example_map tft_example_def tft_list_of add_spec_def entry_of_def te_owner_list_def te_example_def)
qed

text \<open>
  C19. The end of a connection. The peer that registered over it (the newest one, if several did)
  leaves the peer table; its address leaves the owners of every file, and files without owner
  disappear; every peer that is left is sent the whole remaining table, and the connection is
  closed. If the allocation of the announcement fails, the tables are updated but nothing is sent
  and the connection stays open. A connection over which nobody registered counts as the address
  255.255.255.255.
\<close>

theorem connection_end_removes_peer:
  assumes "tr_inv N P tr"
  shows "\<exists>tr' granted. receiver_task_cleanup conn tr = Inr tr' \<and> granted = fst (answer (tr_callocs tr)) \<and>
     pt_peers (tr_pt tr') = remove_first (has_conn conn) (pt_peers (tr_pt tr)) \<and>
     ft_map (tr_ft tr') = (\<lambda>n. Option.bind (ft_map (tr_ft tr) n) (entry_drop
       (case find (has_conn conn) (pt_peers (tr_pt tr)) of None \<Rightarrow> 0xFFFFFFFF | Some pe \<Rightarrow> pid_ip (pe_peerid pe)))) \<and>
     tr_closed tr' = (if granted then [conn] else []) @ tr_closed tr \<and>
     tr_socks tr' = (if granted then announce (table_news (tr_ft tr')) (-1) (pt_peers (tr_pt tr')) else id) (tr_socks tr)"
proof -
  have ip: "conn_ip conn ps = (case find (has_conn conn) ps of None \<Rightarrow> 0xFFFFFFFF | Some pe \<Rightarrow> pid_ip (pe_peerid pe))" for ps
    by (simp add: conn_ip_def split: option.split)
  show ?thesis
    using cleanup_spec [OF assms, of conn] unfolding Let_def ip
    by (cases "answer (tr_callocs tr)") (auto simp: ft_rep_def)
qed

theorem connection_end_removes_peer_witness:
  "\<exists>tr'. receiver_task_cleanup 4 tr_example = Inr tr' \<and> pt_peers (tr_pt tr') = [] \<and> tr_closed tr' = [4]"
proof -
  have al: "tr_callocs tr_example = []" "tr_closed tr_example = []" by (simp_all add: tr_example_def tracker_start_def)
  from connection_end_removes_peer [OF tr_example_inv, of 4] show ?thesis
    by (auto simp: tr_example_map al)
qed

section \<open>What the peers receive\<close>

lemma send_peers_at:
  assumes "distinct (map pe_conn ps)"
  shows "send_peers pkt c ps S d =
     (if d \<noteq> c \<and> d \<in> pe_conn ` set ps then snd (send_ttop_packet pkt (S d)) else S d)"
  using assms
proof (induction ps arbitrary: S)
  case Nil
  then show ?case by (simp add: send_peers_def)
next
  case (Cons pe ps)
  have "send_peers pkt c (pe # ps) S d = send_peers pkt c ps (send_one pkt c pe S) d"
    by (simp add: send_peers_def)
  with Cons show ?case by (auto simp: send_one_def)
qed

lemma table_packet_fits:
  assumes "table_sendable t" and "length (tft_entries t) \<le> 240"
  shows "unat (th_data_len (ttop_hdr (table_packet type t))) = 4 + 272 * length (tft_entries t)"
    and "ttop_data (table_packet type t) = field 0 (4 + 272 * length (tft_entries t)) (table_bytes t)"
proof -
  have "unat (ucast (trans_table_len t) :: u16) = unat (trans_table_len t) mod 2 ^ 16"
    by (simp add: unsigned_ucast_eq take_bit_eq_mod)
  then show "unat (th_data_len (ttop_hdr (table_packet type t))) = 4 + 272 * length (tft_entries t)"
    using assms(2) by (simp add: table_packet_def Let_def trans_table_len_nat [OF assms(1)])
  then show "ttop_data (table_packet type t) = field 0 (4 + 272 * length (tft_entries t)) (table_bytes t)"
    by (simp add: table_packet_def Let_def)
qed

lemma send_table_data:
  assumes t: "table_sendable t" "length (tft_entries t) \<le> 240" and s: "send_replies s = []"
    and mark: "\<not> has_mark (ttop_bytes (table_packet type t))"
  shows "\<exists>w ret pkt'. wire_out (snd (send_ttop_packet (table_packet type t) s)) = wire_out s @ w \<and>
     recv_ttop_packet (w @ rest) pkt = Inr (ret, pkt', rest) \<and> ret > 0 \<and> th_type (ttop_hdr pkt') = type \<and>
     unat (th_data_len (ttop_hdr pkt')) = 4 + 272 * length (tft_entries t) \<and>
     field 0 (4 + 272 * length (tft_entries t)) (ttop_data pkt') = field 0 (4 + 272 * length (tft_entries t)) (table_bytes t)"
proof -
  let ?pkt = "table_packet type t" and ?n = "4 + 272 * length (tft_entries t)"
  let ?d = "field 0 ?n (table_bytes t)"
  note fits = table_packet_fits [OF t, of type]
  have ok: "ttop_ok (ttop_hdr ?pkt, ?d)"
    using mark fits by (simp add: ttop_ok_def ttop_bytes_def)
  have data: "field 0 ?n (ttop_data ?pkt) = ?d" by (simp add: fits(2) field_all)
  from recv_ttop_enc [OF ok, of rest pkt] send_ttop_packet_complete [OF s, of ?pkt]
  obtain ret pkt' r where "recv_ttop_packet (ttop_enc (ttop_hdr ?pkt, ?d) @ rest) pkt = Inr (ret, pkt', rest)"
    "ret > 0" "ttop_hdr pkt' = ttop_hdr ?pkt" "field 0 ?n (ttop_data pkt') = ?d"
    "send_ttop_packet ?pkt s = (r, s\<lparr>wire_out := wire_out s @ ttop_enc (ttop_hdr ?pkt, ?d)\<rparr>)"
    unfolding fits(1) data by blast
  moreover have "th_type (ttop_hdr ?pkt) = type" by (simp add: table_packet_def Let_def)
  ultimately show ?thesis
    by (intro exI [of _ "ttop_enc (ttop_hdr ?pkt, ?d)"] exI [of _ ret] exI [of _ pkt']) (simp add: fits(1))
qed

lemma send_table_received:
  assumes t: "table_sendable t" "length (tft_entries t) \<le> 240" and s: "send_replies s = []"
    and mark: "\<not> has_mark (ttop_bytes (table_packet type t))"
  shows "\<exists>w ret pkt'. wire_out (snd (send_ttop_packet (table_packet type t) s)) = wire_out s @ w \<and>
     recv_ttop_packet (w @ rest) pkt = Inr (ret, pkt', rest) \<and> ret > 0 \<and> th_type (ttop_hdr pkt') = type \<and>
     table_of_bytes (field 0 (unat (th_data_len (ttop_hdr pkt'))) (ttop_data pkt')) = cut_last t"
  using send_table_data [OF assms, of rest pkt] table_roundtrip [OF t(1)] by (fastforce simp: trans_table_len_nat [OF t(1)])

text \<open>
  C15. An announcement of at most 240 entries reaches every peer but the excluded one. When the
  peers of the table have different connections, \<open>send\<close> takes all bytes and the packet contains no end mark,
  then \<open>broadcast_update\<close> changes nothing of the tracker but its connections, and each of the peers reads from its connection a packet of type
  \<open>TRACKER_BROADCAST\<close> with the announced table (up to the cut of C33), and the bytes behind it are left alone; nothing is sent to
  the excluded connection and to connections no peer has registered over.
\<close>

theorem announcement_reaches_peers:
  assumes "pt_inv (tr_pt tr)" and "L \<noteq> []" and "table_sendable (tft_of L)" and "length L \<le> 240"
    and "\<not> has_mark (ttop_bytes (table_packet TRACKER_BROADCAST (tft_of L)))"
    and "distinct (map pe_conn (pt_peers (tr_pt tr)))" and "\<forall>pe \<in> set (pt_peers (tr_pt tr)). send_replies (tr_socks tr (pe_conn pe)) = []"
  shows "\<exists>S. broadcast_update (tft_of L) c tr = Inr (tr\<lparr>tr_socks := S\<rparr>) \<and>
     (\<forall>d. d = c \<or> d \<notin> pe_conn ` set (pt_peers (tr_pt tr)) \<longrightarrow> S d = tr_socks tr d) \<and>
     (\<forall>pe \<in> set (pt_peers (tr_pt tr)). pe_conn pe \<noteq> c \<longrightarrow>
       (\<exists>w ret pkt'. wire_out (S (pe_conn pe)) = wire_out (tr_socks tr (pe_conn pe)) @ w \<and>
          recv_ttop_packet (w @ rest) pkt = Inr (ret, pkt', rest) \<and> ret > 0 \<and>
          th_type (ttop_hdr pkt') = TRACKER_BROADCAST \<and>
          table_of_bytes (field 0 (unat (th_data_len (ttop_hdr pkt'))) (ttop_data pkt')) = cut_last (tft_of L)))"
proof -
  let ?ps = "pt_peers (tr_pt tr)" and ?S = "tr_socks tr"
  have "announce L c ?ps ?S d = (if d \<noteq> c \<and> d \<in> pe_conn ` set ?ps
      then snd (send_ttop_packet (table_packet TRACKER_BROADCAST (tft_of L)) (?S d)) else ?S d)" for d
    using assms(2) by (simp add: announce_def send_peers_at [OF assms(6)])
  then show ?thesis
    using send_table_received [OF assms(3) _ _ assms(5), of _ rest pkt] assms(4,7) broadcast_announce [OF assms(1), of L c]
    by (intro exI [of _ "announce L c ?ps ?S"]) auto
qed

theorem announcement_reaches_peers_witness:
  "\<exists>S w ret pkt'. broadcast_update wire_example 4 (tr_example\<lparr>tr_pt := two_peers\<rparr>) = Inr (tr_example\<lparr>tr_pt := two_peers, tr_socks := S\<rparr>) \<and>
     wire_out (S 4) = [] \<and> wire_out (S 5) = w \<and>
     recv_ttop_packet (w @ []) (ttop_of_bytes []) = Inr (ret, pkt', []) \<and>
     th_type (ttop_hdr pkt') = TRACKER_BROADCAST \<and>
     table_of_bytes (field 0 (unat (th_data_len (ttop_hdr pkt'))) (ttop_data pkt')) = cut_last wire_example"
proof -
  let ?tr = "tr_example\<lparr>tr_pt := two_peers\<rparr>"
  have ex: "tft_of (tft_entries wire_example) = wire_example" by (simp add: tft_of_def wire_example_def)
  have len: "trans_table_len wire_example = 276" by (simp add: trans_table_len_def wire_example_def)
  have "c_bang \<notin> set (ttop_bytes (table_packet TRACKER_BROADCAST wire_example))"
    using wire_example_no_bang set_field [of 0 276 "table_bytes wire_example"] put_le_examples
    by (auto simp: table_packet_def len Let_def ttop_bytes_def ttop_hdr_bytes_def TRACKER_BROADCAST_def)
  note mark = no_bang_no_mark [OF this]
  have socks: "tr_socks tr_example d = \<lparr>wire_out = [], send_replies = []\<rparr>" for d
    by (simp add: tr_example_def tracker_start_def)
  show ?thesis
    using announcement_reaches_peers [of ?tr "tft_entries wire_example" 4 "[]" "ttop_of_bytes []"]
      two_peers_inv mark wire_example_sendable wire_example_n socks by (force simp: ex)
qed

text \<open>The task without an interruption, as one operation of the peer table.\<close>

lemma life_task_modify:
  "peer_life_update_task i tr =
     ebind (peer_modify (\<lambda>pe. pe\<lparr>pe_timestamp := pe_timestamp pe + word_of_int (ci_interval (tr_ctr tr))\<rparr>) i (tr_pt tr))
       (\<lambda>(_, pt). Inr (-1, tr\<lparr>tr_pt := pt\<rparr>))"
  by (auto simp: peer_life_update_task_def peer_modify_def life_touch_def ebind_def split: sum.split)

lemma find_map_first:
  "(\<And>x. Q x \<Longrightarrow> Q (f x)) \<Longrightarrow> find Q (map_first Q f xs) = map_option f (find Q xs)"
  by (induction xs) auto

lemma life_step:
  assumes "tr_inv N P tr" and "find (has_ip i) (pt_peers (tr_pt tr)) = Some pe"
  shows "\<exists>tr'. run_task now (T_Life i) tr = Inr tr' \<and> tr_inv N P tr' \<and> tr_ctr tr' = tr_ctr tr \<and>
     tr_cancelled tr' = tr_cancelled tr \<and>
     find (has_ip i) (pt_peers (tr_pt tr')) =
       Some (pe\<lparr>pe_timestamp := pe_timestamp pe + word_of_int (ci_interval (tr_ctr tr))\<rparr>)"
proof -
  let ?f = "\<lambda>pe. pe\<lparr>pe_timestamp := pe_timestamp pe + word_of_int (ci_interval (tr_ctr tr))\<rparr>"
  have "pt_inv (tr_pt tr)" using assms(1) by (simp add: tr_inv_def)
  from peer_modify_spec [OF this, of ?f i] obtain q pt where
    "peer_modify ?f i (tr_pt tr) = Inr (q, pt)" "pt_inv pt" "pt_peers pt = map_first (has_ip i) ?f (pt_peers (tr_pt tr))"
    by blast
  moreover have "find (has_ip i) (map_first (has_ip i) ?f (pt_peers (tr_pt tr))) = Some (?f pe)"
    using assms(2) by (subst find_map_first) (simp_all add: has_ip_def)
  ultimately show ?thesis using assms(1) by (auto simp: life_task_modify tr_inv_def)
qed

lemma life_steps:
  assumes "tr_inv N P tr" and "find (has_ip i) (pt_peers (tr_pt tr)) = Some pe"
  shows "\<exists>tr' pe'. efold (run_task now) (replicate n (T_Life i)) tr = Inr tr' \<and> tr_inv N P tr' \<and>
     tr_cancelled tr' = tr_cancelled tr \<and> find (has_ip i) (pt_peers (tr_pt tr')) = Some pe' \<and>
     pe_timestamp pe' = pe_timestamp pe + of_nat n * word_of_int (ci_interval (tr_ctr tr))"
  using assms
proof (induction n arbitrary: tr pe)
  case 0
  then show ?case by simp
next
  case (Suc n)
  from life_step [OF Suc.prems] obtain tr1 where
    tr1: "run_task now (T_Life i) tr = Inr tr1" "tr_inv N P tr1" "tr_ctr tr1 = tr_ctr tr"
      "tr_cancelled tr1 = tr_cancelled tr"
      "find (has_ip i) (pt_peers (tr_pt tr1)) =
         Some (pe\<lparr>pe_timestamp := pe_timestamp pe + word_of_int (ci_interval (tr_ctr tr))\<rparr>)" by blast
  from Suc.IH [OF tr1(2,5)] tr1 show ?case by (auto simp: algebra_simps simp del: run_task.simps)
qed

lemma check_alive_spec:
  assumes "tr_inv N P tr" and "find (has_ip (w_ip w)) (pt_peers (tr_pt tr)) = Some pe"
  shows "peer_check_alive_task w tr =
     (if pe_timestamp pe = w_last w then Inr (None, tr\<lparr>tr_cancelled := w_tid w # tr_cancelled tr\<rparr>)
      else Inr (Some (w\<lparr>w_last := pe_timestamp pe\<rparr>), tr))"
proof -
  have pt: "pt_inv (tr_pt tr)" using assms(1) by (simp add: tr_inv_def)
  from assms(2) obtain p where p: "find (\<lambda>p. has_ip (w_ip w) (peer_at (tr_pt tr) p)) (peer_head (tr_pt tr)) = Some p"
    "peer_at (tr_pt tr) p = pe" by (auto simp: pt_peers_def find_map)
  then have "p \<in> set (peer_head (tr_pt tr))" using find_Some_split [OF p(1)] by auto
  then show ?thesis using pt_inv_get [OF pt, of p] pt_inv_not_null [OF pt, of p] p
    by (auto simp: peer_check_alive_task_def check_entry_def cancel_receiver_def peer_table_find_spec [OF pt])
qed

lemma keep_alive_moves:
  assumes "0 < i" and "i < 2 ^ 31" and "0 < n" and "n < 2 ^ 33"
  shows "of_nat n * word_of_int i \<noteq> (0 :: u64)"
proof -
  have "int n * i < 2 ^ 33 * 2 ^ 31"
    by (rule mult_strict_mono) (use assms in auto)
  then have lt: "int n * i < 2 ^ 64" by simp
  have pos: "0 < int n * i" using assms by simp
  have "\<not> 2 ^ LENGTH(64) dvd int n * i" using zdvd_not_zless [OF pos] lt by simp
  then have "(word_of_int (int n * i) :: u64) \<noteq> 0" by (simp only: word_of_int_eq_0_iff) simp
  then show ?thesis by simp
qed

text \<open>
  C20. The watchdog. Take a watcher that has just seen the time stamp of its peer. After \<open>n\<close>
  keep-alive messages of that peer its next round (the tasks of the messages and the round without an event between their look-up and their use) cancels the receiver and ends if and only if the
  stamp is the same as before, that is if \<open>n\<close> times the interval is zero in 64 bits: for a
  positive interval of at most 2^31 and fewer than 2^33 messages exactly when no message came.
\<close>

theorem watcher_cancels_silent_peer:
  assumes "tr_inv N P tr" and "find (has_ip (w_ip w)) (pt_peers (tr_pt tr)) = Some pe" and "w_last w = pe_timestamp pe"
    and "0 < ci_interval (tr_ctr tr)" and "ci_interval (tr_ctr tr) < 2 ^ 31" and "n < 2 ^ 33"
  shows "\<exists>tr' w' tr''. efold (run_task now) (replicate n (T_Life (w_ip w))) tr = Inr tr' \<and>
     peer_check_alive_task w tr' = Inr (w', tr'') \<and>
     (if n = 0 then w' = None \<and> w_tid w \<in> set (tr_cancelled tr'')
      else w' \<noteq> None \<and> tr_cancelled tr'' = tr_cancelled tr)"
proof -
  let ?d = "of_nat n * word_of_int (ci_interval (tr_ctr tr)) :: u64"
  from life_steps [OF assms(1,2), of now n] obtain tr' pe' where
    run: "efold (run_task now) (replicate n (T_Life (w_ip w))) tr = Inr tr'" "tr_inv N P tr'"
      "tr_cancelled tr' = tr_cancelled tr" "find (has_ip (w_ip w)) (pt_peers (tr_pt tr')) = Some pe'"
      "pe_timestamp pe' = pe_timestamp pe + ?d" by blast
  have "?d = 0 \<longleftrightarrow> n = 0" using keep_alive_moves [OF assms(4,5) _ assms(6)] by (cases "n = 0") auto
  then have "pe_timestamp pe' = w_last w \<longleftrightarrow> n = 0" using assms(3) run(5) by simp
  then show ?thesis using check_alive_spec [OF run(2,4)] run(1,3) by auto
qed

theorem watcher_cancels_silent_peer_witness:
  "\<exists>tr w tr' w' tr''. efold (run_task 0) (replicate 3 (T_Life (w_ip w))) tr = Inr tr' \<and>
     peer_check_alive_task w tr' = Inr (w', tr'') \<and> w' \<noteq> None"
proof -
  let ?pe = "\<lparr>pe_conn = 4, pe_timestamp = 9, pe_peerid = \<lparr>pid_ip = 1, pid_port = 4192\<rparr>, pe_tid = 1\<rparr>"
  let ?w = "\<lparr>w_ip = 1, w_last = 9, w_tid = 1, w_pe = None\<rparr>"
  from ptb.run_refines [OF pt_start_rep, of "[PT_Add 9 4 \<lparr>pid_ip = 1, pid_port = 4192\<rparr> 1]"]
  obtain pt where pt: "pt_inv pt" "pt_peers pt = [?pe]" by (auto simp: pt_rep_def)
  let ?tr = "tr_example\<lparr>tr_pt := pt\<rparr>"
  have inv: "tr_inv {''1/a''} {1} ?tr" using tr_example_inv pt(1) by (simp add: tr_inv_def)
  have found: "find (has_ip (w_ip ?w)) (pt_peers (tr_pt ?tr)) = Some ?pe" by (simp add: pt(2) has_ip_def)
  have ctr: "ci_interval (tr_ctr ?tr) = 10" by (simp add: tr_example_def tracker_start_def)
  from watcher_cancels_silent_peer [OF inv found, of 3 0] ctr show ?thesis by fastforce
qed

end
