(* ===== verification/MonitorEvents.thy ===== *)
theory MonitorEvents
  imports MonitorProps TrackerProps
begin

text \<open>
  What becomes of a batch of \<open>inotify\<close> events: the changes of the local file table and the report that
  goes to the tracker.
\<close>

section \<open>The entry of an event\<close>

definition event_entry :: "u32 \<Rightarrow> (string \<Rightarrow> u64 option) \<Rightarrow> inotify_event \<Rightarrow> string \<Rightarrow> string \<Rightarrow> trans_file_entry" where
  "event_entry my_ip st ev l s =
     (let (op_type, self, ret) = classify ev
      in te_zero\<lparr>te_name := l, te_op_type := op_type,
           te_file_type := if self \<or> has_flag ev IN_ISDIR then DIRECTORY else REGULAR,
           te_timestamp := if op_type = FILE_DELETE then 0 else the (st s),
           te_owner_n := 1, te_owners := me my_ip # replicate 15 pid_zero\<rparr>)"

text \<open>The target an event belongs to, with the names of the file.\<close>

definition event_file :: "monitor_table \<Rightarrow> inotify_event \<Rightarrow> (ptr \<times> monitor_target \<times> string \<times> string) option" where
  "event_file mt ev =
     (case slot_get mt (ev_wd ev) of
        Inl _ \<Rightarrow> None
      | Inr p \<Rightarrow> if p = NULL then None
                 else (case cells (mt_heap mt) p of
                         None \<Rightarrow> None
                       | Some t \<Rightarrow> (case event_names ev t of Inl _ \<Rightarrow> None | Inr (l, s) \<Rightarrow> Some (p, t, l, s))))"

definition event_report :: "u32 \<Rightarrow> (string \<Rightarrow> u64 option) \<Rightarrow> monitor_table \<Rightarrow> inotify_event \<Rightarrow> trans_file_entry list" where
  "event_report my_ip st mt ev = (case event_file mt ev of None \<Rightarrow> [] | Some (p, t, l, s) \<Rightarrow> [event_entry my_ip st ev l s])"

definition event_table :: "kernel \<Rightarrow> inotify_event \<Rightarrow> monitor_table \<Rightarrow> monitor_table" where
  "event_table K ev mt =
     (case event_file mt ev of
        None \<Rightarrow> mt
      | Some (p, t, l, s) \<Rightarrow>
          if fst (snd (classify ev)) then drop_target p t mt
          else if fst (classify ev) = FILE_ADD \<and> has_flag ev IN_ISDIR
          then (case watch_target_add K s l mt of Inl _ \<Rightarrow> mt | Inr (_, mt') \<Rightarrow> mt')
          else mt)"

text \<open>An event that has no target any more, or one that is of a known kind and about a file with names
  that fit, which is not the test file of an editor, and which \<open>stat\<close> finds unless it is gone.\<close>

definition event_clean :: "(string \<Rightarrow> u64 option) \<Rightarrow> monitor_table \<Rightarrow> inotify_event \<Rightarrow> bool" where
  "event_clean st mt ev \<longleftrightarrow> event_real ev \<and>
     (slot_get mt (ev_wd ev) = Inr NULL \<or>
      (case event_file mt ev of
         None \<Rightarrow> False
       | Some (p, t, l, s) \<Rightarrow> \<not> tricky_string s \<and> fst (classify ev) \<noteq> FILE_NONE \<and>
           (fst (classify ev) \<noteq> FILE_DELETE \<longrightarrow> st s \<noteq> None)))"

fun batch_report :: "u32 \<Rightarrow> kernel \<Rightarrow> (string \<Rightarrow> u64 option) \<Rightarrow> inotify_event list \<Rightarrow> monitor_table \<Rightarrow> trans_file_entry list" where
  "batch_report my_ip K st [] mt = []"
| "batch_report my_ip K st (ev # evs) mt = event_report my_ip st mt ev @ batch_report my_ip K st evs (event_table K ev mt)"

fun batch_clean :: "kernel \<Rightarrow> (string \<Rightarrow> u64 option) \<Rightarrow> inotify_event list \<Rightarrow> monitor_table \<Rightarrow> bool" where
  "batch_clean K st [] mt \<longleftrightarrow> True"
| "batch_clean K st (ev # evs) mt \<longleftrightarrow> event_clean st mt ev \<and> batch_clean K st evs (event_table K ev mt)"

text \<open>What a reported entry does to the map of files of the reporting peer.\<close>

definition local_map :: "trans_file_entry \<Rightarrow> file_map \<Rightarrow> file_map" where
  "local_map te M =
     (if te_op_type te = FILE_ADD then map_exec (FT_Add te) M
      else if te_op_type te = FILE_MODIFY then map_exec (FT_Update te) M
      else if te_op_type te = FILE_DELETE then map_exec (FT_Delete te) M else M)"

section \<open>One event\<close>

lemma apply_op_rep:
  assumes "ft_rep ft M" and "te_ok te"
  shows "\<exists>ft'. apply_op te ft = Inr ft' \<and> ft_rep ft' (local_map te M)"
proof -
  from assms(1) have inv: "ft_inv ft" "ft_callocs ft = []" "ft_map ft = M" by (simp_all add: ft_rep_def)
  consider "te_op_type te = FILE_ADD" | "te_op_type te = FILE_MODIFY" | "te_op_type te = FILE_DELETE"
    | "te_op_type te \<notin> {FILE_ADD, FILE_MODIFY, FILE_DELETE}" by blast
  then show ?thesis
  proof cases
    case 1
    with fmp.exec_step [OF assms(1), of "FT_Add te"] assms(2) show ?thesis by (simp add: apply_op_def local_map_def)
  next
    case 2
    with fmp.exec_step [OF assms(1), of "FT_Update te"] assms(2) show ?thesis
      by (simp add: apply_op_def local_map_def op_type_defs)
  next
    case 3
    with fmp.exec_step [OF assms(1), of "FT_Delete te"] show ?thesis by (simp add: apply_op_def local_map_def op_type_defs)
  next
    case 4
    with assms(1) show ?thesis by (simp add: apply_op_def local_map_def)
  qed
qed

lemma event_file_Some:
  assumes "mt_inv mt" and "event_file mt ev = Some (p, t, l, s)"
  shows "slot_get mt (ev_wd ev) = Inr p" "p \<noteq> NULL" "target_at mt p t" "event_names ev t = Inr (l, s)"
    "length l < MAX_NAME_LEN" "length s < MAX_NAME_LEN"
proof -
  from assms(2) show p: "slot_get mt (ev_wd ev) = Inr p" "p \<noteq> NULL" "event_names ev t = Inr (l, s)"
    by (auto simp: event_file_def split: sum.splits if_splits option.splits)
  from assms(2) have "cells (mt_heap mt) p = Some t"
    by (auto simp: event_file_def split: sum.splits if_splits option.splits)
  with hget_target [OF assms(1), of p t] show "target_at mt p t" by simp
  from p(3) show "length l < MAX_NAME_LEN" "length s < MAX_NAME_LEN"
    by (auto simp: event_names_def ebind_eq_Inr sprintf_path_def strcpy_name_def split: if_splits)
qed

lemma watch_target_add_Inr:
  assumes "kernel_fits K mt" and "mt_callocs mt = []" and "length s < MAX_NAME_LEN" "length l < MAX_NAME_LEN"
  shows "\<exists>p mt'. watch_target_add K s l mt = Inr (p, mt') \<and> mt_callocs mt' = []"
proof -
  have "K s < int WD_HASH_SIZE" using assms(1) by (simp add: kernel_fits_def)
  then have "K s < 0 \<or> \<not> WD_HASH_SIZE \<le> nat (K s)" by linarith
  with assms(2-4) show ?thesis by (auto simp: watch_target_add_eq watched_def add_target_def)
qed

lemma event_entry_ok:
  assumes "length l < MAX_NAME_LEN"
  shows "te_ok (event_entry my_ip st ev l s)" and "te_owner_list (event_entry my_ip st ev l s) = [me my_ip]"
  using assms by (auto simp: event_entry_def te_ok_def te_owner_list_def MAX_PEER_ENTRIES_def split: prod.split)

lemma handle_event_clean:
  assumes ok: "mt_ok R mt" and fits: "kernel_fits K mt" and al: "mt_callocs mt = []" and rep: "ft_rep ft M"
    and fl: "event_file mt ev = Some (p, t, l, s)" and clean: "event_clean st mt ev"
  shows "\<exists>ft'. handle_event my_ip K st ev (te_zero\<lparr>te_name := l\<rparr>) s (mt, ft) =
       Inr (0, event_entry my_ip st ev l s, event_table K ev mt, ft') \<and>
     ft_rep ft' (local_map (event_entry my_ip st ev l s) M) \<and> mt_callocs (event_table K ev mt) = []"
proof -
  have inv: "mt_inv mt" using ok by (simp add: mt_ok_def)
  note f = event_file_Some [OF inv fl]
  obtain op self ret where c: "classify ev = (op, self, ret)" by (cases "classify ev")
  from clean fl f(1,2) c have cl: "\<not> tricky_string s" "op \<noteq> FILE_NONE" "op \<noteq> FILE_DELETE \<longrightarrow> st s \<noteq> None"
    by (auto simp: event_clean_def)
  have ret: "ret = 0" using c cl(2) by (auto simp: classify_def split: if_splits)
  have self: "self \<Longrightarrow> op = FILE_DELETE" using classify_self [of ev] c by simp
  let ?te = "event_entry my_ip st ev l s"
  let ?dir = "if self \<or> has_flag ev IN_ISDIR then DIRECTORY else REGULAR"
  let ?te1 = "te_zero\<lparr>te_name := l, te_op_type := op, te_file_type := ?dir\<rparr>"
  let ?te2 = "if op \<noteq> FILE_DELETE then ?te1\<lparr>te_timestamp := the (st s)\<rparr> else ?te1"
  have stamp: "(if op \<noteq> FILE_DELETE \<and> op \<noteq> FILE_NONE then get_trans_timestamp (st s) ?te1 else (ret, ?te1)) = (0, ?te2)"
    using cl(2,3) ret by (auto simp: get_trans_timestamp_def)
  have me: "append_me my_ip ?te2 = Inr ?te"
    by (auto simp: append_me_def event_entry_def c te_zero_def MAX_PEER_ENTRIES_def numeral_eq_Suc)
  from apply_op_rep [OF rep event_entry_ok(1) [OF f(5)]] obtain ft' where
    ft': "apply_op ?te ft = Inr ft'" "ft_rep ft' (local_map ?te M)" by blast
  obtain mt1 where mt1: "(if self then unwatch_and_free_target p mt else Inr mt) = Inr mt1"
    "(if op = FILE_ADD \<and> ?dir = DIRECTORY then ebind (watch_target_add K s l mt1) (\<lambda>(_, mt). Inr mt) else Inr mt1) = Inr (event_table K ev mt)"
    "mt_callocs (event_table K ev mt) = []"
  proof (cases self)
    case True
    with that [of "drop_target p t mt"] unwatch_eq [OF inv f(3)] self al show ?thesis
      by (simp add: event_table_def fl c drop_target_def op_type_defs)
  next
    case False
    show ?thesis
    proof (cases "op = FILE_ADD \<and> has_flag ev IN_ISDIR")
      case True
      from watch_target_add_Inr [OF fits al f(6,5)] obtain q m where "watch_target_add K s l mt = Inr (q, m)" "mt_callocs m = []" by blast
      with True False that [of mt] show ?thesis by (simp add: event_table_def fl c)
    next
      case no: False
      have "event_table K ev mt = mt" using False no by (auto simp: event_table_def fl c)
      moreover have "\<not> (op = FILE_ADD \<and> ?dir = DIRECTORY)" using False no by (auto simp: DIRECTORY_def REGULAR_def)
      ultimately show ?thesis using False al by (intro that [of mt]) auto
    qed
  qed
  have ft1: "te_file_type ?te1 = ?dir" "te_name ?te1 = l" by simp_all
  have "handle_event my_ip K st ev (te_zero\<lparr>te_name := l\<rparr>) s (mt, ft) = Inr (0, ?te, event_table K ev mt, ft')"
    by (simp only: handle_event_def prod.case c Let_def cl(1) if_False f(1) ebind_simps ft1 mt1(1,2) stamp me ft'(1))
  with ft'(2) mt1(3) show ?thesis by blast
qed

lemma event_table_ok:
  assumes ok: "mt_ok R mt" and fits: "kernel_fits K mt" and real: "event_real ev"
  shows "mt_ok R (event_table K ev mt) \<and> kernel_fits K (event_table K ev mt)"
proof (cases "event_file mt ev")
  case None
  with ok fits show ?thesis by (simp add: event_table_def)
next
  case (Some x)
  obtain p t l s where x: "x = (p, t, l, s)" by (cases x)
  have inv: "mt_inv mt" using ok by (simp add: mt_ok_def)
  note f = event_file_Some [OF inv Some [unfolded x]]
  show ?thesis
  proof (cases "\<not> fst (snd (classify ev)) \<and> fst (classify ev) = FILE_ADD \<and> has_flag ev IN_ISDIR")
    case True
    then have "ev_len ev \<noteq> 0" using classify_cases [of ev] real by (auto simp: event_real_def)
    with f(4) have "l = t_logic_name t @ slash # ev_name ev" "s = t_sys_name t @ slash # ev_name ev"
      by (auto simp: event_names_def ebind_eq_Inr sprintf_path_def strcpy_name_def split: if_splits)
    moreover have "sys_of R (t_logic_name t) = Some (t_sys_name t)" using ok f(3) by (auto simp: mt_ok_def mt_names_def)
    ultimately have "sys_of R l = Some s" by (simp add: sys_of_append)
    with watch_target_add_ok [OF ok fits this] True ok fits show ?thesis
      by (auto simp: event_table_def Some x split: sum.split)
  next
    case False
    with drop_target_ok [OF ok f(3)] ok fits show ?thesis by (auto simp: event_table_def Some x)
  qed
qed

lemma monitor_round_clean:
  assumes ok: "mt_ok R mt" and fits: "kernel_fits K mt" and al: "mt_callocs mt = []" and rep: "ft_rep ft M"
    and clean: "event_clean st mt ev" and len: "length L < MAX_FILE_ENTRIES"
  shows "\<exists>ft'. monitor_round my_ip K st ev (tft_of L, mt, ft) =
       Inr (tft_of (L @ event_report my_ip st mt ev), event_table K ev mt, ft') \<and>
     ft_rep ft' (fold local_map (event_report my_ip st mt ev) M) \<and> mt_callocs (event_table K ev mt) = []"
proof -
  have inv: "mt_inv mt" using ok by (simp add: mt_ok_def)
  have lim: "tft_n (tft_of L) < int MAX_FILE_ENTRIES" using len by simp
  show ?thesis
  proof (cases "event_file mt ev")
    case None
    with clean have p: "slot_get mt (ev_wd ev) = Inr NULL" by (simp add: event_clean_def)
    with None rep al lim show ?thesis
      by (simp add: monitor_round_def monitor_event_def event_report_def event_table_def)
  next
    case (Some x)
    obtain p t l s where x: "x = (p, t, l, s)" by (cases x)
    note f = event_file_Some [OF inv Some [unfolded x]]
    from handle_event_clean [OF ok fits al rep Some [unfolded x] clean] obtain ft' where
      h: "handle_event my_ip K st ev (te_zero\<lparr>te_name := l\<rparr>) s (mt, ft) =
         Inr (0, event_entry my_ip st ev l s, event_table K ev mt, ft')"
        "ft_rep ft' (local_map (event_entry my_ip st ev l s) M)" "mt_callocs (event_table K ev mt) = []" by blast
    have get: "tft_get (tft_of L) (length L) = Inr te_zero" using len by (simp add: tft_get_def nth_default_def)
    have set: "tft_set (length L) te (tft_of L) = Inr ((tft_of L)\<lparr>tft_entries := L @ [te]\<rparr>)" for te
      using tft_set_append [of "tft_of L" te] len by simp
    have cell: "cells (mt_heap mt) p = Some t" using f(3) by (simp add: target_at_def)
    have app: "(tft_of L)\<lparr>tft_entries := L @ [te], tft_n := int (length L) + 1\<rparr> = tft_of (L @ [te])" for te
      by (simp add: tft_of_def)
    have "monitor_round my_ip K st ev (tft_of L, mt, ft) =
        Inr (tft_of (L @ [event_entry my_ip st ev l s]), event_table K ev mt, ft')"
      using lim f(1,2,4) h(1) get cell by (simp add: monitor_round_def monitor_event_def set app)
    with h(2,3) show ?thesis by (simp add: event_report_def Some x)
  qed
qed

lemma event_report_length: "length (event_report my_ip st mt ev) \<le> 1"
  by (auto simp: event_report_def split: option.split)

lemma event_report_ok:
  assumes "mt_inv mt" and "te \<in> set (event_report my_ip st mt ev)"
  shows "te_ok te" and "te_owner_list te = [me my_ip]"
proof -
  from assms(2) obtain p t l s where "event_file mt ev = Some (p, t, l, s)" "te = event_entry my_ip st ev l s"
    by (cases "event_file mt ev") (auto simp: event_report_def)
  with event_entry_ok [OF event_file_Some(5) [OF assms(1)]] show "te_ok te" "te_owner_list te = [me my_ip]" by simp_all
qed

lemma monitor_rounds_clean:
  assumes "mt_ok R mt" and "kernel_fits K mt" and "mt_callocs mt = []" and "ft_rep ft M"
    and "batch_clean K st evs mt" and "length L + length evs \<le> MAX_FILE_ENTRIES"
  shows "\<exists>mt' ft'. efold (monitor_round my_ip K st) evs (tft_of L, mt, ft) =
       Inr (tft_of (L @ batch_report my_ip K st evs mt), mt', ft') \<and> mt_ok R mt' \<and>
     ft_rep ft' (fold local_map (batch_report my_ip K st evs mt) M) \<and>
     (\<forall>te \<in> set (batch_report my_ip K st evs mt). te_ok te \<and> te_owner_list te = [me my_ip]) \<and>
     length (batch_report my_ip K st evs mt) \<le> length evs"
  using assms
proof (induction evs arbitrary: L mt ft M)
  case Nil
  then show ?case by simp
next
  case (Cons ev evs)
  let ?L = "event_report my_ip st mt ev" and ?mt = "event_table K ev mt"
  have clean: "event_clean st mt ev" "batch_clean K st evs ?mt" using Cons.prems(5) by simp_all
  have len: "length L < MAX_FILE_ENTRIES" "length (L @ ?L) + length evs \<le> MAX_FILE_ENTRIES"
    using Cons.prems(6) event_report_length [of my_ip st mt ev] by simp_all
  from monitor_round_clean [OF Cons.prems(1-4) clean(1) len(1)] obtain ft1 where
    r: "monitor_round my_ip K st ev (tft_of L, mt, ft) = Inr (tft_of (L @ ?L), ?mt, ft1)"
      "ft_rep ft1 (fold local_map ?L M)" "mt_callocs ?mt = []" by blast
  have real: "event_real ev" using clean(1) by (simp add: event_clean_def)
  have ok: "mt_ok R ?mt" "kernel_fits K ?mt" using event_table_ok [OF Cons.prems(1,2) real] by simp_all
  have inv: "mt_inv mt" using Cons.prems(1) by (simp add: mt_ok_def)
  from Cons.IH [OF ok r(3,2) clean(2) len(2)] r(1) event_report_ok [OF inv] event_report_length [of my_ip st mt ev]
  show ?case by auto
qed

section \<open>A batch\<close>

lemma tft_of_len:
  assumes "length L \<le> MAX_FILE_ENTRIES"
  shows "sint (ucast (trans_table_len (tft_of L)) :: u32) = int (4 + 272 * length L)"
proof -
  let ?t = "tft_of (replicate (length L) te_zero)"
  have "table_sendable ?t"
    using assms by (simp add: table_sendable_def te_sendable_def te_zero_def MAX_NAME_LEN_def)
  from table_len_int [OF this] show ?thesis by (simp add: trans_table_len_def)
qed

lemma fill_limit:
  assumes "length L \<le> MAX_FILE_ENTRIES"
  shows "(\<exists>pkt. ptot_packet_fill p bs (sint (ucast (trans_table_len (tft_of L)) :: u32)) = Inr pkt) \<longleftrightarrow> length L \<le> 240"
    and "length L > 240 \<Longrightarrow> ptot_packet_fill p bs (sint (ucast (trans_table_len (tft_of L)) :: u32)) = Inl Out_Of_Bounds"
  unfolding tft_of_len [OF assms] by (auto simp: ptot_packet_fill_def data_copy_def MAX_PKT_DATA_LEN_def)

lemma tft_zero_of: "tft_zero = tft_of []"
  by (simp add: tft_zero_def tft_of_def)

text \<open>
  C11. What a peer reports is what it has recorded. For a batch of events whose files can be found, the
  monitor changes the local file table by exactly the entries it sends to the tracker in the end, one
  for every event whose directory is still watched, each with this peer as its only owner; the table of
  watched directories stays in order. A batch of more than 240 such events is written past the packet.
\<close>

theorem batch_reported_as_applied:
  assumes "mt_ok R mt" and "kernel_fits K mt" and "mt_callocs mt = []" and "ft_rep ft M"
    and "batch_clean K st evs mt" and "length evs \<le> MAX_FILE_ENTRIES"
  shows "let L = batch_report my_ip K st evs mt in
     (\<forall>te \<in> set L. te_ok te \<and> te_owner_list te = [me my_ip]) \<and>
     (if length L \<le> 240
      then \<exists>pkt mt' ft'. ptot_packet_fill (ptot_packet_init my_ip PEER_FILE_UPDATE) (table_bytes (tft_of L))
             (sint (ucast (trans_table_len (tft_of L)) :: u32)) = Inr pkt \<and>
           monitor_batch my_ip K st evs (mt, ft, s) = Inr (mt', ft', snd (send_ptot_packet pkt s)) \<and>
           mt_ok R mt' \<and> ft_rep ft' (fold local_map L M)
      else monitor_batch my_ip K st evs (mt, ft, s) = Inl Out_Of_Bounds)"
proof -
  let ?L = "batch_report my_ip K st evs mt"
  from monitor_rounds_clean [OF assms(1-5), of "[]" my_ip] assms(6) obtain mt' ft' where
    r: "efold (monitor_round my_ip K st) evs (tft_zero, mt, ft) = Inr (tft_of ?L, mt', ft')" "mt_ok R mt'"
      "ft_rep ft' (fold local_map ?L M)" "\<forall>te \<in> set ?L. te_ok te \<and> te_owner_list te = [me my_ip]" "length ?L \<le> length evs"
    by (auto simp: tft_zero_of)
  have len: "length ?L \<le> MAX_FILE_ENTRIES" using r(5) assms(6) by simp
  note fill = fill_limit [OF len, of "ptot_packet_init my_ip PEER_FILE_UPDATE" "table_bytes (tft_of ?L)"]
  show ?thesis
  proof (cases "length ?L \<le> 240")
    case True
    with fill(1) obtain pkt where "ptot_packet_fill (ptot_packet_init my_ip PEER_FILE_UPDATE) (table_bytes (tft_of ?L))
        (sint (ucast (trans_table_len (tft_of ?L)) :: u32)) = Inr pkt" by blast
    with True r show ?thesis by (simp add: monitor_batch_def)
  next
    case False
    with fill(2) r show ?thesis by (simp add: monitor_batch_def)
  qed
qed

definition ev_example :: inotify_event where
  "ev_example = \<lparr>ev_wd = 5, ev_mask = IN_CREATE, ev_len = 16, ev_name = ''f''\<rparr>"

lemma ev_example_file: "event_file mt_example ev_example =
    Some (1, \<lparr>t_wd = 5, t_sys_name = ''/home'', t_logic_name = ''1''\<rparr>, ''1/f'', ''/home/f'')"
  by (simp add: event_file_def slot_get_def ev_example_def WD_HASH_SIZE_def mt_example_def add_target_def mt_start_def heap_empty_def
      event_names_def sprintf_path_def strcpy_name_def MAX_NAME_LEN_def slash_def)

lemma ev_example_class: "classify ev_example = (FILE_ADD, False, 0)" "\<not> has_flag ev_example IN_ISDIR"
  by (simp_all add: classify_def has_flag_def ev_example_def in_defs)

theorem batch_reported_as_applied_witness:
  "\<exists>mt' ft' s'. monitor_batch 9 K_example (\<lambda>_. Some 7) [ev_example] (mt_example, ft_start, \<lparr>wire_out = [], send_replies = []\<rparr>) =
     Inr (mt', ft', s') \<and> map_option fe_timestamp (ft_map ft' ''1/f'') = Some 7"
proof -
  have al: "mt_callocs mt_example = []" by (simp add: mt_example_def add_target_def)
  have clean: "batch_clean K_example (\<lambda>_. Some 7) [ev_example] mt_example"
    by (simp add: event_clean_def ev_example_file ev_example_class op_type_defs tricky_string_def rindex_def slash_def
        event_real_def) (simp add: ev_example_def)
  have L: "batch_report 9 K_example (\<lambda>_. Some 7) [ev_example] mt_example = [event_entry 9 (\<lambda>_. Some 7) ev_example ''1/f'' ''/home/f'']"
    by (simp add: event_report_def ev_example_file)
  from batch_reported_as_applied [OF mt_example_ok K_example_fits al ft_start_rep clean, of 9 "\<lparr>wire_out = [], send_replies = []\<rparr>"]
  obtain pkt mt' ft' where
    "monitor_batch 9 K_example (\<lambda>_. Some 7) [ev_example] (mt_example, ft_start, \<lparr>wire_out = [], send_replies = []\<rparr>) =
      Inr (mt', ft', snd (send_ptot_packet pkt \<lparr>wire_out = [], send_replies = []\<rparr>))"
    "ft_rep ft' (fold local_map [event_entry 9 (\<lambda>_. Some 7) ev_example ''1/f'' ''/home/f''] (\<lambda>_. None))"
    unfolding L Let_def by (auto simp: MAX_FILE_ENTRIES_def)
  then show ?thesis
    by (auto simp: ft_rep_def local_map_def event_entry_def ev_example_class add_spec_def entry_of_def op_type_defs)
qed

section \<open>Files that are gone before they are looked at\<close>

text \<open>The entry after \<open>k\<close> events for a file that \<open>stat\<close> did not find.\<close>

definition stale_entry :: "u32 \<Rightarrow> inotify_event \<Rightarrow> string \<Rightarrow> nat \<Rightarrow> trans_file_entry" where
  "stale_entry my_ip ev l k =
     (if k = 0 then te_zero
      else te_zero\<lparr>te_name := l, te_op_type := fst (classify ev), te_file_type := REGULAR, te_owner_n := of_nat k,
             te_owners := replicate k (me my_ip) @ replicate (MAX_PEER_ENTRIES - k) pid_zero\<rparr>)"

definition stale_table :: "u32 \<Rightarrow> inotify_event \<Rightarrow> string \<Rightarrow> nat \<Rightarrow> trans_file_table" where
  "stale_table my_ip ev l k = \<lparr>tft_n = 0, tft_entries = (if k = 0 then [] else [stale_entry my_ip ev l k])\<rparr>"

lemma stale_append:
  assumes "k < MAX_PEER_ENTRIES"
  shows "append_me my_ip ((stale_entry my_ip ev l k)\<lparr>te_name := l, te_op_type := fst (classify ev), te_file_type := REGULAR\<rparr>) =
     Inr (stale_entry my_ip ev l (Suc k))"
proof -
  have n: "unat (of_nat k :: u16) = k" using assms by (simp add: MAX_PEER_ENTRIES_def unat_of_nat take_bit_nat_eq_self)
  have "(replicate k (me my_ip) @ replicate (MAX_PEER_ENTRIES - k) pid_zero)[k := me my_ip] =
      replicate (Suc k) (me my_ip) @ replicate (MAX_PEER_ENTRIES - Suc k) pid_zero"
    using assms by (auto simp: list_update_append Suc_diff_Suc [symmetric] replicate_append_same)
  with assms n show ?thesis
    by (cases "k = 0") (auto simp: append_me_def stale_entry_def te_zero_def)
qed

lemma stale_full:
  "append_me my_ip ((stale_entry my_ip ev l MAX_PEER_ENTRIES)\<lparr>te_name := l, te_op_type := x, te_file_type := y\<rparr>) = Inl Out_Of_Bounds"
  by (simp add: append_me_def stale_entry_def MAX_PEER_ENTRIES_def)

lemma stale_ok: "length l < MAX_NAME_LEN \<Longrightarrow> k \<le> MAX_PEER_ENTRIES \<Longrightarrow> te_ok (stale_entry my_ip ev l k)"
  by (simp add: te_ok_def stale_entry_def te_zero_def MAX_PEER_ENTRIES_def MAX_NAME_LEN_def unat_of_nat take_bit_nat_eq_self)

lemma stale_event:
  assumes inv: "mt_inv mt" and fl: "event_file mt ev = Some (p, t, l, s)" and "\<not> tricky_string s"
    and op: "fst (classify ev) \<in> {FILE_ADD, FILE_MODIFY}" and nodir: "\<not> has_flag ev IN_ISDIR" and st: "st s = None"
  shows "monitor_round my_ip K st ev (stale_table my_ip ev l k, mt, ft) =
     ebind (append_me my_ip ((stale_entry my_ip ev l k)\<lparr>te_name := l, te_op_type := fst (classify ev), te_file_type := REGULAR\<rparr>)) (\<lambda>te.
     ebind (apply_op te ft) (\<lambda>ft. Inr (\<lparr>tft_n = 0, tft_entries = [te]\<rparr>, mt, ft)))"
proof -
  note f = event_file_Some [OF inv fl]
  obtain op self ret where c: "classify ev = (op, self, ret)" by (cases "classify ev")
  have ns: "\<not> self" using classify_self [of ev] op c by (auto simp: op_type_defs)
  have get: "tft_get (stale_table my_ip ev l k) 0 = Inr (stale_entry my_ip ev l k)"
    by (simp add: tft_get_def stale_table_def MAX_FILE_ENTRIES_def nth_default_def stale_entry_def)
  have set: "tft_set 0 te (stale_table my_ip ev l k) = Inr \<lparr>tft_n = 0, tft_entries = [te]\<rparr>" for te
    by (simp add: tft_set_def stale_table_def MAX_FILE_ENTRIES_def)
  have n: "tft_n (stale_table my_ip ev l k) = 0" by (simp add: stale_table_def)
  let ?te = "(stale_entry my_ip ev l k)\<lparr>te_name := l, te_op_type := op, te_file_type := REGULAR\<rparr>"
  have "handle_event my_ip K st ev ((stale_entry my_ip ev l k)\<lparr>te_name := l\<rparr>) s (mt, ft) =
      ebind (append_me my_ip ?te) (\<lambda>te. ebind (apply_op te ft) (\<lambda>ft. Inr (-1, te, mt, ft)))"
    using assms(3) f(1) c ns op nodir st
    by (auto simp: handle_event_def get_trans_timestamp_def op_type_defs REGULAR_def DIRECTORY_def)
  moreover have "cells (mt_heap mt) p = Some t" using f(3) by (simp add: target_at_def)
  ultimately show ?thesis
    using f(1,2,4) get set n c
    by (simp add: monitor_round_def monitor_event_def MAX_FILE_ENTRIES_def ebind_def split: sum.split)
qed

text \<open>
  C37. An entry that does not count is not cleared. When \<open>stat\<close> does not find the file of an event, the
  entry is counted back, but the owner stays in it: after \<open>k\<close> such events the next entry starts with
  this peer as its owner \<open>k\<close> times, nothing has been put into the report, and the seventeenth event of
  this kind in a batch writes past the array of owners.
\<close>

theorem failed_events_accumulate:
  assumes "mt_inv mt" and "event_file mt ev = Some (p, t, l, s)" and "\<not> tricky_string s"
    and "fst (classify ev) \<in> {FILE_ADD, FILE_MODIFY}" and "\<not> has_flag ev IN_ISDIR" and "st s = None" and "ft_rep ft M"
  shows "(k \<le> MAX_PEER_ENTRIES \<longrightarrow> (\<exists>ft'. efold (monitor_round my_ip K st) (replicate k ev) (tft_zero, mt, ft) =
       Inr (stale_table my_ip ev l k, mt, ft') \<and> ft_inv ft')) \<and>
     efold (monitor_round my_ip K st) (replicate 17 ev) (tft_zero, mt, ft) = Inl Out_Of_Bounds"
proof -
  note step = stale_event [where st = st, OF assms(1-6), of my_ip K]
  have upto: "\<exists>ft' M'. efold (monitor_round my_ip K st) (replicate k ev) (tft_zero, mt, ft) =
      Inr (stale_table my_ip ev l k, mt, ft') \<and> ft_rep ft' M'" if "k \<le> MAX_PEER_ENTRIES" for k
    using that
  proof (induction k)
    case 0
    with assms(7) show ?case by (auto simp: stale_table_def tft_zero_def)
  next
    case (Suc k)
    then obtain ft1 M1 where r: "efold (monitor_round my_ip K st) (replicate k ev) (tft_zero, mt, ft) =
        Inr (stale_table my_ip ev l k, mt, ft1)" "ft_rep ft1 M1" by auto
    have k: "k < MAX_PEER_ENTRIES" using Suc.prems by simp
    have "te_ok (stale_entry my_ip ev l (Suc k))"
      using event_file_Some(5) [OF assms(1,2)] Suc.prems by (rule stale_ok)
    from apply_op_rep [OF r(2) this] obtain ft2 where
      a: "apply_op (stale_entry my_ip ev l (Suc k)) ft1 = Inr ft2" "ft_rep ft2 (local_map (stale_entry my_ip ev l (Suc k)) M1)" by blast
    have "monitor_round my_ip K st ev (stale_table my_ip ev l k, mt, ft1) = Inr (stale_table my_ip ev l (Suc k), mt, ft2)"
      unfolding step stale_append [OF k] by (simp add: a(1)) (simp add: stale_table_def)
    with r(1) a(2) show ?case unfolding replicate_Suc replicate_append_same [symmetric] efold_append by auto
  qed
  from upto [of MAX_PEER_ENTRIES] obtain ft1 where
    "efold (monitor_round my_ip K st) (replicate MAX_PEER_ENTRIES ev) (tft_zero, mt, ft) =
      Inr (stale_table my_ip ev l MAX_PEER_ENTRIES, mt, ft1)" by auto
  moreover have "monitor_round my_ip K st ev (stale_table my_ip ev l MAX_PEER_ENTRIES, mt, ft1) = Inl Out_Of_Bounds" for ft1
    unfolding step stale_full by simp
  moreover have "replicate 17 ev = replicate MAX_PEER_ENTRIES ev @ [ev]"
    by (simp add: MAX_PEER_ENTRIES_def numeral_eq_Suc)
  ultimately have "efold (monitor_round my_ip K st) (replicate 17 ev) (tft_zero, mt, ft) = Inl Out_Of_Bounds"
    by (simp add: efold_append)
  with upto [of k] show ?thesis by (auto simp: ft_rep_def)
qed

theorem failed_events_accumulate_witness:
  "efold (monitor_round 9 K_example (\<lambda>_. None)) (replicate 17 ev_example) (tft_zero, mt_example, ft_start) = Inl Out_Of_Bounds"
proof -
  have inv: "mt_inv mt_example" using mt_example_ok by (simp add: mt_ok_def)
  have t: "\<not> tricky_string ''/home/f''" by (simp add: tricky_string_def rindex_def slash_def)
  from failed_events_accumulate [where st = "\<lambda>_. None", OF inv ev_example_file t _ ev_example_class(2) _ ft_start_rep] show ?thesis
    by (simp add: ev_example_class)
qed

end
