(* ===== verification/DownloadProps.thy ===== *)
theory DownloadProps
  imports Download
begin

text \<open>
  What a download guarantees: the pieces partition the file, no two threads ever work on the same
  piece, no access is out of bounds, and if every thread ends with success the file is the one the
  owners have. The value of \<open>do_download\<close> promises less than that.
\<close>

section \<open>Pieces\<close>

definition pieces :: "int \<Rightarrow> int \<Rightarrow> int" where
  "pieces pl len = (len + pl - 1) div pl"

lemma sdiv_nonneg: "0 \<le> a \<Longrightarrow> 0 < b \<Longrightarrow> a sdiv b = a div (b :: int)"
  by (simp add: signed_divide_int_def sgn_if)

lemma pieces_bounds:
  assumes "0 < pl" and "0 \<le> len"
  shows "0 \<le> pieces pl len" and "len \<le> pl * pieces pl len" and "pl * (pieces pl len - 1) < len \<or> len = 0"
proof -
  let ?k = "pieces pl len" and ?r = "(len + pl - 1) mod pl"
  have eq: "pl * ?k + ?r = len + pl - 1" by (simp add: pieces_def)
  have r: "0 \<le> ?r" "?r < pl" using assms(1) by simp_all
  show "0 \<le> ?k" using assms by (simp add: pieces_def pos_imp_zdiv_nonneg_iff)
  show "len \<le> pl * ?k" using eq r by linarith
  have "pl * (?k - 1) = len - 1 - ?r" using eq by (simp add: algebra_simps)
  then show "pl * (?k - 1) < len \<or> len = 0" using r by linarith
qed

lemma pieces_le: "0 < pl \<Longrightarrow> 0 \<le> len \<Longrightarrow> pieces pl len \<le> len + pl - 1"
  using zdiv_mono2 [of "len + pl - 1" 1 pl] by (simp add: pieces_def)

text \<open>The number of pieces is the quotient rounded up, as long as the sum is an \<open>int\<close>.\<close>

lemma file_pieces_of_nonneg:
  assumes "0 \<le> len" and "0 < pl"
  shows "file_pieces_of len pl = (if len + pl < 2 ^ 31 then Inr (pieces pl len) else Inl Signed_Overflow)"
  using assms pieces_bounds(1) [OF assms(2,1)] pieces_le [OF assms(2,1)]
  by (auto simp: file_pieces_of_def c_int_def sdiv_nonneg pieces_def)

text \<open>A piece lies within the file and is not longer than the buffer.\<close>

lemma req_len_bounds:
  assumes "0 < pl" and "0 \<le> ob_file_len obj" and "ob_file_pieces obj = pieces pl (ob_file_len obj)"
    and "0 \<le> i" and "i < ob_file_pieces obj"
  shows "0 < req_len pl obj i" and "req_len pl obj i \<le> pl" and "i * pl + req_len pl obj i \<le> ob_file_len obj"
proof -
  let ?k = "pieces pl (ob_file_len obj)"
  note b = pieces_bounds [OF assms(1,2)]
  have k: "1 \<le> ?k" using assms(3-5) by simp
  have len: "ob_file_len obj \<noteq> 0" using k assms(1) by (auto simp: pieces_def)
  have last: "pl * (?k - 1) < ob_file_len obj" "ob_file_len obj - pl * (?k - 1) \<le> pl"
    using b len by (auto simp: algebra_simps)
  have mono: "i * pl + pl \<le> pl * (?k - 1)" if "i \<noteq> ?k - 1"
  proof -
    have "(i + 1) * pl \<le> (?k - 1) * pl" using that assms(1,3,5) by (intro mult_right_mono) auto
    then show ?thesis by (simp add: algebra_simps)
  qed
  show "0 < req_len pl obj i" using last(1) assms(1,3) by (simp add: req_len_def)
  show "req_len pl obj i \<le> pl" using last(2) assms(3) by (simp add: req_len_def)
  show "i * pl + req_len pl obj i \<le> ob_file_len obj"
  proof (cases "i = ?k - 1")
    case True
    then have "i * pl = pl * (?k - 1)" by simp
    then show ?thesis using True assms(3) by (simp add: req_len_def)
  next
    case False
    then show ?thesis using mono last(1) assms(3) by (simp add: req_len_def)
  qed
qed

text \<open>Every position of the file lies in exactly the piece of its quotient.\<close>

lemma position_in_piece:
  assumes "0 < pl" and "0 \<le> j" and "j < ob_file_len obj" and "ob_file_pieces obj = pieces pl (ob_file_len obj)"
  shows "0 \<le> j div pl" and "j div pl < ob_file_pieces obj" and "j < (j div pl) * pl + req_len pl obj (j div pl)"
proof -
  let ?k = "pieces pl (ob_file_len obj)"
  have b: "ob_file_len obj \<le> pl * ?k" using pieces_bounds(2) assms by simp
  show "0 \<le> j div pl" using assms by (simp add: pos_imp_zdiv_nonneg_iff)
  have "j < ?k * pl" using assms(3) b by (simp add: mult.commute)
  have "j div pl < ?k"
  proof (rule ccontr)
    assume "\<not> j div pl < ?k"
    then have "?k * pl \<le> j div pl * pl" using assms(1) by simp
    then show False
      using \<open>j < ?k * pl\<close> div_mult_mod_eq [of j pl] pos_mod_sign [OF assms(1), of j] by linarith
  qed
  then show "j div pl < ob_file_pieces obj" using assms(4) by simp
  have "j < j div pl * pl + pl"
    using assms(1) by (metis add.commute add_strict_left_mono mod_mult_div_eq mult.commute pos_mod_bound)
  moreover have "j < (j div pl) * pl + (ob_file_len obj - pl * (?k - 1))" if "j div pl = ?k - 1"
    unfolding that using assms(3) by (simp add: mult.commute)
  ultimately show "j < (j div pl) * pl + req_len pl obj (j div pl)"
    using assms(4) by (simp add: req_len_def)
qed

section \<open>The piece table\<close>

lemma get_new_piece_from_spec:
  "i + k = length flags \<Longrightarrow> get_new_piece_from k i flags =
     Inr (case find (\<lambda>j. flags ! j = PIECE_AVAILABLE) [i..<length flags] of
            None \<Rightarrow> (-1, flags) | Some j \<Rightarrow> (int j, flags[j := PIECE_DOWNLOADNG]))"
proof (induction k arbitrary: i)
  case 0
  then show ?case by simp
next
  case (Suc k)
  then have "[i..<length flags] = i # [Suc i..<length flags]" by (simp add: upt_conv_Cons)
  with Suc show ?case by simp
qed

lemma find_upt_Some: "find Q [0..<n] = Some j \<Longrightarrow> j < n \<and> Q j"
  by (auto simp: find_Some_iff)

lemma find_upt_None: "find Q [0..<n] = None \<longleftrightarrow> (\<forall>j < n. \<not> Q j)"
  by (auto simp: find_None_iff)

section \<open>Reading and writing\<close>

definition stream :: "read_reply list \<Rightarrow> u8 list" where
  "stream rs = concat (map (\<lambda>r. case r of Read_Error \<Rightarrow> [] | Read_Bytes bs \<Rightarrow> bs) rs)"

lemma read_loop_prefix:
  "length buf \<le> len \<Longrightarrow> \<exists>n. read_loop k len buf rs = buf @ take n (stream rs) \<and>
     length (read_loop k len buf rs) \<le> len"
proof (induction k len buf rs rule: read_loop.induct)
  case (1 k len buf)
  then show ?case by (auto intro: exI [of _ 0])
next
  case (2 k len buf r rs)
  consider "length buf = len \<or> r = Read_Error" | bs where "length buf < len" "r = Read_Bytes bs"
    using 2(3) by (cases r; cases "length buf = len") auto
  then show ?case
  proof cases
    case 1
    with 2(3) show ?thesis by (auto intro: exI [of _ 0])
  next
    case (2 bs)
    let ?bs = "take (len - length buf) bs"
    note IH = "2.IH"
    show ?thesis
    proof (cases "?bs = []")
      case True
      with 2 have "bs = []" by auto
      with 2 IH(1) [OF 2(1,2) refl] show ?thesis
        by (cases "k = 0") (auto simp: stream_def intro: exI [of _ 0])
    next
      case False
      have "length (buf @ ?bs) \<le> len" using 2(1) by simp
      from IH(2) [OF 2(1,2) refl False this] obtain n where
        n: "read_loop k len (buf @ ?bs) rs = (buf @ ?bs) @ take n (stream rs)"
          "length (read_loop k len (buf @ ?bs) rs) \<le> len" by blast
      have eq: "read_loop k len buf (r # rs) = read_loop k len (buf @ ?bs) rs" using 2 False by (simp add: Let_def)
      show ?thesis
      proof (cases "length bs \<le> len - length buf")
        case True
        with n eq 2(2) show ?thesis by (intro exI [of _ "length bs + n"]) (auto simp: stream_def)
      next
        case False
        then have "length (take n (stream rs)) = 0" using n 2(1) by simp
        then have "take n (stream rs) = []" by (simp only: length_0_conv)
        with False n eq 2 show ?thesis by (intro exI [of _ "len - length buf"]) (auto simp: stream_def)
      qed
    qed
  qed
qed

lemma my_read_spec:
  "case my_read len rs of (n, buf) \<Rightarrow> n = int (length buf) \<and> length buf \<le> len \<and> buf = take (length buf) (stream rs)"
proof -
  obtain n where "read_loop 10 len [] rs = take n (stream rs)" "length (read_loop 10 len [] rs) \<le> len"
    using read_loop_prefix [of "[]" len 10 rs] by auto
  moreover have "take n (stream rs) = take (length (take n (stream rs))) (stream rs)" by (simp add: min_def)
  ultimately show ?thesis by (simp add: my_read_def Let_def)
qed

definition writes_all :: "write_reply list \<Rightarrow> bool" where
  "writes_all ws \<longleftrightarrow> list_all (\<lambda>w. case w of Write_Error \<Rightarrow> False | Wrote k \<Rightarrow> 0 < k) ws"

lemma write_loop_all: "writes_all ws \<Longrightarrow> n \<le> length data \<Longrightarrow> write_loop n data ws = length data"
  by (induction n data ws rule: write_loop.induct)
     (auto simp: writes_all_def Let_def split: write_reply.splits)

lemma my_write_all: "writes_all ws \<Longrightarrow> my_write data ws = length data"
  by (simp add: my_write_def write_loop_all)

lemma length_file_put: "data \<noteq> [] \<Longrightarrow> length (file_put off data f) = max (length f) (off + length data)"
  by (auto simp: file_put_def)

lemma nth_file_put:
  assumes "k < length (file_put off data f)"
  shows "file_put off data f ! k =
     (if off \<le> k \<and> k < off + length data then data ! (k - off) else if k < length f then f ! k else 0)"
proof (cases "data = []")
  case True
  with assms show ?thesis by (auto simp: file_put_def)
next
  case False
  let ?p = "take off (f @ replicate (off - length f) 0)"
  have p: "length ?p = off" by simp
  have "?p ! k = (if k < length f then f ! k else 0)" if "k < off"
    using that by (simp add: nth_append)
  then show ?thesis using assms False p
    by (auto simp: file_put_def nth_append max_def)
qed

section \<open>No two threads on a piece\<close>

definition dl_ok :: "int \<Rightarrow> dl_state \<Rightarrow> bool" where
  "dl_ok pl s \<longleftrightarrow>
     0 < pl \<and> 0 \<le> ob_file_len (ds_obj s) \<and> ob_file_pieces (ds_obj s) = pieces pl (ob_file_len (ds_obj s)) \<and>
     length (ob_piece_flags (ds_obj s)) = nat (ob_file_pieces (ds_obj s)) \<and>
     (\<forall>t i. dl_at t s = Some (DT_Piece i) \<longrightarrow>
        i < length (ob_piece_flags (ds_obj s)) \<and> ob_piece_flags (ds_obj s) ! i = PIECE_DOWNLOADNG) \<and>
     (\<forall>t u i. dl_at t s = Some (DT_Piece i) \<longrightarrow> dl_at u s = Some (DT_Piece i) \<longrightarrow> t = u) \<and>
     (\<forall>i < length (ob_piece_flags (ds_obj s)). ob_piece_flags (ds_obj s) ! i = PIECE_DOWNLOADNG \<longrightarrow>
        (\<exists>t. dl_at t s = Some (DT_Piece i)))"

lemma dl_okD:
  assumes "dl_ok pl s"
  shows "0 < pl" "0 \<le> ob_file_len (ds_obj s)" "ob_file_pieces (ds_obj s) = pieces pl (ob_file_len (ds_obj s))"
    "length (ob_piece_flags (ds_obj s)) = nat (ob_file_pieces (ds_obj s))"
    "\<And>t i. dl_at t s = Some (DT_Piece i) \<Longrightarrow> i < length (ob_piece_flags (ds_obj s))"
    "\<And>t i. dl_at t s = Some (DT_Piece i) \<Longrightarrow> ob_piece_flags (ds_obj s) ! i = PIECE_DOWNLOADNG"
    "\<And>t u i. dl_at t s = Some (DT_Piece i) \<Longrightarrow> dl_at u s = Some (DT_Piece i) \<Longrightarrow> t = u"
    "\<And>i. i < length (ob_piece_flags (ds_obj s)) \<Longrightarrow> ob_piece_flags (ds_obj s) ! i = PIECE_DOWNLOADNG \<Longrightarrow>
       \<exists>t. dl_at t s = Some (DT_Piece i)"
  using assms by (auto simp: dl_ok_def)

lemma dl_at_set: "dl_at u (set_thread t x s) = (if u = t \<and> dl_at t s \<noteq> None then Some x else dl_at u s)"
  by (auto simp: dl_at_def set_thread_def)

lemma dl_at_obj [simp]: "dl_at t (s\<lparr>ds_obj := ob\<rparr>) = dl_at t s" "dl_at t (s\<lparr>ds_file := f\<rparr>) = dl_at t s"
  by (simp_all add: dl_at_def)

lemma set_thread_simps [simp]: "ds_obj (set_thread t x s) = ds_obj s" "ds_file (set_thread t x s) = ds_file s"
  by (simp_all add: set_thread_def)

text \<open>A thread moves without touching the table.\<close>

lemma dl_ok_move:
  assumes "dl_ok pl s" and "\<nexists>i. dl_at t s = Some (DT_Piece i)" and "\<nexists>i. x = DT_Piece i"
  shows "dl_ok pl (set_thread t x s)"
proof -
  have "dl_at u (set_thread t x s) = Some (DT_Piece i) \<longleftrightarrow> dl_at u s = Some (DT_Piece i)" for u i
    using assms(2,3) by (auto simp: dl_at_set)
  note at = this
  show ?thesis using assms(1) unfolding dl_ok_def set_thread_simps at .
qed

text \<open>A thread takes an available piece.\<close>

lemma dl_ok_take:
  assumes "dl_ok pl s" and "dl_at t s = Some DT_Loop" and "j < length (ob_piece_flags (ds_obj s))"
    and "ob_piece_flags (ds_obj s) ! j = PIECE_AVAILABLE"
  shows "dl_ok pl (set_thread t (DT_Piece j)
     (s\<lparr>ds_obj := (ds_obj s)\<lparr>ob_piece_flags := (ob_piece_flags (ds_obj s))[j := PIECE_DOWNLOADNG]\<rparr>\<rparr>))" (is "dl_ok pl ?s")
proof -
  have at: "dl_at u ?s = Some (DT_Piece i) \<longleftrightarrow> (if u = t then i = j else dl_at u s = Some (DT_Piece i))" for u i
    using assms(2) by (auto simp: dl_at_set)
  have free: "dl_at u s \<noteq> Some (DT_Piece j)" for u
    using dl_okD(6) [OF assms(1), of u j] assms(4) by auto
  note ok = dl_okD [OF assms(1)]
  have other: "dl_at u s = Some (DT_Piece i) \<Longrightarrow> u \<noteq> t \<and> i \<noteq> j" for u i
    using free assms(2) by auto
  show ?thesis
    unfolding dl_ok_def at
  proof (intro conjI allI impI, goal_cases)
    case (5 u i)
    then show ?case using ok(5) [of u i] assms(3) by (simp split: if_splits)
  next
    case (6 u i)
    show ?case
    proof (cases "u = t")
      case True
      with 6 assms(3) show ?thesis by simp
    next
      case False
      with 6 have "dl_at u s = Some (DT_Piece i)" by simp
      from ok(6) [OF this] other [OF this] show ?thesis by simp
    qed
  next
    case (7 u v i)
    have "w = t \<longleftrightarrow> i = j" if "if w = t then i = j else dl_at w s = Some (DT_Piece i)" for w
      using that free [of w] by (cases "w = t") auto
    then have "u = t \<longleftrightarrow> v = t" using 7 by blast
    with 7 ok(7) [of u i v] show ?case by (cases "u = t") simp_all
  next
    case (8 i)
    show ?case
    proof (cases "i = j")
      case True
      then show ?thesis by (intro exI [of _ t]) simp
    next
      case False
      with 8 obtain u where "dl_at u s = Some (DT_Piece i)" using ok(8) [of i] by auto
      with other show ?thesis by (intro exI [of _ u]) auto
    qed
  qed (use ok(1-4) in simp_all)
qed

text \<open>A thread gives its piece back, finished or failed.\<close>

lemma dl_ok_release:
  assumes "dl_ok pl s" and "dl_at t s = Some (DT_Piece i)" and "st \<noteq> PIECE_DOWNLOADNG" and "\<nexists>i. x = DT_Piece i"
  shows "dl_ok pl (set_thread t x
     (s\<lparr>ds_file := f, ds_obj := (ds_obj s)\<lparr>ob_piece_flags := (ob_piece_flags (ds_obj s))[i := st]\<rparr>\<rparr>))" (is "dl_ok pl ?s")
proof -
  have at: "dl_at u ?s = Some (DT_Piece k) \<longleftrightarrow> u \<noteq> t \<and> dl_at u s = Some (DT_Piece k)" for u k
    using assms(2,4) by (auto simp: dl_at_set)
  note ok = dl_okD [OF assms(1)]
  have other: "dl_at u s = Some (DT_Piece k) \<Longrightarrow> u \<noteq> t \<Longrightarrow> k \<noteq> i" for u k
    using ok(7) [OF assms(2), of u] by auto
  show ?thesis
    unfolding dl_ok_def at
  proof (intro conjI allI impI, goal_cases)
    case (5 u k)
    then show ?case using ok(5) [of u k] by simp
  next
    case (6 u k)
    then show ?case using ok(6) [of u k] other [of u k] by simp
  next
    case (7 u v k)
    then show ?case using ok(7) [of u k v] by simp
  next
    case (8 k)
    then have "k \<noteq> i" using assms(3) by auto
    with 8 obtain u where "dl_at u s = Some (DT_Piece k)" using ok(8) [of k] by auto
    with \<open>k \<noteq> i\<close> assms(2) show ?case by (intro exI [of _ u]) auto
  qed (use ok(1-4) in simp_all)
qed

section \<open>What a step does\<close>

lemma next_piece_spec:
  assumes "dl_ok pl s" and "dl_at t s = Some DT_Loop"
  shows "next_piece t s = Inr (case find (\<lambda>j. ob_piece_flags (ds_obj s) ! j = PIECE_AVAILABLE)
        [0..<length (ob_piece_flags (ds_obj s))] of
      None \<Rightarrow> set_thread t (DT_Exit 0) s
    | Some j \<Rightarrow> set_thread t (DT_Piece j)
        (s\<lparr>ds_obj := (ds_obj s)\<lparr>ob_piece_flags := (ob_piece_flags (ds_obj s))[j := PIECE_DOWNLOADNG]\<rparr>\<rparr>))"
  using get_new_piece_from_spec [of 0 "nat (ob_file_pieces (ds_obj s))" "ob_piece_flags (ds_obj s)"]
    dl_okD(4) [OF assms(1)]
  by (auto simp: next_piece_def get_new_piece_def split: option.split)

lemma piece_failed_spec:
  assumes "dl_ok pl s" and "dl_at t s = Some (DT_Piece i)"
  shows "piece_failed t i s = Inr (set_thread t (DT_Exit (-1))
     (s\<lparr>ds_obj := (ds_obj s)\<lparr>ob_piece_flags := (ob_piece_flags (ds_obj s))[i := PIECE_AVAILABLE]\<rparr>\<rparr>))"
  using dl_okD(5) [OF assms] by (simp add: piece_failed_def mark_piece_failed_def set_flag_def)

definition put_piece :: "int \<Rightarrow> nat \<Rightarrow> u8 list \<Rightarrow> dl_state \<Rightarrow> dl_state" where
  "put_piece pl i data s =
     s\<lparr>ds_file := file_put (nat (int i * pl)) data (ds_file s),
       ds_obj := (ds_obj s)\<lparr>ob_piece_flags := (ob_piece_flags (ds_obj s))[i := PIECE_FINISHED]\<rparr>\<rparr>"

lemma transfer_spec:
  assumes "dl_ok pl s" and "dl_at t s = Some (DT_Piece i)"
  shows "transfer pl t i rs ws s =
     (let len = nat (req_len pl (ds_obj s) (int i)); buf = snd (my_read len rs)
      in if length buf = len then Inr (set_thread t DT_Loop (put_piece pl i (take (my_write buf ws) buf) s))
         else piece_failed t i s)"
proof -
  have i: "i < length (ob_piece_flags (ds_obj s))" using dl_okD(5) [OF assms] .
  have "0 < req_len pl (ds_obj s) (int i)"
    by (rule req_len_bounds(1)) (use dl_okD(1-4) [OF assms(1)] i in auto)
  with i show ?thesis
    by (auto simp: transfer_def my_read_def mark_piece_finished_def set_flag_def put_piece_def Let_def)
qed

lemma set_put_obj:
  "s\<lparr>ds_obj := ob\<rparr> = s\<lparr>ds_file := ds_file s, ds_obj := ob\<rparr>"
  by (cases s) simp

lemma dl_step_ok:
  assumes "dl_ok pl s"
  shows "\<exists>s'. piece_download_task pl e s = Inr s' \<and> dl_ok pl s'"
proof -
  have fail: "\<exists>s'. piece_failed t i s = Inr s' \<and> dl_ok pl s'" if "dl_at t s = Some (DT_Piece i)" for t i
    using dl_ok_release [OF assms that, of PIECE_AVAILABLE "DT_Exit (-1)" "ds_file s"]
    unfolding piece_failed_spec [OF assms that] by (simp flip: set_put_obj)
  show ?thesis
  proof (cases e)
    case (DL_Next t)
    show ?thesis
    proof (cases "dl_at t s = Some DT_Loop")
      case True
      let ?f = "find (\<lambda>j. ob_piece_flags (ds_obj s) ! j = PIECE_AVAILABLE) [0..<length (ob_piece_flags (ds_obj s))]"
      have "dl_ok pl (case ?f of None \<Rightarrow> set_thread t (DT_Exit 0) s
          | Some j \<Rightarrow> set_thread t (DT_Piece j)
        (s\<lparr>ds_obj := (ds_obj s)\<lparr>ob_piece_flags := (ob_piece_flags (ds_obj s))[j := PIECE_DOWNLOADNG]\<rparr>\<rparr>))"
        using dl_ok_move [OF assms, of t "DT_Exit 0"] dl_ok_take [OF assms True] find_upt_Some True
        by (cases ?f) auto
      with DL_Next True next_piece_spec [OF assms True] show ?thesis by simp
    qed (use DL_Next assms in simp)
  next
    case (DL_Send_Fail t)
    then show ?thesis using fail [of t] assms by (auto split: option.split dl_thread.split)
  next
    case (DL_Transfer t rs ws)
    show ?thesis
    proof (cases "\<exists>i. dl_at t s = Some (DT_Piece i)")
      case True
      then obtain i where i: "dl_at t s = Some (DT_Piece i)" by blast
      from dl_ok_release [OF assms i, of PIECE_FINISHED DT_Loop] have "dl_ok pl (set_thread t DT_Loop (put_piece pl i d s))" for d
        by (simp add: put_piece_def)
      with DL_Transfer i fail [OF i] transfer_spec [OF assms i, of rs ws] show ?thesis by (simp add: Let_def)
    next
      case False
      with DL_Transfer assms show ?thesis by (auto split: option.split dl_thread.split)
    qed
  qed (use assms dl_ok_move [OF assms] in auto)
qed

lemma download_begin_ok:
  assumes "0 < pl" and "0 \<le> sint len" and "download_begin l n len pl k = Inr s"
  shows "dl_ok pl s" and "ds_file s = []" and "ob_file_len (ds_obj s) = sint len"
    and "\<And>t x. dl_at t s = Some x \<Longrightarrow> x = DT_Init" and "length (ds_threads s) = k"
    and "set (ob_piece_flags (ds_obj s)) \<subseteq> {PIECE_AVAILABLE}"
proof -
  from assms obtain ob where s: "s = \<lparr>ds_obj = ob\<lparr>ob_file_len := sint len, ob_file_pieces := pieces pl (sint len),
      ob_piece_flags := replicate (nat (pieces pl (sint len))) PIECE_AVAILABLE\<rparr>, ds_file = [],
      ds_threads = replicate k DT_Init\<rparr>"
    by (auto simp: download_begin_def file_pieces_of_nonneg ebind_eq_Inr split: if_splits)
  have at: "dl_at t s = (if t < k then Some DT_Init else None)" for t by (simp add: dl_at_def s)
  show "dl_ok pl s" unfolding dl_ok_def at using assms(1,2) by (simp add: s)
  show "\<And>t x. dl_at t s = Some x \<Longrightarrow> x = DT_Init" by (simp add: at split: if_splits)
  show "set (ob_piece_flags (ds_obj s)) \<subseteq> {PIECE_AVAILABLE}" by (auto simp: s)
qed (use assms in \<open>auto simp: download_begin_def ebind_eq_Inr\<close>)

section \<open>Examples\<close>

text \<open>A file of three bytes in two pieces, fetched by one thread; and the state before.\<close>

definition dl_example :: dl_state where
  "dl_example = \<lparr>ds_obj = \<lparr>ob_logic_name = ''1/a'', ob_sys_name = ''a'', ob_file_len = 3, ob_file_pieces = 2,
     ob_piece_flags = [PIECE_AVAILABLE, PIECE_AVAILABLE]\<rparr>, ds_file = [], ds_threads = [DT_Init]\<rparr>"

definition dl_example_run :: "dl_event list" where
  "dl_example_run = [DL_Ready 0, DL_Next 0, DL_Transfer 0 [Read_Bytes [7], Read_Bytes [8]] [],
     DL_Next 0, DL_Transfer 0 [Read_Bytes [9]] [Wrote 1], DL_Next 0]"

lemma dl_example_begin: "download_begin ''1/a'' ''a'' 3 2 1 = Inr dl_example"
  by code_simp

lemma dl_example_end:
  "efold (piece_download_task 2) dl_example_run dl_example = Inr (dl_example\<lparr>ds_file := [7, 8, 9],
     ds_threads := [DT_Exit 0], ds_obj := (ds_obj dl_example)\<lparr>ob_piece_flags := [PIECE_FINISHED, PIECE_FINISHED]\<rparr>\<rparr>)"
  by code_simp

text \<open>
  C8. The threads of a download never share a piece and never leave the bounds. For every file
  length and piece length whose sum is an \<open>int\<close>, every number of threads and every interleaving of their steps, whatever
  the connections deliver: the run has no memory error, at every end of it no two threads hold the
  same piece, and a piece a thread holds is marked as being downloaded, not empty, at most a piece
  length long and inside the file.
\<close>

theorem download_pieces_exclusive:
  assumes "0 < pl" and "0 \<le> sint len" and "download_begin l n len pl k = Inr s0"
  shows "\<exists>s. efold (piece_download_task pl) es s0 = Inr s \<and>
     (\<forall>t u i. dl_at t s = Some (DT_Piece i) \<longrightarrow> dl_at u s = Some (DT_Piece i) \<longrightarrow> t = u) \<and>
     (\<forall>t i. dl_at t s = Some (DT_Piece i) \<longrightarrow> ob_piece_flags (ds_obj s) ! i = PIECE_DOWNLOADNG \<and>
        0 < req_len pl (ds_obj s) (int i) \<and> req_len pl (ds_obj s) (int i) \<le> pl \<and>
        int i * pl + req_len pl (ds_obj s) (int i) \<le> ob_file_len (ds_obj s))"
proof -
  have "\<exists>s. efold (piece_download_task pl) es s0 = Inr s \<and> dl_ok pl s"
    by (rule efold_total) (rule download_begin_ok(1) [OF assms], rule dl_step_ok)
  then obtain s where s: "efold (piece_download_task pl) es s0 = Inr s" "dl_ok pl s" by blast
  have "0 < req_len pl (ds_obj s) (int i) \<and> req_len pl (ds_obj s) (int i) \<le> pl \<and>
      int i * pl + req_len pl (ds_obj s) (int i) \<le> ob_file_len (ds_obj s)" if "dl_at t s = Some (DT_Piece i)" for t i
  proof -
    have "int i < ob_file_pieces (ds_obj s)" using dl_okD(4,5) [OF s(2)] that by fastforce
    with req_len_bounds [OF dl_okD(1-3) [OF s(2)], of "int i"] show ?thesis by simp
  qed
  then show ?thesis using dl_okD(6,7) [OF s(2)] by (intro exI [of _ s] conjI allI impI s(1)) simp_all
qed

theorem download_pieces_exclusive_witness:
  "\<exists>s. efold (piece_download_task 2) [DL_Ready 0, DL_Next 0] dl_example = Inr s \<and>
     dl_at 0 s = Some (DT_Piece 0) \<and> ob_piece_flags (ds_obj s) ! 0 = PIECE_DOWNLOADNG \<and> req_len 2 (ds_obj s) 0 \<le> 2"
proof -
  have "0 \<le> sint (3 :: u32)" by simp
  from download_pieces_exclusive [OF _ this dl_example_begin, of "[DL_Ready 0, DL_Next 0]"] obtain s where
    s: "efold (piece_download_task 2) [DL_Ready 0, DL_Next 0] dl_example = Inr s"
      "\<forall>t i. dl_at t s = Some (DT_Piece i) \<longrightarrow> ob_piece_flags (ds_obj s) ! i = PIECE_DOWNLOADNG \<and>
        0 < req_len 2 (ds_obj s) (int i) \<and> req_len 2 (ds_obj s) (int i) \<le> 2 \<and>
        int i * 2 + req_len 2 (ds_obj s) (int i) \<le> ob_file_len (ds_obj s)" by auto
  have "efold (piece_download_task 2) [DL_Ready 0, DL_Next 0] dl_example =
      Inr (dl_example\<lparr>ds_threads := [DT_Piece 0],
        ds_obj := (ds_obj dl_example)\<lparr>ob_piece_flags := [PIECE_DOWNLOADNG, PIECE_AVAILABLE]\<rparr>\<rparr>)"
    by code_simp
  with s(1) have "dl_at 0 s = Some (DT_Piece 0)" by (auto simp: dl_at_def)
  with s show ?thesis by fastforce
qed

section \<open>The contents\<close>

definition piece_of :: "int \<Rightarrow> u8 list \<Rightarrow> download_obj \<Rightarrow> nat \<Rightarrow> u8 list" where
  "piece_of pl src obj i = take (nat (req_len pl obj (int i))) (drop (nat (int i * pl)) src)"

text \<open>The owners send what is in their file and nothing else, and the disk takes what it is given;
  a connection may break off at any time.\<close>

definition honest :: "int \<Rightarrow> u8 list \<Rightarrow> dl_event \<Rightarrow> dl_state \<Rightarrow> bool" where
  "honest pl src e s =
     (case e of
        DL_Self t \<Rightarrow> False
      | DL_Transfer t rs ws \<Rightarrow> writes_all ws \<and>
          (case dl_at t s of
             Some (DT_Piece i) \<Rightarrow>
               (let x = take (nat (req_len pl (ds_obj s) (int i))) (stream rs)
                in x = take (length x) (piece_of pl src (ds_obj s) i))
           | _ \<Rightarrow> True)
      | _ \<Rightarrow> True)"

fun honest_run :: "int \<Rightarrow> u8 list \<Rightarrow> dl_event list \<Rightarrow> dl_state \<Rightarrow> bool" where
  "honest_run pl src [] s \<longleftrightarrow> True"
| "honest_run pl src (e # es) s \<longleftrightarrow> honest pl src e s \<and>
     (case piece_download_task pl e s of Inl _ \<Rightarrow> True | Inr s' \<Rightarrow> honest_run pl src es s')"

definition in_piece :: "int \<Rightarrow> download_obj \<Rightarrow> nat \<Rightarrow> nat \<Rightarrow> bool" where
  "in_piece pl obj i k \<longleftrightarrow> int i * pl \<le> int k \<and> int k < int i * pl + req_len pl obj (int i)"

definition dl_content :: "int \<Rightarrow> u8 list \<Rightarrow> dl_state \<Rightarrow> bool" where
  "dl_content pl src s \<longleftrightarrow> ob_file_len (ds_obj s) = int (length src) \<and> length (ds_file s) \<le> length src \<and>
     (\<forall>i < length (ob_piece_flags (ds_obj s)). ob_piece_flags (ds_obj s) ! i = PIECE_FINISHED \<longrightarrow>
        (\<forall>k. in_piece pl (ds_obj s) i k \<longrightarrow> k < length (ds_file s) \<and> ds_file s ! k = src ! k))"

text \<open>Once a thread has found nothing to take, nothing is available as long as no thread fails.\<close>

definition dl_drained :: "dl_state \<Rightarrow> bool" where
  "dl_drained s \<longleftrightarrow> (\<exists>t. dl_at t s = Some (DT_Exit 0)) \<and> (\<forall>t. dl_at t s \<noteq> Some (DT_Exit (-1))) \<longrightarrow>
     PIECE_AVAILABLE \<notin> set (ob_piece_flags (ds_obj s))"

lemma req_len_flags [simp]: "req_len pl (obj\<lparr>ob_piece_flags := fl\<rparr>) i = req_len pl obj i"
  by (simp add: req_len_def)

lemma in_piece_flags [simp]: "in_piece pl (obj\<lparr>ob_piece_flags := fl\<rparr>) i k = in_piece pl obj i k"
  by (simp add: in_piece_def)

lemma flag_update_finished:
  "i' < length fl \<Longrightarrow> st \<noteq> PIECE_FINISHED \<Longrightarrow> fl[i := st] ! i' = PIECE_FINISHED \<Longrightarrow> fl ! i' = PIECE_FINISHED"
  by (cases "i' = i") simp_all

lemma dl_content_flag:
  assumes "dl_content pl src s" and "st \<noteq> PIECE_FINISHED"
  shows "dl_content pl src (set_thread t x (s\<lparr>ds_obj := (ds_obj s)\<lparr>ob_piece_flags := (ob_piece_flags (ds_obj s))[i := st]\<rparr>\<rparr>))"
  using assms by (simp add: dl_content_def) (metis flag_update_finished)

lemma dl_content_move: "dl_content pl src s \<Longrightarrow> dl_content pl src (set_thread t x s)"
  by (simp add: dl_content_def)

lemma dl_content_put:
  assumes ok: "dl_ok pl s" and c: "dl_content pl src s" and i: "i < length (ob_piece_flags (ds_obj s))"
  shows "dl_content pl src (put_piece pl i (piece_of pl src (ds_obj s) i) s)"
proof -
  let ?ob = "ds_obj s" and ?d = "piece_of pl src (ds_obj s) i" and ?off = "nat (int i * pl)"
  have pl: "0 < pl" using dl_okD(1) [OF ok] .
  have "int i < ob_file_pieces ?ob" using dl_okD(4) [OF ok] i by simp
  note b = req_len_bounds [OF dl_okD(1-3) [OF ok] _ this, simplified]
  have off: "int ?off = int i * pl" using pl by simp
  have src: "ob_file_len ?ob = int (length src)" "length (ds_file s) \<le> length src" using c by (simp_all add: dl_content_def)
  have fit: "?off + nat (req_len pl ?ob (int i)) \<le> length src" using b(1,3) src(1) off by linarith
  then have len: "length ?d = nat (req_len pl ?ob (int i))" by (simp add: piece_of_def)
  have ne: "?d \<noteq> []" using len b(1) by auto
  have d: "?d ! (k - ?off) = src ! k" if "in_piece pl ?ob i k" for k
  proof -
    have k: "?off \<le> k" "k - ?off < nat (req_len pl ?ob (int i))" using that off b(1) by (auto simp: in_piece_def)
    then have "?d ! (k - ?off) = drop ?off src ! (k - ?off)" by (simp add: piece_of_def)
    also have "\<dots> = src ! k" using k len b(3) src(1) off by (subst nth_drop) auto
    finally show ?thesis .
  qed
  have flen: "length (file_put ?off ?d (ds_file s)) = max (length (ds_file s)) (?off + length ?d)"
    by (rule length_file_put [OF ne])
  have new: "k < length (file_put ?off ?d (ds_file s)) \<and> file_put ?off ?d (ds_file s) ! k = src ! k"
    if "in_piece pl ?ob i k" for k
  proof -
    have "?off \<le> k" "k < ?off + length ?d" using that len b(1) off by (auto simp: in_piece_def)
    then show ?thesis using flen nth_file_put [of k ?off ?d "ds_file s"] d [OF that] by simp
  qed
  have old: "k < length (file_put ?off ?d (ds_file s)) \<and> file_put ?off ?d (ds_file s) ! k = src ! k"
    if "k < length (ds_file s)" "ds_file s ! k = src ! k" for k
  proof (cases "in_piece pl ?ob i k")
    case False
    then have "\<not> (?off \<le> k \<and> k < ?off + length ?d)" unfolding in_piece_def len using b(1) off by linarith
    with that flen show ?thesis using nth_file_put [of k ?off ?d "ds_file s"] by (auto simp: less_max_iff_disj)
  qed (rule new)
  have "length (file_put ?off ?d (ds_file s)) \<le> length src" using flen src(2) fit len by simp
  moreover have "k < length (file_put ?off ?d (ds_file s)) \<and> file_put ?off ?d (ds_file s) ! k = src ! k"
    if "i' < length (ob_piece_flags ?ob)" "(ob_piece_flags ?ob)[i := PIECE_FINISHED] ! i' = PIECE_FINISHED"
      "in_piece pl ?ob i' k" for i' k
  proof (cases "i' = i")
    case True
    with that new show ?thesis by simp
  next
    case False
    with that c have "k < length (ds_file s) \<and> ds_file s ! k = src ! k" by (simp add: dl_content_def)
    with old show ?thesis by simp
  qed
  ultimately show ?thesis using src(1) by (simp add: dl_content_def put_piece_def)
qed

lemma dl_content_step:
  assumes ok: "dl_ok pl s" and c: "dl_content pl src s" and h: "honest pl src e s"
    and step: "piece_download_task pl e s = Inr s'"
  shows "dl_content pl src s'"
proof (cases e)
  case (DL_Next t)
  with step c next_piece_spec [OF ok, of t] show ?thesis
    by (auto intro: dl_content_flag dl_content_move split: if_splits option.splits)
next
  case (DL_Send_Fail t)
  with step c piece_failed_spec [OF ok] show ?thesis
    by (auto intro: dl_content_flag split: option.splits dl_thread.splits)
next
  case (DL_Transfer t rs ws)
  show ?thesis
  proof (cases "\<exists>i. dl_at t s = Some (DT_Piece i)")
    case True
    then obtain i where i: "dl_at t s = Some (DT_Piece i)" by blast
    let ?len = "nat (req_len pl (ds_obj s) (int i))" and ?d = "piece_of pl src (ds_obj s) i"
    let ?buf = "snd (my_read ?len rs)"
    have ws: "writes_all ws" and x: "take ?len (stream rs) = take (length (take ?len (stream rs))) ?d"
      using h by (simp_all only: honest_def DL_Transfer i Let_def dl_event.case option.case dl_thread.case)
    have buf: "?buf = take (length ?buf) (stream rs)" using my_read_spec [of ?len rs] by (auto split: prod.splits)
    have full: "?buf = ?d" if "length ?buf = ?len"
    proof -
      have "?buf = take ?len (stream rs)" using buf that by simp
      with x that show ?thesis by (simp add: piece_of_def)
    qed
    show ?thesis
    proof (cases "length ?buf = ?len")
      case True
      then have "s' = set_thread t DT_Loop (put_piece pl i ?d s)"
        using step full [OF True] my_write_all [OF ws, of ?d] DL_Transfer i transfer_spec [OF ok i, of rs ws]
        by (simp add: Let_def)
      then show ?thesis using dl_content_put [OF ok c dl_okD(5) [OF ok i]] by (simp add: dl_content_move)
    next
      case False
      then have "piece_failed t i s = Inr s'"
        using step DL_Transfer i transfer_spec [OF ok i, of rs ws] by (simp add: Let_def)
      then show ?thesis using piece_failed_spec [OF ok i] c by (auto intro: dl_content_flag)
    qed
  next
    case False
    with step DL_Transfer c show ?thesis by (auto split: option.splits dl_thread.splits)
  qed
qed (use step c in \<open>auto intro: dl_content_move split: if_splits\<close>)

lemma dl_drained_fail:
  assumes "dl_at t s \<noteq> None"
  shows "dl_drained (set_thread t (DT_Exit (-1)) s)"
  using assms by (auto simp: dl_drained_def dl_at_set)

lemma dl_drained_move:
  assumes "dl_drained s" and "set fl \<inter> {PIECE_AVAILABLE} \<subseteq> set (ob_piece_flags (ds_obj s))"
    and "\<nexists>r. dl_at t s = Some (DT_Exit r)" and "\<nexists>r. x = DT_Exit r"
  shows "dl_drained (set_thread t x (s\<lparr>ds_file := f, ds_obj := (ds_obj s)\<lparr>ob_piece_flags := fl\<rparr>\<rparr>))"
proof -
  have "dl_at u (set_thread t x (s\<lparr>ds_file := f, ds_obj := (ds_obj s)\<lparr>ob_piece_flags := fl\<rparr>\<rparr>)) = Some (DT_Exit r) \<longleftrightarrow>
      dl_at u s = Some (DT_Exit r)" for u r
    using assms(3,4) by (auto simp: dl_at_set)
  with assms(1,2) show ?thesis by (auto simp: dl_drained_def)
qed

lemma dl_drained_step:
  assumes ok: "dl_ok pl s" and d: "dl_drained s" and self: "\<nexists>t. e = DL_Self t"
    and step: "piece_download_task pl e s = Inr s'"
  shows "dl_drained s'"
proof -
  have same: "s\<lparr>ds_file := ds_file s, ds_obj := (ds_obj s)\<lparr>ob_piece_flags := ob_piece_flags (ds_obj s)\<rparr>\<rparr> = s"
    by (cases s) simp
  have fail: "dl_drained s''" if "dl_at t s = Some (DT_Piece i)" "piece_failed t i s = Inr s''" for t i s''
    using that piece_failed_spec [OF ok that(1)] dl_drained_fail by fastforce
  show ?thesis
  proof (cases e)
    case (DL_Abort t)
    with step d dl_drained_fail [of t s] show ?thesis by (auto split: if_splits)
  next
    case (DL_Ready t)
    with step d dl_drained_move [OF d, of "ob_piece_flags (ds_obj s)" t DT_Loop "ds_file s"] show ?thesis
      unfolding same by (auto split: if_splits)
  next
    case (DL_Next t)
    show ?thesis
    proof (cases "dl_at t s = Some DT_Loop")
      case True
      let ?fl = "ob_piece_flags (ds_obj s)"
      show ?thesis
      proof (cases "find (\<lambda>j. ?fl ! j = PIECE_AVAILABLE) [0..<length ?fl]")
        case None
        then have "PIECE_AVAILABLE \<notin> set ?fl" unfolding find_upt_None by (auto simp: in_set_conv_nth)
        moreover have "ob_piece_flags (ds_obj s') = ?fl"
          using step DL_Next True None next_piece_spec [OF ok True] by auto
        ultimately show ?thesis by (simp add: dl_drained_def)
      next
        case (Some j)
        have "set (?fl[j := PIECE_DOWNLOADNG]) \<inter> {PIECE_AVAILABLE} \<subseteq> set ?fl"
          using set_update_subset_insert [of ?fl j PIECE_DOWNLOADNG] by auto
        from dl_drained_move [OF d this, of t "DT_Piece j" "ds_file s"] show ?thesis
          using step DL_Next True Some next_piece_spec [OF ok True] by (auto simp flip: set_put_obj)
      qed
    qed (use DL_Next step d in simp)
  next
    case (DL_Send_Fail t)
    with step d fail show ?thesis by (auto split: option.splits dl_thread.splits)
  next
    case (DL_Transfer t rs ws)
    show ?thesis
    proof (cases "\<exists>i. dl_at t s = Some (DT_Piece i)")
      case True
      then obtain i where i: "dl_at t s = Some (DT_Piece i)" by blast
      let ?fl = "ob_piece_flags (ds_obj s)"
      have "set (?fl[i := PIECE_FINISHED]) \<inter> {PIECE_AVAILABLE} \<subseteq> set ?fl"
        using set_update_subset_insert [of ?fl i PIECE_FINISHED] by auto
      from dl_drained_move [OF d this, of t DT_Loop] i
      have "dl_drained (set_thread t DT_Loop (put_piece pl i data s))" for data by (simp add: put_piece_def)
      then show ?thesis using step DL_Transfer i transfer_spec [OF ok i, of rs ws] fail [OF i]
        by (auto simp: Let_def split: if_splits)
    next
      case False
      with step DL_Transfer d show ?thesis by (auto split: option.splits dl_thread.splits)
    qed
  qed (use self in blast)
qed

lemma honest_run_inv:
  assumes "dl_ok pl s" and "dl_content pl src s" and "dl_drained s" and "honest_run pl src es s"
    and "efold (piece_download_task pl) es s = Inr s'"
  shows "dl_ok pl s' \<and> dl_content pl src s' \<and> dl_drained s'"
  using assms
proof (induction es arbitrary: s)
  case Nil
  then show ?case by simp
next
  case (Cons e es)
  obtain s1 where s1: "piece_download_task pl e s = Inr s1" "dl_ok pl s1" using dl_step_ok [OF Cons.prems(1)] by blast
  have h: "honest pl src e s" "honest_run pl src es s1" using Cons.prems(4) s1(1) by simp_all
  have "\<nexists>t. e = DL_Self t" using h(1) by (auto simp: honest_def)
  from Cons.IH [OF s1(2) dl_content_step [OF Cons.prems(1,2) h(1) s1(1)] dl_drained_step [OF Cons.prems(1,3) this s1(1)] h(2)]
  show ?case using Cons.prems(5) s1(1) by simp
qed

lemma threads_step: "piece_download_task pl e s = Inr s' \<Longrightarrow> length (ds_threads s') = length (ds_threads s)"
  by (cases e)
     (auto simp: next_piece_def piece_failed_def transfer_def ebind_eq_Inr set_thread_def Let_def
       split: if_splits option.splits dl_thread.splits prod.splits)

lemma threads_efold:
  assumes "efold (piece_download_task pl) es s = Inr s'"
  shows "length (ds_threads s') = length (ds_threads s)"
  by (rule efold_invariant [OF assms]) (auto dest: threads_step)

text \<open>When every piece is finished the file is complete.\<close>

lemma all_finished_file:
  assumes ok: "dl_ok pl s" and c: "dl_content pl src s" and fin: "set (ob_piece_flags (ds_obj s)) \<subseteq> {PIECE_FINISHED}"
  shows "ds_file s = src"
proof -
  have len: "ob_file_len (ds_obj s) = int (length src)" "length (ds_file s) \<le> length src"
    using c by (simp_all add: dl_content_def)
  have pos: "k < length (ds_file s) \<and> ds_file s ! k = src ! k" if "k < length src" for k
  proof -
    let ?i = "nat (int k div pl)"
    have "int k < ob_file_len (ds_obj s)" using that len(1) by simp
    note p = position_in_piece [OF dl_okD(1) [OF ok] _ this dl_okD(3) [OF ok], simplified]
    have i: "?i < length (ob_piece_flags (ds_obj s))" "int ?i = int k div pl" using p(1,2) dl_okD(4) [OF ok] by simp_all
    have "int k div pl * pl \<le> int k"
      using div_mult_mod_eq [of "int k" pl] pos_mod_sign [OF dl_okD(1) [OF ok], of "int k"] by linarith
    then have "in_piece pl (ds_obj s) ?i k" unfolding in_piece_def i(2) using p(3) by simp
    moreover have "ob_piece_flags (ds_obj s) ! ?i = PIECE_FINISHED" using fin i(1) nth_mem by blast
    ultimately show ?thesis using c i(1) by (simp add: dl_content_def)
  qed
  have "length src \<le> length (ds_file s)"
    using pos [of "length src - 1"] by (cases src) auto
  with len(2) pos show ?thesis by (intro nth_equalityI) auto
qed

text \<open>The threads of a download, when all of them succeed.\<close>

lemma threads_deliver_file:
  assumes "0 < pl" and "0 < k" and "length src < 2 ^ 31" and "download_begin l n (of_nat (length src)) pl k = Inr s0"
    and "honest_run pl src es s0" and "efold (piece_download_task pl) es s0 = Inr s"
    and "all_exited s" and "set (exit_values s) \<subseteq> {0}"
  shows "ds_file s = src"
proof -
  have len: "sint (of_nat (length src) :: u32) = int (length src)"
    using assms(3) by (simp add: signed_of_nat signed_take_bit_int_eq_self)
  note b = download_begin_ok [OF assms(1) _ assms(4), unfolded len, simplified]
  have "ob_piece_flags (ds_obj s0) ! i \<noteq> PIECE_FINISHED" if "i < length (ob_piece_flags (ds_obj s0))" for i
    using b(6) nth_mem [OF that] by auto
  then have "dl_content pl src s0" using b(2,3) by (simp add: dl_content_def)
  moreover have "dl_drained s0" using b(4) by (fastforce simp: dl_drained_def)
  ultimately have inv: "dl_ok pl s" "dl_content pl src s" "dl_drained s"
    using honest_run_inv [OF b(1) _ _ assms(5,6)] by auto
  have k: "length (ds_threads s) = k" using threads_efold [OF assms(6)] b(5) by simp
  have at: "dl_at t s = Some (DT_Exit 0)" if "t < k" for t
  proof -
    have mem: "ds_threads s ! t \<in> set (ds_threads s)" using that k by simp
    obtain r where r: "ds_threads s ! t = DT_Exit r"
      using assms(7) mem by (cases "ds_threads s ! t") (auto simp: all_exited_def list_all_iff dest!: bspec)
    with mem have "r \<in> set (exit_values s)" by (force simp: exit_values_def split: dl_thread.split)
    with assms(8) r that k show ?thesis by (auto simp: dl_at_def)
  qed
  have only: "x = DT_Exit 0" if "dl_at t s = Some x" for t x
    using that at [of t] k by (auto simp: dl_at_def split: if_splits)
  have no_fail: "dl_at t s \<noteq> Some (DT_Exit (-1))" for t
    using only [of t "DT_Exit (-1)"] by auto
  have no_piece: "dl_at t s \<noteq> Some (DT_Piece i)" for t i
    using only [of t "DT_Piece i"] by auto
  have "PIECE_AVAILABLE \<notin> set (ob_piece_flags (ds_obj s))"
    using inv(3) at [OF assms(2)] no_fail unfolding dl_drained_def by blast
  moreover have "PIECE_DOWNLOADNG \<notin> set (ob_piece_flags (ds_obj s))"
    using dl_okD(8) [OF inv(1)] no_piece unfolding in_set_conv_nth by blast
  ultimately have "set (ob_piece_flags (ds_obj s)) \<subseteq> {PIECE_FINISHED}"
    by (metis insertI1 piece_status.exhaust subsetI)
  then show ?thesis by (rule all_finished_file [OF inv(1,2)])
qed

lemma join_all: "fold join_status rs r = 0 \<longleftrightarrow> r = 0 \<or> 0 \<in> set rs"
  by (induction rs arbitrary: r) (auto simp: join_status_def)

lemma exit_values_length: "all_exited s \<Longrightarrow> length (exit_values s) = length (ds_threads s)"
proof -
  have "list_all (\<lambda>x. case x of DT_Exit r \<Rightarrow> True | _ \<Rightarrow> False) ts \<Longrightarrow>
      length (concat (map (\<lambda>x. case x of DT_Exit r \<Rightarrow> [r] | _ \<Rightarrow> []) ts)) = length ts" for ts
    by (induction ts) (auto split: dl_thread.splits)
  then show "all_exited s \<Longrightarrow> length (exit_values s) = length (ds_threads s)"
    unfolding all_exited_def exit_values_def .
qed

lemma threads_all: "download_threads [] owners = length owners"
  by (induction owners) simp_all

lemma threads_of_begin: "download_begin name sys_name len pl k = Inr s0 \<Longrightarrow> length (ds_threads s0) = k"
  by (auto simp: download_begin_def ebind_eq_Inr)

text \<open>\<open>do_download\<close> in terms of its threads, when nothing fails in front of them.\<close>

lemma do_download_run:
  assumes "owners \<noteq> []" and "get_file_len_from connected name sk input = Inr len"
    and "file_pieces_of (sint len) pl = Inr n" and "0 \<le> n"
    and "download_begin name sys_name len pl (length owners) = Inr s0" and "efold (piece_download_task pl) es s0 = Inr s"
  shows "do_download True connected sk input pl [] es name owners sys_name f =
     Inr (if all_exited s then Some (download_result (exit_values s), Some (ds_file s)) else None)"
proof -
  from assms(5) obtain ob where "download_obj_init name sys_name = Inr ob"
    by (auto simp: download_begin_def ebind_eq_Inr)
  with assms show ?thesis by (simp add: do_download_def threads_all)
qed

text \<open>A download all of whose threads succeed.\<close>

lemma do_download_file:
  assumes "0 < pl" and "owners \<noteq> []" and "int (length src) + pl < 2 ^ 31"
    and "get_file_len_from connected name sk input = Inr (of_nat (length src))"
    and "download_begin name sys_name (of_nat (length src)) pl (length owners) = Inr s0"
    and "honest_run pl src es s0" and "efold (piece_download_task pl) es s0 = Inr s"
    and "all_exited s" and "set (exit_values s) \<subseteq> {0}"
  shows "do_download True connected sk input pl [] es name owners sys_name f = Inr (Some (0, Some src))"
proof -
  have small: "length src < 2 ^ 31" using assms(1,3) by simp
  then have len: "sint (of_nat (length src) :: u32) = int (length src)"
    by (simp add: signed_of_nat signed_take_bit_int_eq_self)
  have n: "file_pieces_of (int (length src)) pl = Inr (pieces pl (int (length src)))" "0 \<le> pieces pl (int (length src))"
    using file_pieces_of_nonneg [OF _ assms(1), of "int (length src)"] pieces_bounds(1) [OF assms(1)] assms(3) by simp_all
  note exit_values_length [OF assms(8)]
  then have "exit_values s \<noteq> []"
    using threads_efold [OF assms(7)] threads_of_begin [OF assms(5)] assms(2) by auto
  then have "0 \<in> set (exit_values s)" using assms(9) by (cases "exit_values s") auto
  then have "download_result (exit_values s) = 0" by (simp add: download_result_def join_all)
  moreover have "ds_file s = src"
    by (rule threads_deliver_file [OF assms(1) _ small assms(5-9)]) (use assms(2) in simp)
  ultimately show ?thesis
    using do_download_run [OF assms(2,4) _ n(2) assms(5,7), unfolded len, OF n(1)] assms(8) by simp
qed

text \<open>
  C5. A download in which every thread succeeds delivers the file. Take a file of the owners whose length, added to the
  length of a piece, is below \<open>2 ^ 31\<close> (the sum is computed in \<open>int\<close>), and whose
  length the first owner has told, and a thread for each of the owners; in every interleaving of their steps in
  which the owners send what is in the file (or break off) and writes do not fail, if all threads have
  exited and each with 0, then \<open>do_download\<close> returns 0 and the local file, whatever it held before, is the
  file of the owners, byte by byte.
\<close>

theorem download_delivers_file:
  assumes "0 < pl" and "owners \<noteq> []" and "int (length src) + pl < 2 ^ 31"
    and "get_file_len_from connected name sk input = Inr (of_nat (length src))"
    and "download_begin name sys_name (of_nat (length src)) pl (length owners) = Inr s0"
    and "honest_run pl src es s0" and "efold (piece_download_task pl) es s0 = Inr s"
    and "all_exited s" and "set (exit_values s) \<subseteq> {0}"
  shows "do_download True connected sk input pl [] es name owners sys_name f = Inr (Some (0, Some src))"
  by (rule do_download_file [OF assms])

lemma dl_example_honest: "honest_run 2 [7, 8, 9] dl_example_run dl_example"
  by code_simp

text \<open>The answer of an owner that its file has three bytes.\<close>

definition len_answer :: "u8 list" where
  "len_answer = frame [4, 0, 8, 0, 3, 0, 0, 0, 0, 0, 0, 0]"

lemma len_answer_read: "get_file_len_from True ''1/a'' \<lparr>wire_out = [], send_replies = []\<rparr> len_answer = Inr 3"
  by (simp add: get_file_len_from_def ask_owner_def p2p_packet_fill_def p2p_packet_init_def data_copy_def
      MAX_PKT_DATA_LEN_def send_p2p_packet_def send_segment_def sock_send_def recv_p2p_packet_def recv_segment_def
      len_answer_def frame_def start_buf_def end_buf_def buf_put_def sizeof_p2p_packet_def sizeof_ttop_packet_def
      p2p_of_bytes_def field_def p2p_type_defs Let_def)

theorem download_delivers_file_witness:
  "do_download True True \<lparr>wire_out = [], send_replies = []\<rparr> len_answer 2 [] dl_example_run ''1/a''
     [\<lparr>pid_ip = 7, pid_port = P2P_PORT\<rparr>] ''a'' (Some [1]) = Inr (Some (0, Some [7, 8, 9]))"
proof -
  have "download_begin ''1/a'' ''a'' (of_nat (length [7 :: u8, 8, 9])) 2 (length [\<lparr>pid_ip = 7, pid_port = P2P_PORT\<rparr>]) = Inr dl_example"
    using dl_example_begin by simp
  from download_delivers_file [OF _ _ _ _ this dl_example_honest dl_example_end] len_answer_read
  show ?thesis by (simp add: all_exited_def exit_values_def)
qed

text \<open>Behind this bound the number of pieces is an overflow: a file of \<open>2 ^ 31 - 1\<close> bytes cannot be fetched in pieces of the
  length the configuration comes with, although its length is an \<open>int\<close>.\<close>

lemma long_file_overflows:
  assumes "owners \<noteq> []" and "length name < MAX_NAME_LEN" and "length sys_name < MAX_NAME_LEN"
    and "get_file_len_from connected name sk input = Inr 0x7FFFFFFF"
  shows "do_download True connected sk input 131072 al es name owners sys_name f = Inl Signed_Overflow"
proof -
  have "file_pieces_of (sint (0x7FFFFFFF :: u32)) 131072 = Inl Signed_Overflow" by code_simp
  with assms show ?thesis by (simp add: do_download_def download_obj_init_def strcpy_name_def)
qed

section \<open>What the result of a download says\<close>

definition dl_broken :: dl_state where
  "dl_broken = \<lparr>ds_obj = \<lparr>ob_logic_name = ''1/a'', ob_sys_name = ''a'', ob_file_len = 2, ob_file_pieces = 2,
     ob_piece_flags = [PIECE_AVAILABLE, PIECE_AVAILABLE]\<rparr>, ds_file = [], ds_threads = [DT_Init, DT_Init]\<rparr>"

definition dl_broken_run :: "dl_event list" where
  "dl_broken_run = [DL_Ready 0, DL_Ready 1, DL_Next 0, DL_Next 1, DL_Transfer 0 [Read_Bytes [7]] [], DL_Next 0, DL_Send_Fail 1]"

lemma dl_broken_begin: "download_begin ''1/a'' ''a'' 2 1 2 = Inr dl_broken"
  by code_simp

lemma dl_broken_honest: "honest_run 1 [7, 8] dl_broken_run dl_broken"
  by code_simp

lemma dl_broken_end:
  "efold (piece_download_task 1) dl_broken_run dl_broken = Inr (dl_broken\<lparr>ds_file := [7],
     ds_threads := [DT_Exit 0, DT_Exit (-1)],
     ds_obj := (ds_obj dl_broken)\<lparr>ob_piece_flags := [PIECE_FINISHED, PIECE_AVAILABLE]\<rparr>\<rparr>)"
  by code_simp

text \<open>
  \<open>do_download\<close> reports success as soon as one of its threads does: its value is 0 if and only
  if some thread exited with 0, because the exit values are combined with a logical and. There is a
  run in which the owners are honest, one thread ends with 0 and another one fails with a piece in
  its hands, and the file that counts as downloaded is incomplete.
\<close>

lemma download_ok_but_incomplete:
  "(\<forall>rs. download_result rs = 0 \<longleftrightarrow> 0 \<in> set rs) \<and>
   (\<exists>s0 es s. download_begin ''1/a'' ''a'' 2 1 2 = Inr s0 \<and> honest_run 1 [7, 8] es s0 \<and>
      efold (piece_download_task 1) es s0 = Inr s \<and> all_exited s \<and> download_result (exit_values s) = 0 \<and>
      ds_file s = [7])"
proof
  show "\<forall>rs. download_result rs = 0 \<longleftrightarrow> 0 \<in> set rs" by (simp add: download_result_def join_all)
  let ?s = "dl_broken\<lparr>ds_file := [7], ds_threads := [DT_Exit 0, DT_Exit (-1)],
     ds_obj := (ds_obj dl_broken)\<lparr>ob_piece_flags := [PIECE_FINISHED, PIECE_AVAILABLE]\<rparr>\<rparr>"
  have "all_exited ?s" "download_result (exit_values ?s) = 0"
    by (simp_all add: all_exited_def exit_values_def download_result_def join_status_def)
  with dl_broken_begin dl_broken_honest dl_broken_end
  show "\<exists>s0 es s. download_begin ''1/a'' ''a'' 2 1 2 = Inr s0 \<and> honest_run 1 [7, 8] es s0 \<and>
      efold (piece_download_task 1) es s0 = Inr s \<and> all_exited s \<and> download_result (exit_values s) = 0 \<and>
      ds_file s = [7]" by (intro exI [of _ dl_broken] exI [of _ dl_broken_run] exI [of _ ?s]) simp
qed

text \<open>A download of no pieces: no thread ever holds one.\<close>

definition dl_empty :: "dl_state \<Rightarrow> bool" where
  "dl_empty s \<longleftrightarrow> ob_file_pieces (ds_obj s) = 0 \<and> ds_file s = [] \<and> (\<forall>t i. dl_at t s \<noteq> Some (DT_Piece i))"

lemma dl_empty_next: "dl_empty s \<Longrightarrow> next_piece t s = Inr (set_thread t (DT_Exit 0) s)"
  by (simp add: dl_empty_def next_piece_def get_new_piece_def)

lemma dl_empty_step:
  assumes "dl_empty s"
  shows "\<exists>s'. piece_download_task pl e s = Inr s' \<and> dl_empty s'"
proof -
  have set: "dl_empty (set_thread t x s)" if "\<And>i. x \<noteq> DT_Piece i" for t x
    using assms that by (auto simp: dl_empty_def dl_at_set)
  have "dl_at t s \<noteq> Some (DT_Piece i)" for t i using assms by (simp add: dl_empty_def)
  then show ?thesis
    using assms set dl_empty_next [OF assms]
    by (cases e) (auto split: option.split dl_thread.split)
qed

text \<open>The run in which each thread finds that there is nothing to do.\<close>

definition idle_run :: "nat \<Rightarrow> dl_event list" where
  "idle_run k = concat (map (\<lambda>t. [DL_Ready t, DL_Next t]) [0..<k])"

lemma idle_run_ends:
  assumes "dl_empty s" and "ds_threads s = replicate n DT_Init" and "k \<le> n"
  shows "\<exists>s'. efold (piece_download_task pl) (idle_run k) s = Inr s' \<and> dl_empty s' \<and>
     ds_threads s' = replicate k (DT_Exit 0) @ replicate (n - k) DT_Init"
  using assms(3)
proof (induction k)
  case 0
  then show ?case using assms by (simp add: idle_run_def)
next
  case (Suc k)
  then obtain s' where s': "efold (piece_download_task pl) (idle_run k) s = Inr s'" "dl_empty s'"
      "ds_threads s' = replicate k (DT_Exit 0) @ replicate (n - k) DT_Init" by auto
  let ?s1 = "set_thread k DT_Loop s'" and ?s2 = "set_thread k (DT_Exit 0) (set_thread k DT_Loop s')"
  have at: "dl_at k s' = Some DT_Init" "dl_at k ?s1 = Some DT_Loop"
    using s'(3) Suc.prems by (simp_all add: dl_at_def set_thread_def nth_append)
  have e1: "dl_empty ?s1" "dl_empty ?s2" using s'(2) by (auto simp: dl_empty_def dl_at_set)
  have "efold (piece_download_task pl) (idle_run (Suc k)) s = Inr ?s2"
    using s'(1) at dl_empty_next [OF e1(1)] by (simp add: idle_run_def efold_append)
  moreover have "replicate (n - k) DT_Init = DT_Init # replicate (n - Suc k) DT_Init"
    using Suc.prems by (simp add: Suc_diff_Suc flip: replicate_Suc)
  then have "ds_threads ?s2 = replicate (Suc k) (DT_Exit 0) @ replicate (n - Suc k) DT_Init"
    using s'(3) by (simp add: set_thread_def list_update_append replicate_append_same)
  ultimately show ?case using e1(2) by blast
qed

text \<open>
  C36. When the length of the file cannot be asked for, the local copy is destroyed and this counts as
  a success. \<open>get_file_len_from\<close> returns -1, which makes a file of no pieces (for a piece length of at least 2 that is an \<open>int\<close>): whatever the threads do, there
  is no error and when \<open>do_download\<close> returns the file is empty, whatever it held before; and in the run in which each of the
  threads reaches its owner and finds nothing to do, the value returned is 0.
\<close>

theorem unknown_length_counts_as_success:
  assumes "2 \<le> pl" and "pl < 2 ^ 31" and "owners \<noteq> []" and "length name < MAX_NAME_LEN" and "length sys_name < MAX_NAME_LEN"
    and "get_file_len_from connected name sk input = Inr (-1)"
  shows "(\<exists>r. do_download True connected sk input pl [] es name owners sys_name f = Inr r \<and>
        (\<forall>ret f'. r = Some (ret, f') \<longrightarrow> f' = Some [])) \<and>
     do_download True connected sk input pl [] (idle_run (length owners)) name owners sys_name f = Inr (Some (0, Some []))"
proof -
  have n: "file_pieces_of (sint (-1 :: u32)) pl = Inr 0" using assms(1,2) by (simp add: file_pieces_of_def c_int_def sdiv_nonneg)
  let ?s0 = "\<lparr>ds_obj = \<lparr>ob_logic_name = name, ob_sys_name = sys_name, ob_file_len = -1, ob_file_pieces = 0, ob_piece_flags = []\<rparr>,
     ds_file = [], ds_threads = replicate (length owners) DT_Init\<rparr>"
  have start: "download_begin name sys_name (-1) pl (length owners) = Inr ?s0"
    using n assms(4,5) by (simp add: download_begin_def download_obj_init_def strcpy_name_def)
  have e: "dl_empty ?s0" by (auto simp: dl_empty_def dl_at_def)
  note run = do_download_run [OF assms(3,6) n order_refl start]
  have "\<exists>s. efold (piece_download_task pl) es ?s0 = Inr s \<and> dl_empty s"
    by (rule efold_total [where I = dl_empty], rule e, rule dl_empty_step)
  then obtain s where s: "efold (piece_download_task pl) es ?s0 = Inr s" "dl_empty s" by blast
  from idle_run_ends [OF e, of "length owners" "length owners" pl] obtain s' where
    s': "efold (piece_download_task pl) (idle_run (length owners)) ?s0 = Inr s'" "dl_empty s'"
      "ds_threads s' = replicate (length owners) (DT_Exit 0)" by auto
  have "all_exited s'" by (simp add: all_exited_def s'(3) list_all_iff)
  moreover have "0 \<in> set (exit_values s')" using assms(3) by (simp add: exit_values_def s'(3))
  ultimately show ?thesis
    using run [OF s(1)] run [OF s'(1)] s(2) s'(2) by (auto simp: dl_empty_def download_result_def join_all)
qed

theorem unknown_length_counts_as_success_witness:
  "do_download True False \<lparr>wire_out = [], send_replies = []\<rparr> [] 512 [] (idle_run 1) ''1/a''
     [\<lparr>pid_ip = 7, pid_port = P2P_PORT\<rparr>] ''a'' (Some [1, 2, 3]) = Inr (Some (0, Some []))"
  using unknown_length_counts_as_success [of 512 "[\<lparr>pid_ip = 7, pid_port = P2P_PORT\<rparr>]" "''1/a''" "''a''" False
      "\<lparr>wire_out = [], send_replies = []\<rparr>" "[]" "[]" "Some [1, 2, 3]"]
  by (simp add: MAX_NAME_LEN_def get_file_len_from_def)

end
