(* ===== verification/ClientProps.thy ===== *)
theory ClientProps
  imports Client MonitorEvents DownloadProps
begin

text \<open>
  What the peer does with the news of the tracker. A broadcast acts on the file table, on the files and
  on the set of watched directories as a function on maps; the downloads it starts are those of the files
  that are new or newer. The hazards of a deletion, the download task as a whole, and the
  agreement of a peer with the tracker are shown from this.
\<close>

section \<open>Pointers stay valid\<close>

definition points_to :: "file_table \<Rightarrow> ptr \<Rightarrow> string \<Rightarrow> bool" where
  "points_to ft p n \<longleftrightarrow> (\<exists>fe. in_table ft p fe \<and> fe_name fe = n)"

lemma points_to_ptr: "ft_inv ft \<Longrightarrow> points_to ft p n \<Longrightarrow> ft_ptr ft n = p"
  by (auto simp: points_to_def ft_ptr_in)

lemma ft_ptr_points: "ft_rep ft M \<Longrightarrow> M n = Some fe \<Longrightarrow> points_to ft (ft_ptr ft n) n"
  unfolding points_to_def ft_rep_def using ft_map_Some ft_map_name by blast

lemma add_keeps:
  assumes inv: "ft_inv ft" and new: "ft_map ft (te_name te) = None" and q: "points_to ft q n"
    and run: "file_table_add ft te = Inr (p, ft')"
  shows "points_to ft' q n"
proof -
  from q obtain ge where ge: "in_table ft q ge" "fe_name ge = n" by (auto simp: points_to_def)
  have b: "q \<noteq> brk (ft_heap ft)" using brk_not_in_table [OF inv] ge(1) by (auto simp: in_table_def)
  have "file_table_search ft (te_name te) = Inr NULL"
    using file_table_search_ptr [OF inv] ft_map_None [OF inv] new by simp
  with run ge b show ?thesis
    by (auto simp: file_table_add_def file_entry_alloc_def file_entry_fill_from_def file_entry_add_def
        ebind_eq_Inr points_to_def in_table_def hnew_def split: prod.splits bool.splits if_splits)
qed

lemma delete_keeps:
  assumes inv: "ft_inv ft" and q: "points_to ft q n" and other: "n \<noteq> te_name te"
    and run: "file_table_delete ft te = Inr (r, ft')"
  shows "points_to ft' q n"
proof (cases "ft_map ft (te_name te)")
  case None
  with run q show ?thesis by (simp add: file_table_delete_def file_table_search_ptr [OF inv] ft_map_None [OF inv])
next
  case (Some fe)
  from q obtain ge where ge: "in_table ft q ge" "fe_name ge = n" by (auto simp: points_to_def)
  note p = ft_map_Some [OF inv Some]
  have ne: "q \<noteq> ft_ptr ft (te_name te)"
    using in_table_fun [OF p, of ge] ge other ft_map_name [OF inv Some] by auto
  from file_entry_delete_step [OF inv p] run in_table_not_null [OF inv p]
  have "file_htable ft' = bkt_del (ft_ptr ft (te_name te)) (file_htable ft)"
    "cells (ft_heap ft') = (cells (ft_heap ft))(ft_ptr ft (te_name te) := None)"
    by (auto simp: file_table_delete_def file_table_search_ptr [OF inv])
  with ge ne ft_inv_distinct [OF inv] show ?thesis by (auto simp: points_to_def in_table_def)
qed

section \<open>Learning an entry\<close>

text \<open>The owners of the news without this peer; the newest timestamp.\<close>

definition fresh_owners :: "u32 \<Rightarrow> trans_file_entry \<Rightarrow> peer_id list" where
  "fresh_owners my_ip te = remove_owner my_ip (owners_add (te_owner_list te) [])"

definition refreshed :: "u32 \<Rightarrow> trans_file_entry \<Rightarrow> file_entry \<Rightarrow> file_entry" where
  "refreshed my_ip te fe =
     fe\<lparr>fe_owners := fresh_owners my_ip te, fe_timestamp := max (te_timestamp te) (fe_timestamp fe)\<rparr>"

definition learn_map :: "u32 \<Rightarrow> trans_file_entry \<Rightarrow> file_map \<Rightarrow> file_map" where
  "learn_map my_ip te M =
     M(te_name te \<mapsto> (case M (te_name te) of None \<Rightarrow> entry_of te | Some fe \<Rightarrow> refreshed my_ip te fe))"

text \<open>The files to download: the name of the entry, when it is new or newer.\<close>

definition wanted :: "trans_file_entry \<Rightarrow> file_map \<Rightarrow> string list" where
  "wanted te M =
     (case M (te_name te) of
        None \<Rightarrow> [te_name te]
      | Some fe \<Rightarrow> if fe_timestamp fe < te_timestamp te then [te_name te] else [])"

lemma remove_owner_distinct:
  "distinct (map pid_ip ow) \<Longrightarrow> remove_owner i ow = filter (\<lambda>q. pid_ip q \<noteq> i) ow"
proof (induction ow)
  case (Cons p ow)
  then have "pid_ip p = i \<Longrightarrow> filter (\<lambda>q. pid_ip q \<noteq> i) ow = ow"
    by (intro filter_True) (auto intro: rev_image_eqI)
  with Cons show ?case by auto
qed simp

lemma fresh_owners_filter:
  "fresh_owners my_ip te = filter (\<lambda>q. pid_ip q \<noteq> my_ip) (owners_add (te_owner_list te) [])"
  by (simp add: fresh_owners_def remove_owner_distinct owners_add_distinct)

lemma refreshed_ok: "entry_ok fe \<Longrightarrow> entry_ok (refreshed my_ip te fe)"
proof -
  assume fe: "entry_ok fe"
  have "distinct (map pid_ip (fresh_owners my_ip te))"
    unfolding fresh_owners_filter by (rule distinct_map_filter) (simp add: owners_add_distinct)
  with fe show ?thesis by (simp add: refreshed_def entry_ok_def)
qed

lemma refresh_entry_eq:
  assumes rep: "ft_rep (cl_ft cl) M" and te: "te_ok te" and old: "M (te_name te) = Some fe"
  shows "\<exists>ft'. refresh_entry te (ft_ptr (cl_ft cl) (te_name te)) cl =
      Inr (cl\<lparr>cl_ft := ft', cl_downloads := cl_downloads cl @
            (if fe_timestamp fe < te_timestamp te then [ft_ptr (cl_ft cl) (te_name te)] else [])\<rparr>) \<and>
      ft_rep ft' (M(te_name te \<mapsto> refreshed (cl_ip cl) te fe)) \<and>
      (\<forall>q n. points_to (cl_ft cl) q n \<longrightarrow> points_to ft' q n)"
proof -
  let ?ft = "cl_ft cl" and ?fe = "refreshed (cl_ip cl) te fe"
  let ?p = "ft_ptr ?ft (te_name te)"
  let ?ft' = "?ft\<lparr>ft_heap := hput ?p ?fe (ft_heap ?ft)\<rparr>"
  have inv: "ft_inv ?ft" "ft_callocs ?ft = []" "ft_map ?ft = M" using rep by (simp_all add: ft_rep_def)
  have p: "in_table ?ft ?p fe" and name: "fe_name fe = te_name te"
    using ft_map_Some [OF inv(1)] ft_map_name [OF inv(1)] inv(3) old by simp_all
  have cell: "cells (ft_heap ?ft) ?p = Some fe" using p by (simp add: in_table_def)
  have al: "?ft\<lparr>ft_heap := h, ft_callocs := []\<rparr> = ?ft\<lparr>ft_heap := h\<rparr>" for h
    using inv(2) by (cases ?ft) simp
  have put: "hput ?p x (hput ?p y h) = hput ?p x h" for x y :: file_entry and h by (simp add: hput_def)
  have "refresh_entry te ?p cl = Inr (cl\<lparr>cl_ft := ?ft', cl_downloads := cl_downloads cl @
            (if fe_timestamp fe < te_timestamp te then [?p] else [])\<rparr>)"
    using cell inv(2) peer_id_list_add_all [OF te]
    by (auto simp: refresh_entry_def peer_id_list_replace_def peer_id_list_replace_fe_def peer_id_list_destroy_def
        peer_id_list_remove_myself_def fe_modify_def file_entry_update_timestamp_def al put start_download_def
        refreshed_def fresh_owners_def max_def not_less)
  moreover have "ft_inv ?ft'" "ft_map ?ft' = (ft_map ?ft)(fe_name fe \<mapsto> ?fe)"
    using ft_put [OF inv(1) p, of ?fe ?ft'] refreshed_ok [OF ft_inv_entry_ok [OF inv(1) p]]
    by (simp_all add: refreshed_def)
  moreover have "points_to ?ft' q n" if "points_to ?ft q n" for q n
    using that p name by (auto simp: points_to_def in_table_def refreshed_def)
  ultimately show ?thesis using inv name by (intro exI [of _ ?ft']) (auto simp: ft_rep_def)
qed


lemma learn_entry_eq:
  assumes rep: "ft_rep (cl_ft cl) M" and te: "te_ok te"
  shows "\<exists>ft'. learn_entry te cl =
      Inr (cl\<lparr>cl_ft := ft', cl_downloads := cl_downloads cl @ map (ft_ptr ft') (wanted te M)\<rparr>) \<and>
      ft_rep ft' (learn_map (cl_ip cl) te M) \<and> (\<forall>q n. points_to (cl_ft cl) q n \<longrightarrow> points_to ft' q n)"
proof (cases "M (te_name te)")
  case None
  have inv: "ft_inv (cl_ft cl)" "ft_map (cl_ft cl) (te_name te) = None" using rep None by (simp_all add: ft_rep_def)
  from ft_rep_add [OF rep te] obtain ft' where ft': "file_table_add (cl_ft cl) te = Inr (ft_ptr ft' (te_name te), ft')"
      "ft_rep ft' (map_exec (FT_Add te) M)" by blast
  have "learn_entry te cl = Inr (start_download (ft_ptr ft' (te_name te)) (cl\<lparr>cl_ft := ft'\<rparr>))"
    using ft_rep_find [OF rep, of te] None ft'(1) by (simp add: learn_entry_def)
  moreover have "map_exec (FT_Add te) M = learn_map (cl_ip cl) te M" using None by (simp add: learn_map_def add_spec_def)
  ultimately show ?thesis
    using ft'(2) None add_keeps [OF inv _ ft'(1)] by (auto simp: start_download_def wanted_def)
next
  case (Some fe)
  have find: "file_table_find (cl_ft cl) te = Inr (ft_ptr (cl_ft cl) (te_name te))" "ft_ptr (cl_ft cl) (te_name te) \<noteq> NULL"
    using ft_rep_find [OF rep, of te] Some by simp_all
  from refresh_entry_eq [OF rep te Some] obtain ft' where ft': "refresh_entry te (ft_ptr (cl_ft cl) (te_name te)) cl =
      Inr (cl\<lparr>cl_ft := ft', cl_downloads := cl_downloads cl @
            (if fe_timestamp fe < te_timestamp te then [ft_ptr (cl_ft cl) (te_name te)] else [])\<rparr>)"
      "ft_rep ft' (M(te_name te \<mapsto> refreshed (cl_ip cl) te fe))"
      "\<forall>q n. points_to (cl_ft cl) q n \<longrightarrow> points_to ft' q n" by blast
  have "points_to ft' (ft_ptr (cl_ft cl) (te_name te)) (te_name te)"
    using ft'(3) ft_ptr_points [OF rep Some] by blast
  then have "ft_ptr ft' (te_name te) = ft_ptr (cl_ft cl) (te_name te)"
    using ft'(2) points_to_ptr by (auto simp: ft_rep_def)
  with ft' find Some show ?thesis
    by (intro exI [of _ ft']) (simp add: learn_entry_def wanted_def learn_map_def)
qed

section \<open>Broadcasts\<close>

text \<open>What a peer is in the eyes of the tracker: its map of files, the files it has to download, the files
  it stores and the directories it watches, all by name; and the shell of its machine.\<close>

record peer_view =
  pv_map :: file_map
  pv_wanted :: "string list"
  pv_files :: files
  pv_dirs :: "string set"
  pv_shell :: "string \<Rightarrow> files \<Rightarrow> files"

definition dir_of :: "string \<Rightarrow> string option" where
  "dir_of n = map_option (\<lambda>i. take i n) (rindex slash n)"

definition view_delete :: "(string \<Rightarrow> string option) \<Rightarrow> trans_file_entry \<Rightarrow> peer_view \<Rightarrow> peer_view" where
  "view_delete R te v =
     (let n = te_name te; v = v\<lparr>pv_map := (pv_map v)(n := None)\<rparr> in
      case dir_of n of
        None \<Rightarrow> v
      | Some d \<Rightarrow>
          if te_file_type te = DIRECTORY
          then v\<lparr>pv_files := pv_shell v (rm_command (the (sys_of R n))) (pv_files v), pv_dirs := pv_dirs v - {n}\<rparr>
          else v\<lparr>pv_files := (pv_files v)(the (sys_of R n) := None)\<rparr>)"

definition view_learn :: "u32 \<Rightarrow> trans_file_entry \<Rightarrow> peer_view \<Rightarrow> peer_view" where
  "view_learn my_ip te v =
     v\<lparr>pv_map := learn_map my_ip te (pv_map v), pv_wanted := pv_wanted v @ wanted te (pv_map v)\<rparr>"

definition view_step :: "(string \<Rightarrow> string option) \<Rightarrow> u32 \<Rightarrow> trans_file_entry \<Rightarrow> peer_view \<Rightarrow> peer_view" where
  "view_step R my_ip te v =
     (if te_op_type te = FILE_ADD \<or> te_op_type te = FILE_MODIFY then view_learn my_ip te v
      else if te_op_type te = FILE_DELETE then view_delete R te v
      else v)"

text \<open>A deletion is safe when no download of the file is still to run and its directory is watched.\<close>

definition view_pre :: "(string \<Rightarrow> string option) \<Rightarrow> trans_file_entry \<Rightarrow> peer_view \<Rightarrow> bool" where
  "view_pre R te v \<longleftrightarrow> te_ok te \<and>
     (te_op_type te = FILE_DELETE \<longrightarrow> te_name te \<notin> set (pv_wanted v) \<and>
        (\<forall>d. dir_of (te_name te) = Some d \<longrightarrow> d \<in> pv_dirs v \<and> length (the (sys_of R (te_name te))) < MAX_NAME_LEN))"

definition cl_rep :: "(string \<Rightarrow> string option) \<Rightarrow> kernel \<Rightarrow> u32 \<Rightarrow> client \<Rightarrow> peer_view \<Rightarrow> bool" where
  "cl_rep R K my_ip cl v \<longleftrightarrow>
     ft_rep (cl_ft cl) (pv_map v) \<and> list_all2 (points_to (cl_ft cl)) (cl_downloads cl) (pv_wanted v) \<and>
     cl_files cl = pv_files v \<and> cl_shell cl = pv_shell v \<and> {l. logic_known (cl_mt cl) l} = pv_dirs v \<and>
     mt_ok R (cl_mt cl) \<and> kernel_fits K (cl_mt cl) \<and> mt_callocs (cl_mt cl) = [] \<and> cl_ip cl = my_ip"

lemma dir_of_Some:
  assumes "dir_of n = Some d"
  obtains f where "n = d @ slash # f" "slash \<notin> set f"
proof -
  from assms obtain i where i: "rindex slash n = Some i" "d = take i n" by (auto simp: dir_of_def)
  from i(1) show ?thesis by (rule rindex_SomeE) (use i(2) that in auto)
qed

lemma dir_of_file: "slash \<notin> set f \<Longrightarrow> dir_of (d @ slash # f) = Some d"
  by (simp add: dir_of_def rindex_slash)

lemma dir_of_None: "dir_of n = None \<longleftrightarrow> slash \<notin> set n"
  by (auto simp: dir_of_def rindex_def)

text \<open>A logic name is watched by one target only.\<close>

lemma target_unique_name:
  assumes ok: "mt_ok R mt" and fits: "kernel_fits K mt" and t: "target_at mt p t" "target_at mt q u" "t_logic_name t = t_logic_name u"
  shows "p = q"
proof -
  have "Some (t_sys_name t) = Some (t_sys_name u)" using ok t unfolding mt_ok_def mt_names_def by metis
  then have "t_sys_name t = t_sys_name u" by simp
  then have "t_wd t = t_wd u" using fits t(1,2) unfolding kernel_fits_def by metis
  with ok t show ?thesis using target_unique_wd unfolding mt_ok_def by blast
qed

lemma length_rm: "length (rm_command s) = length s + 6"
  by (simp add: rm_command_def)

lemma rmdir_eq:
  assumes ok: "mt_ok R mt" and fits: "kernel_fits K mt" and len: "length s < MAX_NAME_LEN"
  shows "\<exists>mt'. file_monitor_rmdir s l mt = Inr mt' \<and> mt_ok R mt' \<and> kernel_fits K mt' \<and> mt_callocs mt' = mt_callocs mt \<and>
     mt_calls mt' = mt_calls mt @ [FS_System (rm_command s)] \<and>
     (\<forall>q u. target_at mt' q u \<longleftrightarrow> target_at mt q u \<and> t_logic_name u \<noteq> l)"
proof -
  let ?mt = "mt\<lparr>mt_calls := mt_calls mt @ [FS_System (rm_command s)]\<rparr>"
  have inv: "mt_inv ?mt" "mt_ok R ?mt" "kernel_fits K ?mt" using ok fits by (simp_all add: mt_ok_def)
  have run: "file_monitor_rmdir s l mt = ebind (get_dir_target ?mt l) (\<lambda>p. if p = NULL then Inr ?mt else unwatch_and_free_target p ?mt)"
    using len length_rm by (simp add: file_monitor_rmdir_def MAX_LINE_def MAX_NAME_LEN_def Let_def)
  from inv(1) show ?thesis
  proof (cases rule: find_target [where l = l])
    case 1
    then show ?thesis using run inv by (auto simp: get_dir_target_def logic_known_def)
  next
    case (2 q t)
    have "file_monitor_rmdir s l mt = Inr (drop_target q t ?mt)"
      using run 2 unwatch_eq [OF inv(1) 2(4)] by (simp add: get_dir_target_def)
    moreover have "target_at (drop_target q t ?mt) r u \<longleftrightarrow> target_at mt r u \<and> t_logic_name u \<noteq> l" for r u
    proof -
      have "r = q" if "target_at mt r u" "t_logic_name u = l"
        using target_unique_name [OF inv(2,3), of r u q t] that 2(4,5) by simp
      moreover have "t_logic_name u = l" if "target_at mt q u" using that 2(4,5) target_at_fun [of ?mt q t u] by simp
      ultimately show ?thesis using drop_target_at [OF inv(1) 2(4), of r u] by auto
    qed
    moreover have "mt_callocs (drop_target q t ?mt) = mt_callocs mt" "mt_calls (drop_target q t ?mt) = mt_calls mt @ [FS_System (rm_command s)]"
      by (simp_all add: drop_target_def)
    ultimately show ?thesis using drop_target_ok [OF inv(2) 2(4)] inv(3) by (intro exI [of _ "drop_target q t ?mt"]) blast
  qed
qed

lemma known_by_targets: "(\<forall>q u. target_at mt' q u \<longleftrightarrow> target_at mt q u \<and> t_logic_name u \<noteq> l) \<Longrightarrow>
    {x. logic_known mt' x} = {x. logic_known mt x} - {l}"
  by (auto simp: logic_known_def)

lemma masked_known [simp]: "logic_known (masked w f mt) = logic_known mt" "mt_callocs (masked w f mt) = mt_callocs mt"
  "mt_calls (masked w f mt) = mt_calls mt"
  by (simp_all add: logic_known_def fun_eq_iff) (simp_all add: masked_def)

lemma monitor_sys_name:
  assumes ok: "mt_ok R mt" and al: "mt_callocs mt = []" and t: "target_at mt p t" "t_logic_name t = d"
    and n: "n = d @ slash # f" "slash \<notin> set f" and len: "length (the (sys_of R n)) < MAX_NAME_LEN"
  shows "monitor_get_sys_name n p mt = Inr (Some (the (sys_of R n)), mt)"
proof -
  have "rindex slash n = Some (length d)" "t_logic_name t = take (length d) n" using rindex_slash [OF n(2)] t(2) by (simp_all add: n(1))
  from sys_name_in_eq [OF conjunct2 [OF ok [unfolded mt_ok_def]] t(1) this] obtain s where "sys_of R n = Some s" "sys_name_in mt n p = strcpy_name s" by blast
  with len al show ?thesis by (cases mt) (simp add: monitor_get_sys_name_def strcpy_name_def)
qed

lemma unblock_eq:
  assumes "mt_inv (cl_mt cl)" and "kernel_fits K (cl_mt cl)" and "target_at (cl_mt cl) p t"
  shows "unblock K p cl = Inr (cl\<lparr>cl_mt := masked (t_wd t) DEFAULT_WATCH_MASK (cl_mt cl)\<rparr>)"
  by (simp add: unblock_def file_monitor_unblock_def watch_again_eq [OF assms])

lemma file_delete_eq:
  assumes ok: "mt_ok R (cl_mt cl)" and fits: "kernel_fits K (cl_mt cl)" and al: "mt_callocs (cl_mt cl) = []"
    and d: "dir_of (te_name te) = Some d" "logic_known (cl_mt cl) d" and len: "length (the (sys_of R (te_name te))) < MAX_NAME_LEN"
  shows "\<exists>mt'. file_delete K te cl = Inr (cl\<lparr>cl_mt := mt', cl_files :=
        (if te_file_type te = DIRECTORY then cl_shell cl (rm_command (the (sys_of R (te_name te)))) (cl_files cl)
         else (cl_files cl)(the (sys_of R (te_name te)) := None))\<rparr>) \<and>
      mt_ok R mt' \<and> kernel_fits K mt' \<and> mt_callocs mt' = [] \<and>
      mt_calls mt' = mt_calls (cl_mt cl) @ [if te_file_type te = DIRECTORY then FS_System (rm_command (the (sys_of R (te_name te)))) else FS_Unlink (the (sys_of R (te_name te)))] \<and>
      {l. logic_known mt' l} = {l. logic_known (cl_mt cl) l} - (if te_file_type te = DIRECTORY then {te_name te} else {})"
proof -
  let ?n = "te_name te" and ?mt = "cl_mt cl" and ?s = "the (sys_of R (te_name te))"
  have inv: "mt_inv ?mt" using ok by (simp add: mt_ok_def)
  from d(1) obtain f where f: "?n = d @ slash # f" "slash \<notin> set f" by (rule dir_of_Some)
  from block_known [OF inv fits f d(2)] obtain p t where
    p: "file_monitor_block K ?n True ?mt = Inr (p, masked (t_wd t) BLOCK_ALL_MASK ?mt)" "target_at ?mt p t" "t_logic_name t = d"
    by blast
  let ?m1 = "masked (t_wd t) BLOCK_ALL_MASK ?mt"
  have m1: "mt_ok R ?m1" "kernel_fits K ?m1" "mt_inv ?m1" "mt_callocs ?m1 = []" "target_at ?m1 p t" using ok fits inv al p(2) by simp_all
  have nn: "p \<noteq> NULL" using target_not_null [OF inv p(2)] .
  have sys: "monitor_get_sys_name ?n p ?m1 = Inr (Some ?s, ?m1)" by (rule monitor_sys_name [OF m1(1,4,5) p(3) f len])
  show ?thesis
  proof (cases "te_file_type te = DIRECTORY")
    case True
    from rmdir_eq [OF m1(1,2) len, of ?n] obtain m2 where m2: "file_monitor_rmdir ?s ?n ?m1 = Inr m2" "mt_ok R m2" "kernel_fits K m2"
        "mt_callocs m2 = []" "mt_calls m2 = mt_calls ?mt @ [FS_System (rm_command ?s)]"
        "\<forall>q u. target_at m2 q u \<longleftrightarrow> target_at ?mt q u \<and> t_logic_name u \<noteq> ?n"
      using m1(4) by auto
    have m2': "mt_inv m2" "target_at m2 p t" using m2(2,6) p(2,3) f(1) by (simp_all add: mt_ok_def)
    have "file_delete K te cl = Inr (cl\<lparr>cl_mt := masked (t_wd t) DEFAULT_WATCH_MASK m2, cl_files := cl_shell cl (rm_command ?s) (cl_files cl)\<rparr>)"
      using p(1) nn sys True m2(1) unblock_eq [of "cl\<lparr>cl_mt := m2, cl_files := cl_shell cl (rm_command ?s) (cl_files cl)\<rparr>" K p t] m2' m2(3)
      by (simp add: file_delete_def)
    with m2 True known_by_targets [OF m2(6)] show ?thesis by (intro exI [of _ "masked (t_wd t) DEFAULT_WATCH_MASK m2"]) simp
  next
    case False
    let ?m2 = "?m1\<lparr>mt_calls := mt_calls ?m1 @ [FS_Unlink ?s]\<rparr>"
    have m2: "mt_inv ?m2" "kernel_fits K ?m2" "target_at ?m2 p t" "mt_ok R ?m2" using m1 by (simp_all add: mt_ok_def)
    have known: "logic_known ?m2 = logic_known ?mt" by (simp add: logic_known_def fun_eq_iff)
    have "file_delete K te cl = Inr (cl\<lparr>cl_mt := masked (t_wd t) DEFAULT_WATCH_MASK ?m2, cl_files := (cl_files cl)(?s := None)\<rparr>)"
      using p(1) nn sys False unblock_eq [of "cl\<lparr>cl_mt := ?m2, cl_files := (cl_files cl)(?s := None)\<rparr>" K p t] m2
      by (simp add: file_delete_def)
    with m2 m1 False known al show ?thesis by (intro exI [of _ "masked (t_wd t) DEFAULT_WATCH_MASK ?m2"]) simp
  qed
qed


interpretation brd: data_refinement "cl_rep R K my_ip" "broadcast_entry_handler K" "view_step R my_ip" "view_pre R"
proof
  fix cl v te
  assume rep: "cl_rep R K my_ip cl v" and pre: "view_pre R te v"
  have te: "te_ok te" using pre by (simp add: view_pre_def)
  have ft: "ft_rep (cl_ft cl) (pv_map v)" and dl: "list_all2 (points_to (cl_ft cl)) (cl_downloads cl) (pv_wanted v)"
    and ip: "cl_ip cl = my_ip" using rep by (simp_all add: cl_rep_def)
  consider (learn) "te_op_type te = FILE_ADD \<or> te_op_type te = FILE_MODIFY" | (del) "te_op_type te = FILE_DELETE"
    | (other) "te_op_type te \<notin> {FILE_ADD, FILE_DELETE, FILE_MODIFY}" by blast
  then show "\<exists>cl'. broadcast_entry_handler K te cl = Inr cl' \<and> cl_rep R K my_ip cl' (view_step R my_ip te v)"
  proof cases
    case learn
    from learn_entry_eq [OF ft te] obtain ft' where ft': "learn_entry te cl =
        Inr (cl\<lparr>cl_ft := ft', cl_downloads := cl_downloads cl @ map (ft_ptr ft') (wanted te (pv_map v))\<rparr>)"
        "ft_rep ft' (learn_map my_ip te (pv_map v))" "\<forall>q n. points_to (cl_ft cl) q n \<longrightarrow> points_to ft' q n"
      using ip by auto
    have "list_all2 (points_to ft') (map (ft_ptr ft') (wanted te (pv_map v))) (wanted te (pv_map v))"
      using ft_ptr_points [OF ft'(2), of "te_name te"] by (auto simp: wanted_def learn_map_def split: option.split)
    moreover have "list_all2 (points_to ft') (cl_downloads cl) (pv_wanted v)"
      using dl by (rule list_all2_mono) (use ft'(3) in blast)
    moreover have "broadcast_entry_handler K te cl = learn_entry te cl"
      using learn by (auto simp: broadcast_entry_handler_def op_type_defs)
    ultimately show ?thesis using ft' rep learn
      by (simp add: cl_rep_def view_step_def view_learn_def list_all2_appendI)
  next
    case del
    have pre': "te_name te \<notin> set (pv_wanted v)" "\<And>d. dir_of (te_name te) = Some d \<Longrightarrow>
        d \<in> pv_dirs v \<and> length (the (sys_of R (te_name te))) < MAX_NAME_LEN"
      using pre del by (simp_all add: view_pre_def)
    from ft_rep_delete [OF ft, of te] obtain ft' r where ft': "file_table_delete (cl_ft cl) te = Inr (r, ft')"
        "ft_rep ft' ((pv_map v)(te_name te := None))" by auto
    have "list_all2 (points_to ft') (cl_downloads cl) (pv_wanted v)"
    proof -
      have "points_to ft' q n" if "n \<in> set (pv_wanted v)" "points_to (cl_ft cl) q n" for q n
        using that delete_keeps [OF _ that(2) _ ft'(1)] ft pre'(1) by (auto simp: ft_rep_def)
      with dl show ?thesis unfolding list_all2_conv_all_nth by (metis nth_mem)
    qed
    then have rep1: "cl_rep R K my_ip (cl\<lparr>cl_ft := ft'\<rparr>) (v\<lparr>pv_map := (pv_map v)(te_name te := None)\<rparr>)"
      using rep ft'(2) by (simp add: cl_rep_def)
    have run: "broadcast_entry_handler K te cl = file_delete K te (cl\<lparr>cl_ft := ft'\<rparr>)"
      using del ft'(1) by (simp add: broadcast_entry_handler_def op_type_defs)
    have step: "view_step R my_ip te v = view_delete R te v" using del by (simp add: view_step_def op_type_defs)
    show ?thesis
    proof (cases "dir_of (te_name te)")
      case None
      then have "file_delete K te (cl\<lparr>cl_ft := ft'\<rparr>) = Inr (cl\<lparr>cl_ft := ft'\<rparr>)"
        by (simp add: dir_of_None file_delete_def file_monitor_block_def index_of_def)
      with run step rep1 None show ?thesis by (simp add: view_delete_def Let_def)
    next
      case (Some d)
      have mt: "mt_ok R (cl_mt cl)" "kernel_fits K (cl_mt cl)" "mt_callocs (cl_mt cl) = []" "logic_known (cl_mt cl) d"
        "{l. logic_known (cl_mt cl) l} = pv_dirs v"
        using rep pre'(2) [OF Some] by (auto simp: cl_rep_def)
      from file_delete_eq [of R "cl\<lparr>cl_ft := ft'\<rparr>" K te d] mt Some pre'(2) [OF Some] run rep1
      show ?thesis unfolding step by (auto simp: view_delete_def Let_def cl_rep_def)
    qed
  next
    case other
    then have "broadcast_entry_handler K te cl = Inr cl" "view_step R my_ip te v = v"
      by (auto simp: broadcast_entry_handler_def view_step_def)
    with rep show ?thesis by simp
  qed
qed



definition remove_tree :: "string \<Rightarrow> files \<Rightarrow> files" where
  "remove_tree dir files = (\<lambda>path. if path = dir \<or> take (length dir + 1) path = dir @ [slash] then None else files path)"








text \<open>A peer that watches one directory and stores a file in it and a file below it; the tracker announces another file,
  the deletion of the first and the deletion of the directory of the second. The shell of the example knows one command.\<close>

definition sh_example :: "string \<Rightarrow> files \<Rightarrow> files" where
  "sh_example cmd files = (if take 6 cmd = ''rm -r '' then remove_tree (drop 6 cmd) files else files)"


definition files_example :: files where
  "files_example = [''/home/b'' \<mapsto> [1], ''/home/d/x'' \<mapsto> [2], ''/home/dx'' \<mapsto> [3]]"

definition cl_example :: client where
  "cl_example = \<lparr>cl_ip = 9, cl_ctr = \<lparr>ci_interval = 10, ci_piece_len = 2\<rparr>, cl_ft = ft_start, cl_mt = mt_example,
     cl_sock = \<lparr>wire_out = [], send_replies = []\<rparr>, cl_files = files_example, cl_shell = sh_example, cl_downloads = [], cl_callocs = []\<rparr>"

definition view_example :: peer_view where
  "view_example = \<lparr>pv_map = (\<lambda>_. None), pv_wanted = [], pv_files = files_example, pv_dirs = {''1''}, pv_shell = sh_example\<rparr>"

lemma cl_example_rep: "cl_rep R_example K_example 9 cl_example view_example"
proof -
  have "{l. logic_known mt_example l} = {''1''}" by (auto simp: logic_known_def mt_example_at)
  moreover have "mt_callocs mt_example = []" by (simp add: mt_example_def add_target_def)
  ultimately show ?thesis
    using ft_start_rep mt_example_ok K_example_fits by (simp add: cl_rep_def cl_example_def view_example_def)
qed

definition te_add :: trans_file_entry where
  "te_add = (te_example ''1/a'' 5 7)\<lparr>te_op_type := FILE_ADD\<rparr>"

definition te_del :: trans_file_entry where
  "te_del = (te_example ''1/b'' 5 7)\<lparr>te_op_type := FILE_DELETE\<rparr>"

definition te_rmdir :: trans_file_entry where
  "te_rmdir = (te_example ''1/d'' 5 7)\<lparr>te_op_type := FILE_DELETE, te_file_type := DIRECTORY\<rparr>"

lemma te_rmdir_simps [simp]: "te_name te_rmdir = ''1/d''" "te_op_type te_rmdir = FILE_DELETE" "te_file_type te_rmdir = DIRECTORY"
  by (simp_all add: te_rmdir_def te_example_def)

lemma te_names [simp]: "te_name te_add = ''1/a''" "te_name te_del = ''1/b''" "te_op_type te_add = FILE_ADD"
  "te_op_type te_del = FILE_DELETE" "te_timestamp te_add = 5" "te_file_type te_del = REGULAR"
  by (simp_all add: te_add_def te_del_def te_example_def te_zero_def REGULAR_def)

lemma te_add_ok: "te_ok te_add" "te_ok te_del" "te_ok te_rmdir"
  using te_example_ok [of "''1/a''" 5 7] te_example_ok [of "''1/b''" 5 7] te_example_ok [of "''1/d''" 5 7]
  by (simp_all add: te_add_def te_del_def te_rmdir_def te_ok_def MAX_NAME_LEN_def te_owner_list_def)

lemma dir_of_example: "dir_of ''1/a'' = Some ''1''" "dir_of ''1/b'' = Some ''1''" "dir_of ''1/d'' = Some ''1''"
  by (simp_all add: dir_of_def rindex_def slash_def)

lemma sys_of_example: "sys_of R_example ''1/d'' = Some ''/home/d''" "sys_of R_example ''1/b'' = Some ''/home/b''" "sys_of R_example ''1/a'' = Some ''/home/a''"
  by (simp_all add: sys_of_def R_example_def slash_def)




section \<open>Hazards of a deletion\<close>

lemma delete_dangling:
  assumes "ft_inv ft" and "points_to ft p (te_name te)" and "file_table_delete ft te = Inr (r, ft')"
  shows "hget (ft_heap ft') p = Inl Bad_Pointer"
proof -
  from assms(2) obtain fe where p: "in_table ft p fe" "fe_name fe = te_name te" by (auto simp: points_to_def)
  have "ft_ptr ft (te_name te) = p" using points_to_ptr assms(1,2) by blast
  with assms(3) file_entry_delete_step [OF assms(1) p(1)] in_table_not_null [OF assms(1) p(1)] show ?thesis
    by (auto simp: file_table_delete_def file_table_search_ptr [OF assms(1)] hget_def)
qed

text \<open>
  C35. Two ways in which the deletion of a file that the tracker announces brings the peer down. If the
  directory of the file is not watched, \<open>file_monitor_block\<close> locks the mutex of the null pointer.
  If a download of the file has been started and has not run yet, the entry is freed, and whatever the
  download meets, its first step reads freed memory.
\<close>

theorem deletion_hazards:
  assumes "cl_rep R K my_ip cl v" and "te_op_type te = FILE_DELETE" and "dir_of (te_name te) = Some d"
  shows "(d \<notin> pv_dirs v \<longrightarrow> broadcast_entry_handler K te cl = Inl Bad_Pointer) \<and>
     (d \<in> pv_dirs v \<and> length (the (sys_of R (te_name te))) < MAX_NAME_LEN \<and> i < length (pv_wanted v) \<and> pv_wanted v ! i = te_name te \<longrightarrow>
        (\<exists>cl'. broadcast_entry_handler K te cl = Inr cl' \<and> cl_exec K' st (C_Download i env) cl' = Inl Bad_Pointer))"
proof -
  have ft: "ft_rep (cl_ft cl) (pv_map v)" "ft_inv (cl_ft cl)" and mt: "mt_ok R (cl_mt cl)" "mt_inv (cl_mt cl)" "kernel_fits K (cl_mt cl)"
      "mt_callocs (cl_mt cl) = []" "{l. logic_known (cl_mt cl) l} = pv_dirs v"
    and dl: "list_all2 (points_to (cl_ft cl)) (cl_downloads cl) (pv_wanted v)"
    using assms(1) by (simp_all add: cl_rep_def ft_rep_def mt_ok_def)
  from ft_rep_delete [OF ft(1), of te] obtain r ft' where ft': "file_table_delete (cl_ft cl) te = Inr (r, ft')" by blast
  then have run: "broadcast_entry_handler K te cl = file_delete K te (cl\<lparr>cl_ft := ft'\<rparr>)"
    using assms(2) by (simp add: broadcast_entry_handler_def op_type_defs)
  from assms(3) obtain f where f: "te_name te = d @ slash # f" "slash \<notin> set f" by (rule dir_of_Some)
  show ?thesis
  proof (intro conjI impI)
    assume "d \<notin> pv_dirs v"
    then have "\<not> logic_known (cl_mt cl) d" using mt(5) by blast
    with mt(2) have "find_logic (mt_heap (cl_mt cl)) d (mt_head (cl_mt cl)) = Inr NULL"
      by (cases rule: find_target [where l = d]) auto
    then show "broadcast_entry_handler K te cl = Inl Bad_Pointer"
      using run rindex_slash [OF f(2)] by (simp add: file_delete_def file_monitor_block_def index_of_def get_file_target_def f(1))
  next
    assume *: "d \<in> pv_dirs v \<and> length (the (sys_of R (te_name te))) < MAX_NAME_LEN \<and> i < length (pv_wanted v) \<and> pv_wanted v ! i = te_name te"
    then have "logic_known (cl_mt cl) d" using mt(5) by blast
    with file_delete_eq [of R "cl\<lparr>cl_ft := ft'\<rparr>" K te d] mt assms(3) * obtain cl' where
      cl': "file_delete K te (cl\<lparr>cl_ft := ft'\<rparr>) = Inr cl'" "cl_ft cl' = ft'" "cl_downloads cl' = cl_downloads cl" by auto
    have "points_to (cl_ft cl) (cl_downloads cl ! i) (te_name te)" "i < length (cl_downloads cl)"
      using dl * by (auto simp: list_all2_conv_all_nth)
    with delete_dangling [OF ft(2) _ ft'] cl' have "cl_exec K' st (C_Download i env) cl' = Inl Bad_Pointer"
      by (simp add: ptop_download_task_def)
    with run cl'(1) show "\<exists>cl'. broadcast_entry_handler K te cl = Inr cl' \<and> cl_exec K' st (C_Download i env) cl' = Inl Bad_Pointer"
      by auto
  qed
qed


text \<open>The same peer when the download of the file is started, and when it watches nothing.\<close>

lemma cl_example_learnt:
  "\<exists>cl'. broadcast_entry_handler K_example te_add cl_example = Inr cl' \<and>
     cl_rep R_example K_example 9 cl' (view_learn 9 te_add view_example)"
proof -
  have "view_pre R_example te_add view_example" by (simp add: view_pre_def te_add_ok op_type_defs)
  from brd.exec_step [OF cl_example_rep this] show ?thesis by (simp add: view_step_def)
qed

lemma cl_blind_rep: "cl_rep R_example K_example 9 (cl_example\<lparr>cl_mt := mt_start\<rparr>) (view_example\<lparr>pv_dirs := {}\<rparr>)"
proof -
  have "mt_ok R_example mt_start" using mt_start_inv mt_start_at by (simp add: mt_ok_def mt_names_def)
  moreover have "kernel_fits K_example mt_start"
    using K_example_fits mt_start_at by (simp add: kernel_fits_def)
  moreover have "mt_callocs mt_start = []" "\<And>l. \<not> logic_known mt_start l" using mt_start_at by (simp_all add: mt_start_def logic_known_def)
  ultimately show ?thesis using cl_example_rep by (simp add: cl_rep_def)
qed

theorem deletion_hazards_witness:
  "broadcast_entry_handler K_example te_del (cl_example\<lparr>cl_mt := mt_start\<rparr>) = Inl Bad_Pointer \<and>
   (\<exists>cl cl'. broadcast_entry_handler K_example te_add cl_example = Inr cl \<and>
      broadcast_entry_handler K_example (te_add\<lparr>te_op_type := FILE_DELETE\<rparr>) cl = Inr cl' \<and>
      cl_exec K_example (\<lambda>_. None) (C_Download 0 \<lparr>de_made = True, de_opened = True, de_connected = True,
        de_sock = \<lparr>wire_out = [], send_replies = []\<rparr>, de_input = [], de_callocs = [], de_events = []\<rparr>) cl' = Inl Bad_Pointer)"
    (is "_ \<and> (\<exists>cl cl'. _ \<and> _ \<and> cl_exec _ _ (C_Download 0 ?env) _ = _)")
proof
  show "broadcast_entry_handler K_example te_del (cl_example\<lparr>cl_mt := mt_start\<rparr>) = Inl Bad_Pointer"
    using deletion_hazards [OF cl_blind_rep, of te_del "''1''"] by (simp add: dir_of_example)
  from cl_example_learnt obtain cl where cl: "broadcast_entry_handler K_example te_add cl_example = Inr cl"
    "cl_rep R_example K_example 9 cl (view_learn 9 te_add view_example)" by blast
  have v: "pv_wanted (view_learn 9 te_add view_example) = [''1/a'']" "pv_dirs (view_learn 9 te_add view_example) = {''1''}"
    by (simp_all add: view_learn_def view_example_def wanted_def)
  from deletion_hazards [OF cl(2), of "te_add\<lparr>te_op_type := FILE_DELETE\<rparr>" "''1''" 0 K_example "\<lambda>_. None" ?env] cl(1)
  show "\<exists>cl cl'. broadcast_entry_handler K_example te_add cl_example = Inr cl \<and>
      broadcast_entry_handler K_example (te_add\<lparr>te_op_type := FILE_DELETE\<rparr>) cl = Inr cl' \<and>
      cl_exec K_example (\<lambda>_. None) (C_Download 0 ?env) cl' = Inl Bad_Pointer"
    by (auto simp: dir_of_example sys_of_example v MAX_NAME_LEN_def)
qed

section \<open>The download task\<close>

text \<open>The report with which a peer announces that it has got a file.\<close>

definition own_entry :: "u32 \<Rightarrow> file_entry \<Rightarrow> trans_file_entry" where
  "own_entry my_ip fe = \<lparr>te_name = fe_name fe, te_timestamp = fe_timestamp fe, te_op_type = FILE_MODIFY,
     te_file_type = ucast (fe_type fe), te_owner_n = 1, te_owners = me my_ip # replicate 15 pid_zero\<rparr>"

definition own_report :: "u32 \<Rightarrow> file_entry \<Rightarrow> ptot_packet" where
  "own_report my_ip fe =
     \<lparr>ptot_hdr = \<lparr>ph_protocol_name = [], ph_type = PEER_FILE_UPDATE, ph_ip = my_ip, ph_port = P2P_PORT, ph_data_len = 276\<rparr>,
      ptot_data = field 0 276 (table_bytes (tft_of [own_entry my_ip fe]))\<rparr>"

lemma notify_eq:
  assumes "cl_callocs cl = []" and "length (fe_name fe) < MAX_NAME_LEN"
  shows "notify_tracker_add_me fe cl = Inr (cl\<lparr>cl_sock := snd (send_ptot_packet (own_report (cl_ip cl) fe) (cl_sock cl))\<rparr>)"
proof -
  have "append_me (cl_ip cl) (te_zero\<lparr>te_name := fe_name fe, te_timestamp := fe_timestamp fe,
      te_file_type := ucast (fe_type fe), te_op_type := FILE_MODIFY\<rparr>) = Inr (own_entry (cl_ip cl) fe)"
    by (simp add: append_me_def te_zero_def MAX_PEER_ENTRIES_def own_entry_def numeral_eq_Suc)
  moreover have "ptot_packet_fill (ptot_packet_init (cl_ip cl) PEER_FILE_UPDATE) (table_bytes \<lparr>tft_n = 1, tft_entries = [te]\<rparr>)
      (sint (ucast (trans_table_len \<lparr>tft_n = 1, tft_entries = [te]\<rparr>) :: u32)) =
     Inr (ptot_packet_init (cl_ip cl) PEER_FILE_UPDATE \<lparr>ptot_data := field 0 276 (table_bytes \<lparr>tft_n = 1, tft_entries = [te]\<rparr>),
       ptot_hdr := (ptot_hdr (ptot_packet_init (cl_ip cl) PEER_FILE_UPDATE))\<lparr>ph_data_len := 276\<rparr>\<rparr>)" for te
    by (simp add: ptot_packet_fill_def data_copy_def trans_table_len_def MAX_PKT_DATA_LEN_def ptot_packet_init_def)
  ultimately show ?thesis using assms
    by (cases cl) (simp add: notify_tracker_add_me_def strcpy_name_def cl_send_def own_report_def ptot_packet_init_def
        tft_of_def Let_def split: prod.split)
qed


text \<open>
  C14. A download task does what it announces, and announces what it did. Let the entry it was started for
  be a regular file in a watched directory, and let \<open>do_download\<close> return \<open>ret\<close> and leave the file as
  \<open>f\<close>. Then the task ends with \<open>ret\<close>; the only file that has changed is the one at the place of the
  system that belongs to the name; if and only if \<open>ret\<close> is 0, its modification time is set to the timestamp of
  the entry and the tracker is told that this peer owns this version. The directory is watched with the
  usual mask again, and file table and monitor are in the state before.
\<close>

theorem download_task_announces:
  assumes ok: "mt_ok R (cl_mt cl)" and fits: "kernel_fits K (cl_mt cl)" and al: "mt_callocs (cl_mt cl) = []" "cl_callocs cl = []"
    and fe: "hget (ft_heap (cl_ft cl)) p = Inr fe" "fe_type fe = ucast REGULAR" "length (fe_name fe) < MAX_NAME_LEN"
    and d: "dir_of (fe_name fe) = Some d" "target_at (cl_mt cl) q t" "t_logic_name t = d"
    and s: "sys_of R (fe_name fe) = Some s" "length s < MAX_NAME_LEN"
    and run: "do_download (de_opened env) (de_connected env) (de_sock env) (de_input env) (ci_piece_len (cl_ctr cl))
        (de_callocs env) (de_events env) (fe_name fe) (fe_owners fe) s (cl_files cl s) = Inr (Some (ret, f))"
  shows "ptop_download_task K env p cl = Inr (Some (ret, cl\<lparr>cl_files := (cl_files cl)(s := f),
     cl_mt := (cl_mt cl)\<lparr>mt_masks := (mt_masks (cl_mt cl))(t_wd t \<mapsto> DEFAULT_WATCH_MASK),
        mt_calls := mt_calls (cl_mt cl) @ (if ret = 0 then [FS_Utime s (fe_timestamp fe)] else [])\<rparr>,
     cl_sock := (if ret = 0 then snd (send_ptot_packet (own_report (cl_ip cl) fe) (cl_sock cl)) else cl_sock cl)\<rparr>))"
proof -
  let ?n = "fe_name fe" and ?mt = "cl_mt cl"
  have inv: "mt_inv ?mt" using ok by (simp add: mt_ok_def)
  from d(1) obtain b where b: "?n = d @ slash # b" "slash \<notin> set b" by (rule dir_of_Some)
  have known: "logic_known ?mt d" using d(2,3) by (auto simp: logic_known_def)
  from block_known [OF inv fits b known] obtain r u where
    r: "file_monitor_block K ?n False ?mt = Inr (r, masked (t_wd u) BLOCK_ALL_MASK ?mt)" "target_at ?mt r u" "t_logic_name u = d"
    by blast
  have u: "r = q" "u = t" using target_unique_name [OF ok fits r(2) d(2)] r(2,3) d(2,3) target_at_fun by auto
  let ?m1 = "masked (t_wd t) BLOCK_ALL_MASK ?mt"
  have m1: "mt_ok R ?m1" "kernel_fits K ?m1" "mt_callocs ?m1 = []" "target_at ?m1 q t" using ok fits al d(2) by simp_all
  have sys: "monitor_get_sys_name ?n q ?m1 = Inr (Some s, ?m1)"
    using monitor_sys_name [OF m1(1,3,4) d(3) b] s by simp
  have nn: "q \<noteq> NULL" using target_not_null [OF inv d(2)] .
  have ty: "fe_type fe \<noteq> ucast DIRECTORY" by (simp add: fe(2) REGULAR_def DIRECTORY_def)
  let ?c1 = "cl\<lparr>cl_mt := ?m1\<rparr>"
  let ?c2 = "?c1\<lparr>cl_files := (cl_files cl)(s := f)\<rparr>"
  have ft: "fetch K env fe s ?c1 = Inr (Some (ret, ?c2))" using run ty by (simp add: fetch_def)
  let ?m3 = "?m1\<lparr>mt_calls := mt_calls ?mt @ (if ret = 0 then [FS_Utime s (fe_timestamp fe)] else [])\<rparr>"
  let ?c3 = "?c2\<lparr>cl_mt := ?m3, cl_sock := (if ret = 0 then snd (send_ptot_packet (own_report (cl_ip cl) fe) (cl_sock cl)) else cl_sock cl)\<rparr>"
  have fin: "finish_download ret fe s ?c2 = Inr ?c3"
    using notify_eq [of "?c2\<lparr>cl_mt := file_change_modtime s (fe_timestamp fe) ?m1\<rparr>" fe] al(2) fe(3)
    by (simp add: finish_download_def file_change_modtime_def masked_def)
  have m3: "mt_inv ?m3" "kernel_fits K ?m3" "target_at ?m3 q t" using m1 by (simp_all add: mt_ok_def)
  have "unblock K q ?c3 = Inr (?c3\<lparr>cl_mt := masked (t_wd t) DEFAULT_WATCH_MASK ?m3\<rparr>)"
    using unblock_eq [of ?c3 K q t] m3 by simp
  then show ?thesis
    using fe(1) r(1) u nn sys ft fin by (simp add: ptop_download_task_def masked_def)
qed


text \<open>The peer of the example fetches three bytes in two pieces.\<close>

definition fe_example :: file_entry where
  "fe_example = \<lparr>fe_name = ''1/a'', fe_timestamp = 5, fe_type = 0, fe_owners = [\<lparr>pid_ip = 7, pid_port = P2P_PORT\<rparr>]\<rparr>"

definition cl_loading :: client where
  "cl_loading = cl_example\<lparr>cl_ft := ft_start\<lparr>ft_heap := \<lparr>cells = [1 \<mapsto> fe_example], brk = 2\<rparr>\<rparr>\<rparr>"

definition env_example :: dl_env where
  "env_example = \<lparr>de_made = True, de_opened = True, de_connected = True, de_sock = \<lparr>wire_out = [], send_replies = []\<rparr>,
     de_input = len_answer, de_callocs = [], de_events = dl_example_run\<rparr>"

lemma env_example_download:
  "do_download True True \<lparr>wire_out = [], send_replies = []\<rparr> len_answer 2 [] dl_example_run ''1/a''
     [\<lparr>pid_ip = 7, pid_port = P2P_PORT\<rparr>] ''/home/a'' None = Inr (Some (0, Some [7, 8, 9]))"
proof -
  let ?ob = "\<lparr>ob_logic_name = ''1/a'', ob_sys_name = ''/home/a'', ob_file_len = 3, ob_file_pieces = 2,
     ob_piece_flags = [PIECE_AVAILABLE, PIECE_AVAILABLE]\<rparr>"
  let ?s0 = "\<lparr>ds_obj = ?ob, ds_file = [], ds_threads = [DT_Init]\<rparr>"
  let ?s1 = "\<lparr>ds_obj = ?ob\<lparr>ob_piece_flags := [PIECE_FINISHED, PIECE_FINISHED]\<rparr>, ds_file = [7, 8, 9], ds_threads = [DT_Exit 0]\<rparr>"
  have start: "download_begin ''1/a'' ''/home/a'' 3 2 (length [\<lparr>pid_ip = 7, pid_port = P2P_PORT\<rparr>]) = Inr ?s0"
    by code_simp
  have run: "efold (piece_download_task 2) dl_example_run ?s0 = Inr ?s1" by code_simp
  have n: "file_pieces_of (sint (3 :: u32)) 2 = Inr 2" by code_simp
  from do_download_run [OF _ len_answer_read n _ start run] show ?thesis
    by (simp add: all_exited_def exit_values_def download_result_def join_status_def)
qed

theorem download_task_announces_witness:
  "\<exists>cl'. ptop_download_task K_example env_example 1 cl_loading = Inr (Some (0, cl')) \<and>
     cl_files cl' ''/home/a'' = Some [7, 8, 9] \<and> mt_calls (cl_mt cl') = [FS_Utime ''/home/a'' 5]"
proof -
  let ?t = "\<lparr>t_wd = 5, t_sys_name = ''/home'', t_logic_name = ''1''\<rparr>"
  have mt: "cl_mt cl_loading = mt_example" "cl_callocs cl_loading = []" "ci_piece_len (cl_ctr cl_loading) = 2"
    "cl_files cl_loading ''/home/a'' = None" "mt_callocs mt_example = []" "mt_calls mt_example = []"
    by (simp_all add: cl_loading_def cl_example_def files_example_def mt_example_def add_target_def mt_start_def)
  have fe: "hget (ft_heap (cl_ft cl_loading)) 1 = Inr fe_example" by (simp add: cl_loading_def hget_def)
  have t: "target_at mt_example 1 ?t" by (simp add: mt_example_at)
  have run: "do_download (de_opened env_example) (de_connected env_example) (de_sock env_example) (de_input env_example)
      (ci_piece_len (cl_ctr cl_loading)) (de_callocs env_example) (de_events env_example) (fe_name fe_example)
      (fe_owners fe_example) ''/home/a'' (cl_files cl_loading ''/home/a'') = Inr (Some (0, Some [7, 8, 9]))"
    using env_example_download by (simp add: env_example_def mt fe_example_def)
  from download_task_announces [of R_example cl_loading K_example 1 fe_example "''1''" 1 ?t "''/home/a''" env_example 0 "Some [7, 8, 9]"]
    mt_example_ok K_example_fits mt fe t run show ?thesis
    by (simp add: fe_example_def REGULAR_def MAX_NAME_LEN_def dir_of_example sys_of_example)
qed

end
