(* ===== verification/Agreement.thy ===== *)
theory Agreement
  imports ClientProps
begin

text \<open>
  The lemmas behind the agreement of a peer with the tracker: what the tracker announces about a report,
  put through the handler of a peer, makes the same change to the map of the peer that the report
  has made to the map of the tracker. A peer leaves itself out of the owners it stores, so that owners are
  compared without it.
\<close>

section \<open>Agreement of maps\<close>

definition owner_ips :: "file_entry \<Rightarrow> u32 set" where
  "owner_ips fe = pid_ip ` set (fe_owners fe)"

definition agree :: "u32 \<Rightarrow> file_map \<Rightarrow> file_map \<Rightarrow> bool" where
  "agree my_ip MT MP \<longleftrightarrow>
     (\<forall>n. rel_option (\<lambda>fe ge. fe_timestamp fe = fe_timestamp ge \<and> owner_ips fe - {my_ip} = owner_ips ge - {my_ip}) (MT n) (MP n))"

text \<open>Two entries of a table that differ in the ports of their owners only.\<close>

definition te_like :: "trans_file_entry \<Rightarrow> trans_file_entry \<Rightarrow> bool" where
  "te_like te te' \<longleftrightarrow> te_name te' = te_name te \<and> te_timestamp te' = te_timestamp te \<and> te_op_type te' = te_op_type te \<and>
     map pid_ip (te_owner_list te') = map pid_ip (te_owner_list te)"

definition map_ok :: "string set \<Rightarrow> u32 set \<Rightarrow> file_map \<Rightarrow> bool" where
  "map_ok N P M \<longleftrightarrow> small N P \<and> bounded N P M \<and> (\<forall>n fe. M n = Some fe \<longrightarrow> entry_ok fe \<and> fe_name fe = n)"

text \<open>A report about files the tracker knows, or additions.\<close>

definition te_reports_known :: "trans_file_entry \<Rightarrow> file_map \<times> trans_file_entry list \<Rightarrow> bool" where
  "te_reports_known te = (\<lambda>(M, L). te_op_type te = FILE_MODIFY \<longrightarrow> M (te_name te) \<noteq> None)"

lemma te_like_refl [simp]: "te_like te te"
  by (simp add: te_like_def)

lemma te_like_ips: "te_like te te' \<Longrightarrow> pid_ip ` set (te_owner_list te') = pid_ip ` set (te_owner_list te)"
  unfolding te_like_def by (metis list.set_map)

lemma agree_update:
  assumes "agree my_ip MT MP" and "fe_timestamp fe = fe_timestamp ge" and "owner_ips fe - {my_ip} = owner_ips ge - {my_ip}"
  shows "agree my_ip (MT(n \<mapsto> fe)) (MP(n \<mapsto> ge))"
  using assms by (simp add: agree_def)

lemma agree_delete: "agree my_ip MT MP \<Longrightarrow> agree my_ip (MT(n := None)) (MP(n := None))"
  by (simp add: agree_def)

lemma refreshed_agrees:
  assumes "te_like te te'" and "fe_timestamp ge \<le> te_timestamp te"
  shows "fe_timestamp (refreshed my_ip te' ge) = te_timestamp te \<and>
     owner_ips (refreshed my_ip te' ge) - {my_ip} = pid_ip ` set (te_owner_list te) - {my_ip}"
proof -
  have "pid_ip ` {q \<in> A. pid_ip q \<noteq> my_ip} = pid_ip ` A - {my_ip}" for A :: "peer_id set" by auto
  then have "pid_ip ` set (fresh_owners my_ip te') = pid_ip ` set (te_owner_list te) - {my_ip}"
    using owners_add_ips [of "te_owner_list te'" "[]"] te_like_ips [OF assms(1)] by (simp add: fresh_owners_filter)
  with assms show ?thesis by (simp add: refreshed_def owner_ips_def te_like_def max_def)
qed

lemma add_spec_ok:
  assumes "map_ok N P M" and "te_known N P te"
  shows "entry_ok (add_spec (M (te_name te)) te)" "fe_name (add_spec (M (te_name te)) te) = te_name te"
    "length (fe_owners (add_spec (M (te_name te)) te)) \<le> MAX_PEER_ENTRIES"
proof -
  have te: "te_ok te" "bounded N P M" "small N P" using assms by (simp_all add: te_known_def map_ok_def)
  show ok: "entry_ok (add_spec (M (te_name te)) te)"
    using assms(1) te(1) entry_ok_of [OF te(1)]
    by (auto simp: add_spec_def map_ok_def entry_merge_def split: option.split)
  show "fe_name (add_spec (M (te_name te)) te) = te_name te"
    using assms(1) by (auto simp: add_spec_def map_ok_def split: option.split)
  show "length (fe_owners (add_spec (M (te_name te)) te)) \<le> MAX_PEER_ENTRIES"
    by (rule owners_small [OF te(3) ok add_spec_owners [OF te(2) assms(2)]])
qed

lemma map_ok_update:
  assumes "map_ok N P M" and "te_known N P te"
  shows "map_ok N P (update_map te M)"
  using assms add_spec_ok [OF assms] bounded_update [of N P M te]
  by (auto simp: map_ok_def update_map_def split: if_splits)

text \<open>The news of an addition or of a modification of a known file.\<close>

lemma learn_agrees:
  assumes M: "map_ok N P MT" and te: "te_known N P te" and agr: "agree my_ip MT MP"
    and like: "te_like ((te_of (add_spec (MT (te_name te)) te))\<lparr>te_op_type := op\<rparr>) te'"
  shows "agree my_ip (MT(te_name te \<mapsto> add_spec (MT (te_name te)) te)) (learn_map my_ip te' MP)"
proof -
  let ?n = "te_name te" and ?fe = "add_spec (MT (te_name te)) te"
  let ?te = "(te_of ?fe)\<lparr>te_op_type := op\<rparr>"
  note ok = add_spec_ok [OF M te]
  have n: "te_name te' = ?n" using like ok(2) by (simp add: te_like_def te_of_def)
  have own: "pid_ip ` set (te_owner_list ?te) = owner_ips ?fe"
    using te_owner_list_te_of [OF ok(3)] by (simp add: owner_ips_def te_owner_list_def)
  have ts: "te_timestamp ?te = fe_timestamp ?fe" by (simp add: te_of_def)
  have rel: "rel_option (\<lambda>fe ge. fe_timestamp fe = fe_timestamp ge \<and> owner_ips fe - {my_ip} = owner_ips ge - {my_ip}) (MT ?n) (MP ?n)"
    using agr by (simp add: agree_def)
  show ?thesis
  proof (cases "MP ?n")
    case None
    have "owner_ips (entry_of te') = owner_ips ?fe"
      using own te_like_ips [OF like] owners_add_ips [of "te_owner_list te'" "[]"] by (simp add: entry_of_def owner_ips_def)
    moreover have "fe_timestamp (entry_of te') = fe_timestamp ?fe" using like ts by (simp add: entry_of_def te_like_def)
    ultimately show ?thesis using agree_update [OF agr, of ?fe "entry_of te'" ?n] None n by (simp add: learn_map_def)
  next
    case (Some ge)
    with rel obtain fe where fe: "MT ?n = Some fe" "fe_timestamp fe = fe_timestamp ge" by (cases "MT ?n") auto
    have "fe_timestamp ge \<le> te_timestamp ?te"
      using fe ts by (auto simp: add_spec_def entry_merge_def)
    from refreshed_agrees [OF like this, of my_ip] have "fe_timestamp ?fe = fe_timestamp (refreshed my_ip te' ge)"
      "owner_ips ?fe - {my_ip} = owner_ips (refreshed my_ip te' ge) - {my_ip}" using own ts by simp_all
    from agree_update [OF agr this, of ?n] Some n show ?thesis by (simp add: learn_map_def)
  qed
qed

lemma step_agrees:
  assumes M: "map_ok N P MT" and te: "te_known N P te" and agr: "agree my_ip MT (pv_map v)"
    and known: "te_reports_known te (MT, L)" and like: "list_all2 te_like (update_news te MT) news"
  shows "agree my_ip (update_map te MT) (pv_map (fold (view_step R my_ip) news v))"
proof -
  let ?n = "te_name te" and ?fe = "add_spec (MT (te_name te)) te"
  consider (learn) op where "op \<in> {FILE_ADD, FILE_MODIFY}" "te_op_type te \<in> {FILE_ADD, FILE_MODIFY}"
      "update_news te MT = [(te_of ?fe)\<lparr>te_op_type := op\<rparr>]"
    | (del) "te_op_type te = FILE_DELETE" "MT ?n \<noteq> None" "update_news te MT = [te]"
    | (gone) "te_op_type te = FILE_DELETE" "MT ?n = None" "update_news te MT = []"
    | (other) "te_op_type te \<notin> {FILE_ADD, FILE_DELETE, FILE_MODIFY}" "update_news te MT = []"
  proof (cases "te_op_type te \<in> {FILE_ADD, FILE_MODIFY}")
    case True
    then have "update_news te MT = [(te_of ?fe)\<lparr>te_op_type := te_op_type te\<rparr>]"
      using known by (auto simp: update_news_def Let_def te_reports_known_def op_type_defs)
    with True that(1) show thesis by blast
  next
    case False
    then show thesis using that(2-4)
      by (cases "te_op_type te = FILE_DELETE"; cases "MT ?n") (auto simp: update_news_def Let_def op_type_defs)
  qed
  then show ?thesis
  proof cases
    case learn
    then obtain te' where te': "news = [te']" "te_like ((te_of ?fe)\<lparr>te_op_type := op\<rparr>) te'"
      using like by (auto simp: list_all2_Cons1)
    have "update_map te MT = MT(?n \<mapsto> ?fe)" using learn(2) by (auto simp: update_map_def)
    moreover have "te_op_type te' = op" using te'(2) by (simp add: te_like_def)
    then have "view_step R my_ip te' v = view_learn my_ip te' v" using learn(1) by (auto simp: view_step_def)
    ultimately show ?thesis using learn_agrees [OF M te agr te'(2)] te'(1) by (simp add: view_learn_def)
  next
    case del
    then obtain te' where te': "news = [te']" "te_like te te'" using like by (auto simp: list_all2_Cons1)
    have "pv_map (view_step R my_ip te' v) = (pv_map v)(?n := None)"
      using te'(2) del(1)
      by (auto simp: te_like_def view_step_def view_delete_def op_type_defs Let_def split: option.split)
    moreover have "update_map te MT = MT(?n := None)" using del(1) by (simp add: update_map_def op_type_defs)
    ultimately show ?thesis using agree_delete [OF agr] te'(1) by simp
  next
    case gone
    then have "update_map te MT = MT" by (simp add: update_map_def op_type_defs fun_upd_idem)
    with gone like agr show ?thesis by simp
  next
    case other
    then have "update_map te MT = MT" by (simp add: update_map_def)
    with other like agr show ?thesis by simp
  qed
qed

lemma update_spec_at: "update_spec te (M, L) = (update_map te M, L @ update_news te M)"
  by (simp add: update_spec_def)

lemma update_fold_news: "snd (fold update_spec tes (M, L)) = L @ snd (fold update_spec tes (M, []))"
  and update_fold_map: "fst (fold update_spec tes (M, L)) = fst (fold update_spec tes (M, []))"
proof -
  have "fold update_spec tes (M, L) = (fst (fold update_spec tes (M, [])), L @ snd (fold update_spec tes (M, [])))"
  proof (induction tes arbitrary: M L)
    case (Cons te tes)
    from Cons [of "update_map te M" "L @ update_news te M"] Cons [of "update_map te M" "update_news te M"]
    show ?case by (simp add: update_spec_def)
  qed simp
  then show "snd (fold update_spec tes (M, L)) = L @ snd (fold update_spec tes (M, []))"
    and "fst (fold update_spec tes (M, L)) = fst (fold update_spec tes (M, []))" by simp_all
qed

lemma report_agrees:
  assumes "map_ok N P MT" and "\<forall>te \<in> set tes. te_known N P te" and "agree my_ip MT (pv_map v)"
    and "run_pre te_reports_known update_spec tes (MT, L)"
    and "list_all2 te_like (snd (fold update_spec tes (MT, []))) news"
  shows "agree my_ip (fst (fold update_spec tes (MT, []))) (pv_map (fold (view_step R my_ip) news v))"
  using assms
proof (induction tes arbitrary: MT v L news)
  case Nil
  then show ?case by simp
next
  case (Cons te tes)
  let ?M = "update_map te MT"
  have "snd (fold update_spec (te # tes) (MT, [])) = update_news te MT @ snd (fold update_spec tes (?M, []))"
    and fst: "fst (fold update_spec (te # tes) (MT, [])) = fst (fold update_spec tes (?M, []))"
    using update_fold_news [of tes ?M "update_news te MT"] update_fold_map [of tes ?M "update_news te MT"]
    by (simp_all add: update_spec_def)
  with Cons.prems(5) obtain n1 n2 where n: "news = n1 @ n2" "list_all2 te_like (update_news te MT) n1"
      "list_all2 te_like (snd (fold update_spec tes (?M, []))) n2" by (auto simp: list_all2_append1)
  have te: "te_known N P te" "te_reports_known te (MT, L)" using Cons.prems(2,4) by simp_all
  let ?v = "fold (view_step R my_ip) n1 v"
  have "agree my_ip ?M (pv_map ?v)" by (rule step_agrees [OF Cons.prems(1) te(1) Cons.prems(3) te(2) n(2)])
  moreover have "run_pre te_reports_known update_spec tes (?M, L @ update_news te MT)"
    using Cons.prems(4) update_spec_at [of te MT L] by simp
  ultimately have "agree my_ip (fst (fold update_spec tes (?M, []))) (pv_map (fold (view_step R my_ip) n2 ?v))"
    using Cons.IH [OF map_ok_update [OF Cons.prems(1) te(1)] _ _ _ n(3)] Cons.prems(2) by simp
  then show ?case unfolding fst by (simp add: n(1))
qed

section \<open>Over the wire\<close>

lemma cut_owner_like: "te_sendable te \<Longrightarrow> te_like te (cut_owner te)"
proof -
  assume "te_sendable te"
  then have "15 < length (te_owners te)" by (simp add: te_sendable_def MAX_PEER_ENTRIES_def)
  then have "map pid_ip (te_owners te) ! 15 = pid_ip (te_owners te ! 15)" by simp
  then have "(map pid_ip (te_owners te))[15 := pid_ip (te_owners te ! 15)] = map pid_ip (te_owners te)"
    using list_update_id [of "map pid_ip (te_owners te)" 15] by metis
  then have "map pid_ip ((te_owners te)[15 := (te_owners te ! 15)\<lparr>pid_port := 0\<rparr>]) = map pid_ip (te_owners te)"
    by (simp add: map_update)
  then show ?thesis unfolding te_like_def te_owner_list_def cut_owner_def by (simp flip: take_map)
qed

lemma cut_last_like:
  assumes "table_sendable (tft_of L)"
  shows "list_all2 te_like L (tft_list (cut_last (tft_of L)))"
proof (cases "L = []")
  case True
  then show ?thesis by (simp add: cut_last_def tft_list_of)
next
  case False
  then have "cut_last (tft_of L) = tft_of (butlast L @ [cut_owner (last L)])"
    by (simp add: cut_last_def tft_of_def)
  moreover have "list_all2 te_like (butlast L @ [last L]) (butlast L @ [cut_owner (last L)])"
    using assms False by (intro list_all2_appendI) (auto simp: cut_owner_like table_sendable_def intro: list_all2_refl)
  ultimately show ?thesis using False by (simp add: tft_list_of)
qed

text \<open>A peer handles what it reads from the tracker until the connection ends.\<close>

lemma receiver_end: "ttop_receiver_task K [] pkt cl = Inr cl"
  by (simp add: ttop_receiver_task.simps recv_ttop_packet_def recv_segment_def)

lemma receiver_one_packet:
  assumes "recv_ttop_packet w pkt = Inr (r, pkt', [])" and "r > 0"
  shows "ttop_receiver_task K w pkt cl = receive_packet K pkt' cl"
  using assms by (simp add: ttop_receiver_task.simps [of K w] receiver_end ebind_def split: sum.split)

lemma map_ok_tracker: "tr_inv N P tr \<Longrightarrow> map_ok N P (ft_map (tr_ft tr))"
proof -
  assume "tr_inv N P tr"
  then have *: "small N P" "bounded N P (ft_map (tr_ft tr))" "ft_inv (tr_ft tr)" by (simp_all add: tr_inv_def ft_rep_def)
  have "entry_ok fe \<and> fe_name fe = n" if "ft_map (tr_ft tr) n = Some fe" for n fe
    using ft_inv_entry_ok [OF *(3) ft_map_Some [OF *(3) that]] ft_map_name [OF *(3) that] by blast
  with * show ?thesis by (simp add: map_ok_def)
qed

text \<open>A broadcast that arrives is handled.\<close>

lemma broadcast_received:
  assumes "cl_rep R K my_ip cl v" and "cl_callocs cl = []" and "table_sendable t"
    and "recv_ttop_packet w pkt = Inr (r, pkt', [])" "r > 0" "th_type (ttop_hdr pkt') = TRACKER_BROADCAST"
    and "table_of_bytes (field 0 (unat (th_data_len (ttop_hdr pkt'))) (ttop_data pkt')) = cut_last t"
    and "run_pre (view_pre R) (view_step R my_ip) (tft_list (cut_last t)) v"
  shows "\<exists>cl'. ttop_receiver_task K w pkt cl = Inr cl' \<and> cl_rep R K my_ip cl' (fold (view_step R my_ip) (tft_list (cut_last t)) v)"
proof -
  have n: "tft_n (cut_last t) \<le> int MAX_FILE_ENTRIES" using assms(3) by (simp add: table_sendable_def)
  have "ttop_receiver_task K w pkt cl = broadcast_handler_task K (cut_last t) cl"
    using receiver_one_packet [OF assms(4,5), of K cl] assms(2,6,7) by (cases cl) (simp add: receive_packet_def)
  with brd.run_refines [OF assms(1,8)] show ?thesis
    by (simp add: broadcast_handler_task_def for_entries_list [OF n])
qed

end
