(* ===== verification/MonitorWalk.thy ===== *)
theory MonitorWalk
  imports MonitorProps
begin

text \<open>
  The two walks over the target directories at start-up: \<open>watch_target_add_dir\<close> watches every
  directory, \<open>get_file_table\<close> records every file. Both are compared with plain listings of the tree.
\<close>

section \<open>Listings\<close>

text \<open>The directories below a directory, by their system name and their logic name.\<close>

fun dirs_below :: "string \<Rightarrow> string \<Rightarrow> dirent list \<Rightarrow> (string \<times> string) list" where
  "dirs_below d l [] = []"
| "dirs_below d l (Dirent n is_dir mtime opens sub # ds) =
     (if is_dir \<and> \<not> dots n then (d @ slash # n, l @ slash # n) # dirs_below (d @ slash # n) (l @ slash # n) sub else []) @
     dirs_below d l ds"

text \<open>The entries of the file table for what is below a directory.\<close>

definition surveyed :: "u32 \<Rightarrow> string \<Rightarrow> bool \<Rightarrow> u64 option \<Rightarrow> file_entry" where
  "surveyed my_ip l is_dir mtime =
     \<lparr>fe_name = l, fe_timestamp = (case mtime of None \<Rightarrow> 0 | Some x \<Rightarrow> x),
      fe_type = ucast (if is_dir then DIRECTORY else REGULAR), fe_owners = [me my_ip]\<rparr>"

fun files_below :: "u32 \<Rightarrow> string \<Rightarrow> dirent list \<Rightarrow> file_entry list" where
  "files_below my_ip l [] = []"
| "files_below my_ip l (Dirent n is_dir mtime opens sub # ds) =
     (if dots n then []
      else surveyed my_ip (l @ slash # n) is_dir mtime # (if is_dir then files_below my_ip (l @ slash # n) sub else [])) @
     files_below my_ip l ds"

text \<open>All names fit their buffers and all directories can be opened.\<close>

fun tree_fits :: "string \<Rightarrow> string \<Rightarrow> dirent list \<Rightarrow> bool" where
  "tree_fits d l [] \<longleftrightarrow> True"
| "tree_fits d l (Dirent n is_dir mtime opens sub # ds) \<longleftrightarrow>
     length (d @ slash # n) < MAX_NAME_LEN \<and> length (l @ slash # n) < MAX_NAME_LEN \<and>
     (is_dir \<and> \<not> dots n \<longrightarrow> opens \<and> tree_fits (d @ slash # n) (l @ slash # n) sub) \<and> tree_fits d l ds"

text \<open>The entries of a directory have different names, and no name has a slash in it.\<close>

fun tree_proper :: "dirent list \<Rightarrow> bool" where
  "tree_proper [] \<longleftrightarrow> True"
| "tree_proper (Dirent n is_dir mtime opens sub # ds) \<longleftrightarrow>
     slash \<notin> set n \<and> n \<notin> d_name ` set ds \<and> tree_proper sub \<and> tree_proper ds"

section \<open>Watching every directory\<close>

lemma watch_walk:
  shows "mt_ok R mt \<Longrightarrow> kernel_fits K mt \<Longrightarrow> mt_callocs mt = [] \<Longrightarrow> sys_of R l = Some d \<Longrightarrow> roots_apart R \<Longrightarrow>
      opens \<Longrightarrow> length d < MAX_NAME_LEN \<Longrightarrow> length l < MAX_NAME_LEN \<Longrightarrow> 0 \<le> K d \<Longrightarrow>
      tree_fits d l ds \<Longrightarrow> \<forall>x \<in> set (dirs_below d l ds). 0 \<le> K (fst x) \<Longrightarrow>
    \<exists>mt'. watch_target_add_dir K d l opens ds mt = Inr (0, mt') \<and> mt_ok R mt' \<and> kernel_fits K mt' \<and> mt_callocs mt' = [] \<and>
      mt_pairs mt' = mt_pairs mt \<union> set ((d, l) # dirs_below d l ds)"
    and "mt_ok R mt \<Longrightarrow> kernel_fits K mt \<Longrightarrow> mt_callocs mt = [] \<Longrightarrow> sys_of R l = Some d \<Longrightarrow> roots_apart R \<Longrightarrow> ret = 0 \<Longrightarrow>
      tree_fits d l ds \<Longrightarrow> \<forall>x \<in> set (dirs_below d l ds). 0 \<le> K (fst x) \<Longrightarrow>
    \<exists>mt'. watch_entries K d l ret ds mt = Inr (0, mt') \<and> mt_ok R mt' \<and> kernel_fits K mt' \<and> mt_callocs mt' = [] \<and>
      mt_pairs mt' = mt_pairs mt \<union> set (dirs_below d l ds)"
proof (induction K d l opens ds mt and K d l ret ds mt rule: watch_target_add_dir_watch_entries.induct)
  case (1 K d l opens ds mt)
  from watch_target_add_total [OF 1(2,3,6,5,4,10,8,9)] obtain p mt1 where
    p: "watch_target_add K d l mt = Inr (p, mt1)" "mt_ok R mt1" "kernel_fits K mt1" "mt_callocs mt1 = []"
      "mt_pairs mt1 = insert (d, l) (mt_pairs mt)" by blast
  have "\<exists>mt'. watch_entries K d l 0 ds mt1 = Inr (0, mt') \<and> mt_ok R mt' \<and> kernel_fits K mt' \<and> mt_callocs mt' = [] \<and>
      mt_pairs mt' = mt_pairs mt1 \<union> set (dirs_below d l ds)"
    using 1(7) by (intro 1(1) [OF _ p(2-4) 1(5,6) _ 1(11,12)]) simp_all
  with p 1(7) show ?case by auto
next
  case (2 K d l ret mt)
  then show ?case by simp
next
  case (3 K d l ret n is_dir mtime opens sub ds mt)
  have len: "length (d @ slash # n) < MAX_NAME_LEN" "length (l @ slash # n) < MAX_NAME_LEN" and rest: "tree_fits d l ds"
    and K: "\<forall>x \<in> set (dirs_below d l ds). 0 \<le> K (fst x)" using 3(11,12) by simp_all
  have sp: "sprintf_path d n = Inr (d @ slash # n)" "sprintf_path l n = Inr (l @ slash # n)"
    using len by (simp_all add: sprintf_path_def strcpy_name_def)
  show ?case
  proof (cases "is_dir \<and> \<not> dots n")
    case True
    then have o: "opens" "tree_fits (d @ slash # n) (l @ slash # n) sub" "0 \<le> K (d @ slash # n)"
      "\<forall>x \<in> set (dirs_below (d @ slash # n) (l @ slash # n) sub). 0 \<le> K (fst x)" using 3(11,12) by simp_all
    have "\<exists>mt'. watch_target_add_dir K (d @ slash # n) (l @ slash # n) opens sub mt = Inr (0, mt') \<and> mt_ok R mt' \<and> kernel_fits K mt' \<and>
        mt_callocs mt' = [] \<and> mt_pairs mt' = mt_pairs mt \<union> set ((d @ slash # n, l @ slash # n) # dirs_below (d @ slash # n) (l @ slash # n) sub)"
      using True by (intro 3(2) [OF _ _ 3(5-7) sys_of_append [OF 3(8)] 3(9) o(1) len o(3,2,4)]) simp_all
    then obtain mt1 where m: "watch_target_add_dir K (d @ slash # n) (l @ slash # n) opens sub mt = Inr (0, mt1)" "mt_ok R mt1" "kernel_fits K mt1"
        "mt_callocs mt1 = []" "mt_pairs mt1 = mt_pairs mt \<union> set ((d @ slash # n, l @ slash # n) # dirs_below (d @ slash # n) (l @ slash # n) sub)"
      by blast
    have "\<exists>mt'. watch_entries K d l (if (0 :: int) \<noteq> 0 \<or> ret \<noteq> 0 then 1 else 0) ds mt1 = Inr (0, mt') \<and> mt_ok R mt' \<and> kernel_fits K mt' \<and>
        mt_callocs mt' = [] \<and> mt_pairs mt' = mt_pairs mt1 \<union> set (dirs_below d l ds)"
      using True 3(10) by (intro 3(3) [OF _ _ m(2-4) 3(8,9) _ rest K]) simp_all
    with True m sp show ?thesis by auto
  next
    case False
    have "\<exists>mt'. watch_entries K d l ret ds mt = Inr (0, mt') \<and> mt_ok R mt' \<and> kernel_fits K mt' \<and> mt_callocs mt' = [] \<and>
        mt_pairs mt' = mt_pairs mt \<union> set (dirs_below d l ds)"
    proof (cases is_dir)
      case True
      with False show ?thesis by (intro 3(1) [OF _ _ 3(5-10) rest K]) simp_all
    next
      case False
      then show ?thesis by (rule 3(4) [OF _ 3(5-10) rest K])
    qed
    with False sp show ?thesis by (cases is_dir) auto
  qed
qed

text \<open>The directories of all targets, numbered from \<open>i\<close> on.\<close>

fun all_dirs :: "nat \<Rightarrow> target list \<Rightarrow> (string \<times> string) list" where
  "all_dirs i [] = []"
| "all_dirs i ((d, opens, ds) # ts) = ((d, decimal i) # dirs_below d (decimal i) ds) @ all_dirs (Suc i) ts"

fun targets_fit :: "nat \<Rightarrow> target list \<Rightarrow> bool" where
  "targets_fit i [] \<longleftrightarrow> True"
| "targets_fit i ((d, opens, ds) # ts) \<longleftrightarrow>
     opens \<and> length d < MAX_NAME_LEN \<and> length (decimal i) < MAX_NAME_LEN \<and> tree_fits d (decimal i) ds \<and> targets_fit (Suc i) ts"

lemma watch_targets_walk:
  assumes "mt_ok R mt" and "kernel_fits K mt" and "mt_callocs mt = []" and apart: "roots_apart R"
    and "\<forall>k < length ts. sys_of R (decimal (i + k)) = Some (fst (ts ! k))"
    and "targets_fit i ts" and "\<forall>x \<in> set (all_dirs i ts). 0 \<le> K (fst x)"
  shows "\<exists>mt'. watch_targets_from K i ts ret mt = Inr (if ts = [] then ret else 0, mt') \<and> mt_ok R mt' \<and>
     mt_pairs mt' = mt_pairs mt \<union> set (all_dirs i ts)"
  using assms(1-3,5-7)
proof (induction ts arbitrary: i ret mt)
  case Nil
  then show ?case by simp
next
  case (Cons t ts)
  obtain d opens ds where t: "t = (d, opens, ds)" by (cases t)
  have name: "sys_of R (decimal i) = Some d" using Cons.prems(4) [rule_format, of 0] by (simp add: t)
  have o: "opens" "length d < MAX_NAME_LEN" "length (decimal i) < MAX_NAME_LEN" "tree_fits d (decimal i) ds" "targets_fit (Suc i) ts"
    using Cons.prems(5) by (simp_all add: t)
  have K: "0 \<le> K d" "\<forall>x \<in> set (dirs_below d (decimal i) ds). 0 \<le> K (fst x)" "\<forall>x \<in> set (all_dirs (Suc i) ts). 0 \<le> K (fst x)"
    using Cons.prems(6) by (simp_all add: t)
  from watch_walk(1) [OF Cons.prems(1-3) name apart o(1-3) K(1) o(4) K(2)] obtain mt1 where
    m: "watch_target_add_dir K d (decimal i) opens ds mt = Inr (0, mt1)" "mt_ok R mt1" "kernel_fits K mt1" "mt_callocs mt1 = []"
      "mt_pairs mt1 = mt_pairs mt \<union> set ((d, decimal i) # dirs_below d (decimal i) ds)" by blast
  have names: "\<forall>k < length ts. sys_of R (decimal (Suc i + k)) = Some (fst (ts ! k))"
    using Cons.prems(4) by (metis Suc_less_eq add_Suc_shift length_Cons nth_Cons_Suc)
  from Cons.IH [OF m(2-4) names o(5) K(3), of 0] m(1,5) show ?case by (auto simp: t)
qed

text \<open>
  C18. The monitor watches everything. When the names fit their buffers, every directory can be opened
  and the kernel has a descriptor for it, the thread starts, and the directories in its table are
  exactly the directories of the target trees (without \<open>.\<close> and \<open>..\<close>), each under the logic name that
  belongs to it.
\<close>

theorem monitor_watches_every_directory:
  assumes "ts \<noteq> []" and "kernel_fits K mt_start" and "roots_apart (root_map ts)" and "targets_fit 1 ts"
    and "\<forall>x \<in> set (all_dirs 1 ts). 0 \<le> K (fst x)"
  shows "\<exists>mt. monitor_init K ts [] = Inr (True, mt) \<and> mt_inv mt \<and> mt_pairs mt = set (all_dirs 1 ts)"
proof -
  have start: "mt_ok (root_map ts) mt_start" "mt_callocs mt_start = []" "mt_pairs mt_start = {}"
    using mt_start_inv mt_start_at by (simp_all add: mt_ok_def mt_names_def mt_pairs_def) (simp add: mt_start_def)
  have "mt_start\<lparr>mt_callocs := []\<rparr> = mt_start" by (simp add: mt_start_def)
  with watch_targets_walk [OF start(1) assms(2) start(2) assms(3), of ts 1 1] sys_of_root assms(1,4,5) start(3)
  show ?thesis by (auto simp: monitor_init_def mt_ok_def)
qed

definition tree_example :: "dirent list" where
  "tree_example = [Dirent ''.'' True None True [], Dirent ''a'' True (Some 7) True [Dirent ''b'' True None True [], Dirent ''g'' False (Some 9) False []],
     Dirent ''f'' False (Some 8) False []]"

lemma tree_example_fits: "targets_fit 1 [(''/home'', True, tree_example)]"
  by (simp add: tree_example_def decimal_1 MAX_NAME_LEN_def dots_def)

lemma root_map_example: "root_map [(''/home'', True, ds)] = R_example"
  by (simp add: root_map_def decimal_1 R_example_def)

theorem monitor_watches_every_directory_witness:
  "\<exists>mt. monitor_init K_example [(''/home'', True, tree_example)] [] = Inr (True, mt) \<and>
     mt_pairs mt = {(''/home'', ''1''), (''/home/a'', ''1/a''), (''/home/a/b'', ''1/a/b'')}"
proof -
  let ?ts = "[(''/home'', True, tree_example)]"
  have dirs: "all_dirs 1 ?ts = [(''/home'', ''1''), (''/home/a'', ''1/a''), (''/home/a/b'', ''1/a/b'')]"
    by (simp add: tree_example_def decimal_1 dots_def slash_def)
  have fits: "kernel_fits K_example mt_start"
    by (auto simp: kernel_fits_def mt_start_at K_example_def WD_HASH_SIZE_def split: if_splits)
  have K: "\<forall>x \<in> set (all_dirs 1 ?ts). 0 \<le> K_example (fst x)" unfolding dirs by (simp add: K_example_def)
  have apart: "roots_apart (root_map ?ts)" unfolding root_map_example by (rule R_example_apart)
  from monitor_watches_every_directory [of ?ts, OF _ fits apart tree_example_fits K] show ?thesis
    unfolding dirs by auto
qed

section \<open>Recording every file\<close>

text \<open>A cell that is allocated and not linked does not matter.\<close>

lemma ft_cell:
  assumes inv: "ft_inv ft" and ft': "file_htable ft' = file_htable ft" "heap_ok (ft_heap ft')"
      "\<forall>q \<in> set (bkt_all (file_htable ft)). cells (ft_heap ft') q = cells (ft_heap ft) q"
  shows "ft_inv ft'" and "ft_map ft' = ft_map ft"
proof -
  have in': "in_table ft' q ge \<longleftrightarrow> in_table ft q ge" for q ge using ft' by (auto simp: in_table_def)
  have bkt: "q \<in> set (bkt_all (file_htable ft))" if "b < HASH_SIZE" "q \<in> set (file_htable ft b)" for b q
    using that by (auto simp: set_bkt_all)
  show inv': "ft_inv ft'"
    unfolding ft_inv_def in' using inv ft' bkt unfolding ft_inv_def by auto
  show "ft_map ft' = ft_map ft"
    by (rule ft_map_ext [OF inv']) (simp add: in' ft_map_iff [OF inv])
qed

lemma alloc_eq:
  assumes "ft_inv ft" and "ft_callocs ft = []"
  shows "file_entry_alloc ft = (brk (ft_heap ft), ft\<lparr>ft_heap := snd (hnew fe_zero (ft_heap ft))\<rparr>)"
  using assms by (cases ft) (simp add: file_entry_alloc_def hnew_def)

lemma survey_dots:
  assumes inv: "ft_inv ft"
  shows "\<exists>ft'. fe_modify f (brk (ft_heap ft)) (ft\<lparr>ft_heap := snd (hnew v (ft_heap ft))\<rparr>) = Inr ft' \<and> ft_inv ft' \<and>
     ft_callocs ft' = ft_callocs ft \<and> ft_map ft' = ft_map ft"
proof -
  let ?p = "brk (ft_heap ft)" and ?h = "snd (hnew v (ft_heap ft))"
  let ?ft = "ft\<lparr>ft_heap := hput ?p (f v) ?h\<rparr>"
  have "fe_modify f ?p (ft\<lparr>ft_heap := ?h\<rparr>) = Inr ?ft" by (simp add: fe_modify_def hget_def)
  moreover have "\<forall>q \<in> set (bkt_all (file_htable ft)). cells (ft_heap ?ft) q = cells (ft_heap ft) q"
    using brk_not_in_table [OF inv] by auto
  with ft_cell [OF inv, of ?ft] ft_inv_heap [OF inv] have "ft_inv ?ft" "ft_map ?ft = ft_map ft" by simp_all
  ultimately show ?thesis by simp
qed

lemma survey_file:
  assumes inv: "ft_inv ft" and al: "ft_callocs ft = []" and new: "ft_map ft (l @ slash # n) = None"
    and len: "length (d @ slash # n) < MAX_NAME_LEN" "length (l @ slash # n) < MAX_NAME_LEN"
  shows "\<exists>ft'. ebind (survey_entry my_ip d l n mtime (brk (ft_heap ft)) (ft\<lparr>ft_heap := snd (hnew fe_zero (ft_heap ft))\<rparr>))
       (fe_modify (\<lambda>fe. fe\<lparr>fe_type := ucast (if is_dir then DIRECTORY else REGULAR)\<rparr>) (brk (ft_heap ft))) = Inr ft' \<and>
     ft_inv ft' \<and> ft_callocs ft' = [] \<and> ft_map ft' = (ft_map ft)(l @ slash # n \<mapsto> surveyed my_ip (l @ slash # n) is_dir mtime)"
proof -
  let ?p = "brk (ft_heap ft)" and ?h = "snd (hnew fe_zero (ft_heap ft))" and ?l = "l @ slash # n"
  let ?fe = "surveyed my_ip ?l is_dir mtime" and ?T = "\<lambda>fe. fe\<lparr>fe_type := ucast (if is_dir then DIRECTORY else REGULAR)\<rparr>"
  let ?ft = "ft\<lparr>ft_heap := hput ?p ?fe ?h, file_htable := bkt_add (slot_ulong (ELFhash ?l)) ?p (file_htable ft), ft_n := ft_n ft + 1\<rparr>"
  have heap: "heap_ok (ft_heap ft)" using inv by (rule ft_inv_heap)
  then have p: "?p \<noteq> NULL" by (auto simp: heap_ok_def)
  have upd: "hput ?p a (hput ?p b ?h) = hput ?p a ?h" for a b by (simp add: hput_def)
  have "ebind (survey_entry my_ip d l n mtime ?p (ft\<lparr>ft_heap := ?h\<rparr>)) (fe_modify ?T ?p) = Inr ?ft"
    using p len al
    by (cases mtime) (simp_all add: survey_entry_def sprintf_path_def strcpy_name_def fe_modify_def hget_def get_file_timestamp_def
        add_me_to_peer_id_list_def file_entry_add_def fe_zero_def surveyed_def upd)
  moreover have "entry_ok ?fe" using len(2) by (simp add: entry_ok_def surveyed_def)
  with ft_insert [OF inv brk_not_in_table [OF inv], of ?fe ?ft] new heap
  have "ft_inv ?ft" "ft_map ?ft = (ft_map ft)(?l \<mapsto> ?fe)" by (simp_all add: surveyed_def)
  ultimately show ?thesis using al by simp
qed

definition add_files :: "file_entry list \<Rightarrow> file_map \<Rightarrow> file_map" where
  "add_files fes M = fold (\<lambda>fe M. M(fe_name fe \<mapsto> fe)) fes M"

lemma add_files_simps [simp]:
  "add_files [] M = M" "add_files (fe # fes) M = add_files fes (M(fe_name fe \<mapsto> fe))"
  "add_files (fes @ ges) M = add_files ges (add_files fes M)"
  by (simp_all add: add_files_def)

lemma add_files_other: "n \<notin> fe_name ` set fes \<Longrightarrow> add_files fes M n = M n"
  by (induction fes arbitrary: M) auto

lemma add_files_iff:
  assumes "distinct (map fe_name fes)" and "\<forall>fe \<in> set fes. M (fe_name fe) = None"
  shows "add_files fes M n = Some fe \<longleftrightarrow> fe \<in> set fes \<and> fe_name fe = n \<or> M n = Some fe"
  using assms
proof (induction fes arbitrary: M)
  case (Cons ge fes)
  have new: "\<forall>fe \<in> set fes. (M(fe_name ge \<mapsto> ge)) (fe_name fe) = None"
    using Cons.prems by (auto simp: image_iff)
  from Cons.prems(1) have "fe \<in> set fes \<Longrightarrow> fe_name fe \<noteq> fe_name ge" by (auto simp: image_iff)
  moreover have "M (fe_name ge) = None" using Cons.prems(2) by simp
  moreover have IH: "add_files fes (M(fe_name ge \<mapsto> ge)) n = Some fe \<longleftrightarrow>
      fe \<in> set fes \<and> fe_name fe = n \<or> (M(fe_name ge \<mapsto> ge)) n = Some fe"
    by (rule Cons.IH [OF _ new]) (use Cons.prems(1) in simp)
  ultimately show ?case unfolding add_files_simps IH by (cases "n = fe_name ge") auto
qed simp

text \<open>No two files of a proper tree have the same name.\<close>

lemma path_split:
  assumes "slash \<notin> set n" "slash \<notin> set n'" and "r = [] \<or> hd r = slash" "r' = [] \<or> hd r' = slash" and "n @ r = n' @ r'"
  shows "n = n'"
proof -
  have tw: "takeWhile (\<lambda>c. c \<noteq> slash) (m @ q) = m" if "slash \<notin> set m" "q = [] \<or> hd q = slash" for m q
    using that by (cases q) (auto simp: takeWhile_append2 takeWhile_tail)
  from tw [OF assms(1,3)] tw [OF assms(2,4)] assms(5) show ?thesis by metis
qed

lemma files_below_name:
  "fe \<in> set (files_below my_ip l ds) \<Longrightarrow> \<exists>n r. n \<in> d_name ` set ds \<and> fe_name fe = l @ slash # n @ r \<and> (r = [] \<or> hd r = slash)"
proof (induction my_ip l ds rule: files_below.induct)
  case (2 my_ip l n is_dir mtime opens sub ds)
  show ?case
  proof (cases "fe \<in> set (files_below my_ip l ds)")
    case True
    with 2(2) obtain m r where "m \<in> d_name ` set ds" "fe_name fe = l @ slash # m @ r" "r = [] \<or> hd r = slash" by blast
    then show ?thesis by (intro exI [of _ m] exI [of _ r]) simp
  next
    case False
    with 2(3) have nd: "\<not> dots n" and or: "fe = surveyed my_ip (l @ slash # n) is_dir mtime \<or> is_dir \<and> fe \<in> set (files_below my_ip (l @ slash # n) sub)"
      by (auto split: if_splits)
    have "\<exists>r. fe_name fe = l @ slash # n @ r \<and> (r = [] \<or> hd r = slash)"
      using or
    proof
      assume "fe = surveyed my_ip (l @ slash # n) is_dir mtime"
      then show ?thesis by (simp add: surveyed_def)
    next
      assume "is_dir \<and> fe \<in> set (files_below my_ip (l @ slash # n) sub)"
      with 2(1) nd obtain m q where "fe_name fe = (l @ slash # n) @ slash # m @ q" by blast
      then show ?thesis by (intro exI [of _ "slash # m @ q"]) simp
    qed
    then show ?thesis by auto
  qed
qed simp

lemma files_below_distinct: "tree_proper ds \<Longrightarrow> distinct (map fe_name (files_below my_ip l ds))"
proof (induction my_ip l ds rule: files_below.induct)
  case (2 my_ip l n is_dir mtime opens sub ds)
  let ?own = "if dots n then [] else surveyed my_ip (l @ slash # n) is_dir mtime #
      (if is_dir then files_below my_ip (l @ slash # n) sub else [])"
  have pr: "slash \<notin> set n" "n \<notin> d_name ` set ds" "tree_proper sub" "tree_proper ds" using 2(3) by simp_all
  have proper: "slash \<notin> set m" if "m \<in> d_name ` set ds" for m
    using that pr(4) by (induction ds rule: tree_proper.induct) auto
  have own: "\<exists>r. fe_name fe = l @ slash # n @ r \<and> (r = [] \<or> hd r = slash)" if "fe \<in> set ?own" for fe
  proof (cases "fe = surveyed my_ip (l @ slash # n) is_dir mtime")
    case True
    then show ?thesis by (simp add: surveyed_def)
  next
    case False
    with that have "fe \<in> set (files_below my_ip (l @ slash # n) sub)" by (auto split: if_splits)
    from files_below_name [OF this] obtain m r where "fe_name fe = (l @ slash # n) @ slash # m @ r" by blast
    then show ?thesis by (intro exI [of _ "slash # m @ r"]) simp
  qed
  have "fe_name fe \<noteq> fe_name ge" if fe: "fe \<in> set ?own" and ge: "ge \<in> set (files_below my_ip l ds)" for fe ge
  proof
    assume eq: "fe_name fe = fe_name ge"
    from own [OF fe] obtain r where r: "fe_name fe = l @ slash # n @ r" "r = [] \<or> hd r = slash" by blast
    from files_below_name [OF ge] obtain m r' where
      m: "m \<in> d_name ` set ds" "fe_name ge = l @ slash # m @ r'" "r' = [] \<or> hd r' = slash" by blast
    from eq r(1) m(2) have "n @ r = m @ r'" by simp
    from path_split [OF pr(1) proper [OF m(1)] r(2) m(3) this] m(1) pr(2) show False by simp
  qed
  moreover have "distinct (map fe_name ?own)"
  proof -
    have "l @ slash # n \<notin> fe_name ` set (files_below my_ip (l @ slash # n) sub)"
    proof
      assume "l @ slash # n \<in> fe_name ` set (files_below my_ip (l @ slash # n) sub)"
      then obtain fe where fe: "fe \<in> set (files_below my_ip (l @ slash # n) sub)" "fe_name fe = l @ slash # n" by auto
      from files_below_name [OF fe(1)] fe(2) show False by auto
    qed
    then show ?thesis using 2(1) pr(3) by (simp add: surveyed_def)
  qed
  ultimately show ?case using 2(2) [OF pr(4)] unfolding files_below.simps map_append distinct_append by (auto simp: image_iff)
qed simp

lemma survey_walk:
  shows "ft_inv ft \<Longrightarrow> ft_callocs ft = [] \<Longrightarrow> opens \<Longrightarrow> tree_fits d l ds \<Longrightarrow>
      distinct (map fe_name (files_below my_ip l ds)) \<Longrightarrow> \<forall>fe \<in> set (files_below my_ip l ds). ft_map ft (fe_name fe) = None \<Longrightarrow>
    \<exists>ft'. get_file_table_r my_ip d l opens ds ft = Inr (0, ft') \<and> ft_inv ft' \<and> ft_callocs ft' = [] \<and>
      ft_map ft' = add_files (files_below my_ip l ds) (ft_map ft)"
    and "ft_inv ft \<Longrightarrow> ft_callocs ft = [] \<Longrightarrow> ret = 0 \<Longrightarrow> tree_fits d l ds \<Longrightarrow>
      distinct (map fe_name (files_below my_ip l ds)) \<Longrightarrow> \<forall>fe \<in> set (files_below my_ip l ds). ft_map ft (fe_name fe) = None \<Longrightarrow>
    \<exists>ft'. get_entries my_ip d l ret ds ft = Inr (0, ft') \<and> ft_inv ft' \<and> ft_callocs ft' = [] \<and>
      ft_map ft' = add_files (files_below my_ip l ds) (ft_map ft)"
proof (induction my_ip d l opens ds ft and my_ip d l ret ds ft rule: get_file_table_r_get_entries.induct)
  case (1 my_ip d l opens ds ft)
  have "\<exists>ft'. get_entries my_ip d l 0 ds ft = Inr (0, ft') \<and> ft_inv ft' \<and> ft_callocs ft' = [] \<and>
      ft_map ft' = add_files (files_below my_ip l ds) (ft_map ft)"
    using 1(4) by (intro 1(1) [OF _ 1(2,3) _ 1(5-7)]) simp_all
  with 1(4) show ?case by simp
next
  case (2 my_ip d l ret ft)
  then show ?case by simp
next
  case (3 my_ip d l ret n is_dir mtime opens sub ds ft)
  let ?p = "brk (ft_heap ft)" and ?ft = "ft\<lparr>ft_heap := snd (hnew fe_zero (ft_heap ft))\<rparr>"
  let ?T = "fe_modify (\<lambda>fe. fe\<lparr>fe_type := ucast (if is_dir then DIRECTORY else REGULAR)\<rparr>) ?p"
  let ?fe = "surveyed my_ip (l @ slash # n) is_dir mtime"
  let ?own = "if dots n then [] else [?fe]" and ?sub = "if is_dir \<and> \<not> dots n then files_below my_ip (l @ slash # n) sub else []"
  have files: "files_below my_ip l (Dirent n is_dir mtime opens sub # ds) = ?own @ ?sub @ files_below my_ip l ds" by simp
  have alloc: "file_entry_alloc ft = (?p, ?ft)" "?p \<noteq> NULL"
    using alloc_eq [OF 3(4,5)] ft_inv_heap [OF 3(4)] by (simp_all add: heap_ok_def)
  have len: "length (d @ slash # n) < MAX_NAME_LEN" "length (l @ slash # n) < MAX_NAME_LEN" and rest: "tree_fits d l ds"
    using 3(7) by simp_all
  have dist: "distinct (map fe_name ?own @ map fe_name ?sub @ map fe_name (files_below my_ip l ds))"
    using 3(8) unfolding files map_append .
  have new: "\<forall>fe \<in> set ?own \<union> set ?sub \<union> set (files_below my_ip l ds). ft_map ft (fe_name fe) = None"
    using 3(9) unfolding files set_append by blast
  obtain ft1 where ft1: "ebind (if \<not> dots n then survey_entry my_ip d l n mtime ?p ?ft else Inr ?ft) ?T = Inr ft1"
    "ft_inv ft1" "ft_callocs ft1 = []" "ft_map ft1 = add_files ?own (ft_map ft)"
  proof (cases "dots n")
    case True
    with survey_dots [OF 3(4), of "\<lambda>fe. fe\<lparr>fe_type := ucast (if is_dir then DIRECTORY else REGULAR)\<rparr>" fe_zero] 3(5) that
    show ?thesis by auto
  next
    case False
    then have "ft_map ft (l @ slash # n) = None" using new by (simp add: surveyed_def)
    from survey_file [OF 3(4,5) this len, of my_ip mtime is_dir] False that show ?thesis by (auto simp: surveyed_def)
  qed
  have new1: "\<forall>fe \<in> set ?sub \<union> set (files_below my_ip l ds). ft_map ft1 (fe_name fe) = None"
  proof
    fix fe
    assume fe: "fe \<in> set ?sub \<union> set (files_below my_ip l ds)"
    then have "fe_name fe \<notin> fe_name ` set ?own" using dist unfolding distinct_append set_append set_map by blast
    with fe new show "ft_map ft1 (fe_name fe) = None" by (simp add: ft1(4) add_files_other)
  qed
  have run: "get_entries my_ip d l ret (Dirent n is_dir mtime opens sub # ds) ft =
     (if is_dir \<and> \<not> dots n
      then ebind (get_file_table_r my_ip (d @ slash # n) (l @ slash # n) opens sub ft1) (\<lambda>(r, ft).
             get_entries my_ip d l (if r \<noteq> 0 \<or> ret \<noteq> 0 then 1 else 0) ds ft)
      else get_entries my_ip d l ret ds ft1)"
  proof -
    from ft1(1) obtain ft0 where "(if \<not> dots n then survey_entry my_ip d l n mtime ?p ?ft else Inr ?ft) = Inr ft0" "?T ft0 = Inr ft1"
      unfolding ebind_eq_Inr by blast
    then show ?thesis using alloc by simp
  qed
  show ?case
  proof (cases "is_dir \<and> \<not> dots n")
    case True
    then have o: "opens" "tree_fits (d @ slash # n) (l @ slash # n) sub" using 3(7) by simp_all
    have "\<exists>ft'. get_file_table_r my_ip (d @ slash # n) (l @ slash # n) opens sub ft1 = Inr (0, ft') \<and> ft_inv ft' \<and> ft_callocs ft' = [] \<and>
        ft_map ft' = add_files (files_below my_ip (l @ slash # n) sub) (ft_map ft1)"
    proof (rule 3(1) [OF _ _ _ _ ft1(2,3) o])
      show "distinct (map fe_name (files_below my_ip (l @ slash # n) sub))" using dist True by simp
      show "\<forall>fe \<in> set (files_below my_ip (l @ slash # n) sub). ft_map ft1 (fe_name fe) = None" using new1 True by simp
    qed (use alloc True in auto)
    then obtain ft2 where ft2: "get_file_table_r my_ip (d @ slash # n) (l @ slash # n) opens sub ft1 = Inr (0, ft2)" "ft_inv ft2" "ft_callocs ft2 = []"
      "ft_map ft2 = add_files (files_below my_ip (l @ slash # n) sub) (ft_map ft1)" by blast
    have "\<exists>ft'. get_entries my_ip d l (if (0 :: int) \<noteq> 0 \<or> ret \<noteq> 0 then 1 else 0) ds ft2 = Inr (0, ft') \<and> ft_inv ft' \<and> ft_callocs ft' = [] \<and>
        ft_map ft' = add_files (files_below my_ip l ds) (ft_map ft2)"
    proof (rule 3(2) [OF _ _ _ _ ft2(2,3) _ rest])
      show "distinct (map fe_name (files_below my_ip l ds))" using dist by simp
      show "\<forall>fe \<in> set (files_below my_ip l ds). ft_map ft2 (fe_name fe) = None"
      proof
        fix fe
        assume fe: "fe \<in> set (files_below my_ip l ds)"
        then have "fe_name fe \<notin> fe_name ` set (files_below my_ip (l @ slash # n) sub)" using dist True by (auto simp: image_iff)
        with fe new1 show "ft_map ft2 (fe_name fe) = None" by (simp add: ft2(4) add_files_other)
      qed
    qed (use alloc True 3(6) in auto)
    with True run ft2 ft1(4) files show ?thesis by auto
  next
    case False
    have "\<exists>ft'. get_entries my_ip d l ret ds ft1 = Inr (0, ft') \<and> ft_inv ft' \<and> ft_callocs ft' = [] \<and>
        ft_map ft' = add_files (files_below my_ip l ds) (ft_map ft1)"
    proof (rule 3(3) [OF _ _ _ _ ft1(2,3) 3(6) rest])
      show "distinct (map fe_name (files_below my_ip l ds))" using dist by simp
      show "\<forall>fe \<in> set (files_below my_ip l ds). ft_map ft1 (fe_name fe) = None" using new1 by simp
    qed (use alloc False in auto)
    with False run ft1(4) files show ?thesis by auto
  qed
qed

fun all_files :: "u32 \<Rightarrow> nat \<Rightarrow> target list \<Rightarrow> file_entry list" where
  "all_files my_ip i [] = []"
| "all_files my_ip i ((d, opens, ds) # ts) = files_below my_ip (decimal i) ds @ all_files my_ip (Suc i) ts"

lemma all_files_name:
  "fe \<in> set (all_files my_ip i ts) \<Longrightarrow> \<exists>k x. i \<le> k \<and> fe_name fe = decimal k @ slash # x"
proof (induction my_ip i ts rule: all_files.induct)
  case (2 my_ip i d opens ds ts)
  show ?case
  proof (cases "fe \<in> set (files_below my_ip (decimal i) ds)")
    case True
    from files_below_name [OF this] show ?thesis by auto
  next
    case False
    with 2(2) have "fe \<in> set (all_files my_ip (Suc i) ts)" by simp
    from 2(1) [OF this] obtain k x where "Suc i \<le> k" "fe_name fe = decimal k @ slash # x" by blast
    then show ?thesis by (intro exI [of _ k] exI [of _ x]) simp
  qed
qed simp

lemma all_files_distinct:
  "\<forall>(d, opens, ds) \<in> set ts. tree_proper ds \<Longrightarrow> distinct (map fe_name (all_files my_ip i ts))"
proof (induction my_ip i ts rule: all_files.induct)
  case (2 my_ip i d opens ds ts)
  have "fe_name fe \<noteq> fe_name ge" if fe: "fe \<in> set (files_below my_ip (decimal i) ds)" and ge: "ge \<in> set (all_files my_ip (Suc i) ts)" for fe ge
  proof
    assume eq: "fe_name fe = fe_name ge"
    from files_below_name [OF fe] obtain x where x: "fe_name fe = decimal i @ slash # x" by auto
    from all_files_name [OF ge] obtain k y where k: "Suc i \<le> k" "fe_name ge = decimal k @ slash # y" by blast
    from eq x k(2) have "decimal i @ slash # x = decimal k @ slash # y" by simp
    from path_split [OF decimal_no_slash decimal_no_slash _ _ this] have "decimal i = decimal k" by simp
    with k(1) decimal_inj show False by fastforce
  qed
  moreover have "distinct (map fe_name (files_below my_ip (decimal i) ds))" using 2(2) by (simp add: files_below_distinct)
  moreover have "distinct (map fe_name (all_files my_ip (Suc i) ts))" using 2 by simp
  ultimately show ?case unfolding all_files.simps map_append distinct_append by (auto simp: image_iff)
qed simp

lemma survey_targets:
  assumes "ft_inv ft" and "ft_callocs ft = []" and "targets_fit i ts" and "distinct (map fe_name (all_files my_ip i ts))"
    and "\<forall>fe \<in> set (all_files my_ip i ts). ft_map ft (fe_name fe) = None"
  shows "\<exists>ft'. get_file_table_from my_ip i ts ft = Inr (0, ft') \<and> ft_inv ft' \<and> ft_callocs ft' = [] \<and>
     ft_map ft' = add_files (all_files my_ip i ts) (ft_map ft)"
  using assms
proof (induction ts arbitrary: i ft)
  case (Cons t ts)
  obtain d opens ds where t: "t = (d, opens, ds)" by (cases t)
  let ?own = "files_below my_ip (decimal i) ds"
  have o: "opens" "tree_fits d (decimal i) ds" "targets_fit (Suc i) ts" using Cons.prems(3) by (simp_all add: t)
  have dist: "distinct (map fe_name ?own)" "distinct (map fe_name (all_files my_ip (Suc i) ts))"
      "fe_name ` set ?own \<inter> fe_name ` set (all_files my_ip (Suc i) ts) = {}" using Cons.prems(4) by (simp_all add: t)
  have new: "\<forall>fe \<in> set ?own. ft_map ft (fe_name fe) = None" "\<forall>fe \<in> set (all_files my_ip (Suc i) ts). ft_map ft (fe_name fe) = None"
    using Cons.prems(5) by (simp_all add: t)
  from survey_walk(1) [OF Cons.prems(1,2) o(1,2) dist(1) new(1)] obtain ft1 where
    ft1: "get_file_table_r my_ip d (decimal i) opens ds ft = Inr (0, ft1)" "ft_inv ft1" "ft_callocs ft1 = []"
      "ft_map ft1 = add_files ?own (ft_map ft)" by blast
  have new1: "\<forall>fe \<in> set (all_files my_ip (Suc i) ts). ft_map ft1 (fe_name fe) = None"
  proof
    fix fe
    assume fe: "fe \<in> set (all_files my_ip (Suc i) ts)"
    then have "fe_name fe \<notin> fe_name ` set ?own" using dist(3) by blast
    with fe new(2) show "ft_map ft1 (fe_name fe) = None" by (simp add: ft1(4) add_files_other)
  qed
  from Cons.IH [OF ft1(2,3) o(3) dist(2) new1] ft1 show ?case by (auto simp: t)
qed simp

text \<open>
  C17. The survey finds every file once. On target trees whose names fit their buffers, whose
  directories can be opened, and in which siblings have different names without a slash,
  \<open>get_file_table\<close> fills a fresh table with exactly the files and directories of the trees, each under
  its logic name, with its modification time (0 when \<open>stat\<close> failed) and its type, and with this peer
  as its only owner.
\<close>

theorem survey_records_every_file:
  assumes "targets_fit 1 ts" and "\<forall>(d, opens, ds) \<in> set ts. tree_proper ds"
  shows "\<exists>ft. get_file_table my_ip ts ft_start = Inr (0, ft) \<and> ft_inv ft \<and>
     (\<forall>n fe. ft_map ft n = Some fe \<longleftrightarrow> fe \<in> set (all_files my_ip 1 ts) \<and> fe_name fe = n)"
proof -
  have start: "ft_inv ft_start" "ft_callocs ft_start = []" "ft_map ft_start = (\<lambda>_. None)"
    using ft_start_rep by (simp_all add: ft_rep_def)
  note dist = all_files_distinct [OF assms(2), of my_ip 1]
  from survey_targets [OF start(1,2) assms(1) dist] start(3) obtain ft where
    ft: "get_file_table_from my_ip 1 ts ft_start = Inr (0, ft)" "ft_inv ft" "ft_map ft = add_files (all_files my_ip 1 ts) (\<lambda>_. None)"
    by auto
  have "ft_map ft n = Some fe \<longleftrightarrow> fe \<in> set (all_files my_ip 1 ts) \<and> fe_name fe = n" for n fe
    unfolding ft(3) using add_files_iff [OF dist, of "\<lambda>_. None" n fe] by simp
  with ft(1,2) show ?thesis by (auto simp: get_file_table_def)
qed

theorem survey_records_every_file_witness:
  "\<exists>ft. get_file_table 9 [(''/home'', True, tree_example)] ft_start = Inr (0, ft) \<and>
     map_option fe_timestamp (ft_map ft ''1/a/g'') = Some 9 \<and> map_option fe_type (ft_map ft ''1/a'') = Some 1"
proof -
  have "\<forall>(d, opens, ds) \<in> set [(''/home'', True, tree_example)]. tree_proper ds" by (simp add: tree_example_def slash_def)
  from survey_records_every_file [OF tree_example_fits this, of 9] obtain ft where
    ft: "get_file_table 9 [(''/home'', True, tree_example)] ft_start = Inr (0, ft)"
      "\<And>n fe. ft_map ft n = Some fe \<longleftrightarrow> fe \<in> set (all_files 9 1 [(''/home'', True, tree_example)]) \<and> fe_name fe = n" by blast
  have files: "all_files 9 1 [(''/home'', True, tree_example)] =
      [surveyed 9 ''1/a'' True (Some 7), surveyed 9 ''1/a/b'' True None, surveyed 9 ''1/a/g'' False (Some 9), surveyed 9 ''1/f'' False (Some 8)]"
    by (simp add: tree_example_def decimal_1 dots_def slash_def)
  have "ft_map ft ''1/a/g'' = Some (surveyed 9 ''1/a/g'' False (Some 9))" "ft_map ft ''1/a'' = Some (surveyed 9 ''1/a'' True (Some 7))"
    unfolding ft(2) files by (simp_all add: surveyed_def)
  with ft(1) show ?thesis by (simp add: surveyed_def DIRECTORY_def)
qed

end
