(* ===== verification/SyncAgreement.thy ===== *)
theory SyncAgreement
  imports Agreement MonitorWalk
begin

text \<open>
  The lemmas behind the synchronisation at start-up: the merge of the two tables on the side of the tracker and
  what the peer learns from the answer lead to maps that agree. The answer is copied over the table the peer has
  sent, so that the four bytes the length macro leaves out are those of the old table.
\<close>

section \<open>Both sides of a synchronisation\<close>

text \<open>A run over entries of different names, at one name.\<close>

lemma fold_adds_at:
  assumes "distinct (map te_name tes)"
  shows "fold map_exec (map FT_Add tes) M n =
     (case find (\<lambda>te. te_name te = n) tes of None \<Rightarrow> M n | Some te \<Rightarrow> Some (add_spec (M n) te))"
  using assms
proof (induction tes arbitrary: M)
  case (Cons te tes)
  have "find (\<lambda>x. te_name x = te_name te) tes = None"
    using Cons.prems by (force simp: find_None_iff image_iff)
  with Cons show ?case by (auto split: option.split)
qed simp

lemma fold_learn_at:
  assumes "distinct (map te_name tes)"
  shows "fold (learn_map my_ip) tes M n =
     (case find (\<lambda>te. te_name te = n) tes of None \<Rightarrow> M n
      | Some te \<Rightarrow> Some (case M n of None \<Rightarrow> entry_of te | Some fe \<Rightarrow> refreshed my_ip te fe))"
  using assms
proof (induction tes arbitrary: M)
  case (Cons te tes)
  have "find (\<lambda>x. te_name x = te_name te) tes = None"
    using Cons.prems by (force simp: find_None_iff image_iff)
  with Cons show ?case by (auto simp: learn_map_def split: option.split)
qed simp

text \<open>The table a peer sends lists its own map, with itself as the only owner.\<close>

definition lists_own :: "u32 \<Rightarrow> trans_file_entry list \<Rightarrow> file_map \<Rightarrow> bool" where
  "lists_own my_ip tes M \<longleftrightarrow> distinct (map te_name tes) \<and>
     (\<forall>n. rel_option (\<lambda>te fe. te_timestamp te = fe_timestamp fe \<and> pid_ip ` set (te_owner_list te) = {my_ip} \<and> owner_ips fe = {my_ip})
        (find (\<lambda>te. te_name te = n) tes) (M n))"

lemma find_like:
  assumes "list_all2 te_like R R'"
  shows "rel_option te_like (find (\<lambda>te. te_name te = n) R) (find (\<lambda>te. te_name te = n) R')"
  using assms by (induction rule: list_all2_induct) (auto simp: te_like_def)

lemma like_names: "list_all2 te_like R R' \<Longrightarrow> map te_name R' = map te_name R"
  by (induction rule: list_all2_induct) (auto simp: te_like_def)

lemma find_reply:
  assumes "distinct (map te_name R)" and "set R = (\<Union>n. \<Union>fe \<in> set_option (M n). set (peer_news tft fe))"
    and "\<forall>n fe. M n = Some fe \<longrightarrow> fe_name fe = n"
  shows "find (\<lambda>te. te_name te = n) R = (case M n of None \<Rightarrow> None | Some fe \<Rightarrow> find (\<lambda>te. te_name te = n) (peer_news tft fe))"
proof -
  have names: "te_name te = fe_name fe" if "te \<in> set (peer_news tft fe)" for te fe
    using that by (auto simp: peer_news_def te_of_def split: option.splits if_splits)
  have dist: "distinct (map te_name (peer_news tft fe))" for fe
    by (simp add: peer_news_def split: option.split)
  have "find (\<lambda>te. te_name te = n) R = Some te \<longleftrightarrow> (\<exists>fe. M n = Some fe \<and> te \<in> set (peer_news tft fe))" for te
    unfolding find_by_key [OF assms(1)] assms(2) using names assms(3) by fastforce
  moreover have "(case M n of None \<Rightarrow> None | Some fe \<Rightarrow> find (\<lambda>te. te_name te = n) (peer_news tft fe)) = Some te \<longleftrightarrow>
      (\<exists>fe. M n = Some fe \<and> te \<in> set (peer_news tft fe))" for te
    using find_by_key [OF dist] names assms(3) by (auto split: option.split)
  ultimately show ?thesis by (metis option.exhaust)
qed

lemma te_of_entry:
  assumes "length (fe_owners fe) \<le> MAX_PEER_ENTRIES"
  shows "te_owner_list ((te_of fe)\<lparr>te_op_type := op\<rparr>) = fe_owners fe" "te_timestamp ((te_of fe)\<lparr>te_op_type := op\<rparr>) = fe_timestamp fe"
  using te_owner_list_te_of [OF assms] by (simp_all add: te_owner_list_def te_of_def)

lemma learnt_agrees:
  assumes "te_like ((te_of fe)\<lparr>te_op_type := op\<rparr>) te'" and "length (fe_owners fe) \<le> MAX_PEER_ENTRIES"
  shows "fe_timestamp fe = fe_timestamp (entry_of te') \<and> owner_ips fe - {my_ip} = owner_ips (entry_of te') - {my_ip}"
  using assms(1) te_like_ips [OF assms(1)] te_of_entry [OF assms(2), of op] owners_add_ips [of "te_owner_list te'" "[]"]
  by (simp add: te_like_def entry_of_def owner_ips_def)

text \<open>A file both sides have: \<open>r\<close> is what the answer says about it.\<close>

lemma merged_agrees:
  assumes fe: "length (fe_owners fe) \<le> MAX_PEER_ENTRIES"
    and own: "te_timestamp te = fe_timestamp ge" "pid_ip ` set (te_owner_list te) = {my_ip}" "owner_ips ge = {my_ip}"
    and "find (\<lambda>te. te_name te = fe_name fe) (tft_list tft) = Some te"
    and like: "rel_option te_like (find (\<lambda>te. te_name te = fe_name fe) (peer_news tft fe)) r"
  shows "let ge' = (case r of None \<Rightarrow> ge | Some te' \<Rightarrow> refreshed my_ip te' ge) in
     fe_timestamp (entry_merge fe te) = fe_timestamp ge' \<and> owner_ips (entry_merge fe te) - {my_ip} = owner_ips ge' - {my_ip}"
proof -
  have merge: "fe_timestamp (entry_merge fe te) = max (fe_timestamp fe) (te_timestamp te)"
    "owner_ips (entry_merge fe te) - {my_ip} = (if fe_timestamp fe < te_timestamp te then {} else owner_ips fe - {my_ip})"
    using own(2) by (auto simp: entry_merge_def owner_ips_def owners_add_ips max_def)
  let ?te = "(te_of fe)\<lparr>te_op_type := FILE_MODIFY\<rparr>"
  let ?sent = "te_timestamp te < fe_timestamp fe \<or> te_timestamp te = fe_timestamp fe \<and> fe_owners fe \<noteq> te_owner_list te"
  have news: "find (\<lambda>te. te_name te = fe_name fe) (peer_news tft fe) = (if ?sent then Some ?te else None)"
    using assms(5) by (simp add: peer_news_def te_of_def)
  show ?thesis
  proof (cases ?sent)
    case True
    with like news obtain te' where te': "r = Some te'" "te_like ?te te'" by (cases r) auto
    have "fe_timestamp ge \<le> te_timestamp ?te" using True own(1) te_of_entry [OF fe] by auto
    note new = refreshed_agrees [OF te'(2) this, of my_ip, unfolded te_of_entry [OF fe]]
    have "\<not> fe_timestamp fe < te_timestamp te" "max (fe_timestamp fe) (te_timestamp te) = fe_timestamp fe"
      using True by (auto simp: max_def)
    then show ?thesis unfolding merge te'(1) Let_def option.case using new by (simp only: owner_ips_def if_False)
  next
    case False
    then have none: "r = None" using like unfolding news if_not_P [OF False] by (cases r) auto
    have le: "fe_timestamp fe \<le> te_timestamp te" using False by (simp add: not_less)
    have "(if fe_timestamp fe < te_timestamp te then {} else owner_ips fe - {my_ip}) = {}"
    proof (cases "fe_timestamp fe < te_timestamp te")
      case neq: False
      with le False have "fe_owners fe = te_owner_list te" by (simp add: not_less)
      with own(2) show ?thesis by (simp add: owner_ips_def)
    qed simp
    with max_absorb2 [OF le] show ?thesis unfolding merge none Let_def option.case own by simp
  qed
qed

text \<open>After the merge by the tracker and the learning by the peer the two maps agree.\<close>

lemma sync_agrees:
  assumes MT: "map_ok N P MT" and own: "lists_own my_ip (tft_list tft) MP"
    and R: "distinct (map te_name R)" "set R = (\<Union>n. \<Union>fe \<in> set_option (MT n). set (peer_news tft fe))" "list_all2 te_like R R'"
  shows "agree my_ip (fold map_exec (map FT_Add (tft_list tft)) MT) (fold (learn_map my_ip) R' MP)"
proof -
  let ?tes = "tft_list tft"
  have dist: "distinct (map te_name ?tes)" "distinct (map te_name R')"
    using own R(1) like_names [OF R(3)] by (simp_all add: lists_own_def)
  have ok: "fe_name fe = n" "length (fe_owners fe) \<le> MAX_PEER_ENTRIES" if "MT n = Some fe" for n fe
    using that MT owners_small [of N P fe] by (auto simp: map_ok_def bounded_def)
  have "rel_option (\<lambda>fe ge. fe_timestamp fe = fe_timestamp ge \<and> owner_ips fe - {my_ip} = owner_ips ge - {my_ip})
      (fold map_exec (map FT_Add ?tes) MT n) (fold (learn_map my_ip) R' MP n)" for n
  proof -
    have te: "rel_option (\<lambda>te fe. te_timestamp te = fe_timestamp fe \<and> pid_ip ` set (te_owner_list te) = {my_ip} \<and> owner_ips fe = {my_ip})
        (find (\<lambda>te. te_name te = n) ?tes) (MP n)" using own by (simp add: lists_own_def)
    note at = fold_adds_at [OF dist(1), of MT n] fold_learn_at [OF dist(2), of my_ip MP n]
    have like: "rel_option te_like (case MT n of None \<Rightarrow> None | Some fe \<Rightarrow> find (\<lambda>te. te_name te = n) (peer_news tft fe))
        (find (\<lambda>te. te_name te = n) R')"
      using find_like [OF R(3), of n] find_reply [OF R(1,2), of n] ok(1) by simp
    consider (new) "find (\<lambda>te. te_name te = n) ?tes = None" "MP n = None"
      | (old) te ge where "find (\<lambda>te. te_name te = n) ?tes = Some te" "MP n = Some ge" "te_timestamp te = fe_timestamp ge"
          "pid_ip ` set (te_owner_list te) = {my_ip}" "owner_ips ge = {my_ip}"
      using te by (cases "find (\<lambda>te. te_name te = n) ?tes"; cases "MP n") auto
    then show ?thesis
    proof cases
      case new
      show ?thesis
      proof (cases "MT n")
        case (Some fe)
        let ?te = "(te_of fe)\<lparr>te_op_type := FILE_ADD\<rparr>"
        have "find (\<lambda>te. te_name te = n) (peer_news tft fe) = Some ?te"
          using new(1) ok(1) [OF Some] by (simp add: peer_news_def te_of_def)
        with like Some obtain te' where te': "find (\<lambda>te. te_name te = n) R' = Some te'" "te_like ?te te'"
          by (cases "find (\<lambda>te. te_name te = n) R'") auto
        from learnt_agrees [OF te'(2) ok(2) [OF Some]] show ?thesis unfolding at using new te'(1) Some by simp
      qed (use new like in \<open>simp add: at\<close>)
    next
      case old
      show ?thesis
      proof (cases "MT n")
        case None
        then show ?thesis unfolding at using old like by (auto simp: add_spec_def entry_of_def owner_ips_def owners_add_ips)
      next
        case (Some fe)
        have "find (\<lambda>te. te_name te = fe_name fe) ?tes = Some te" using old(1) ok(1) [OF Some] by simp
        from merged_agrees [OF ok(2) [OF Some] old(3-5) this, of "find (\<lambda>te. te_name te = n) R'"] like ok(1) [OF Some] Some
        show ?thesis unfolding at old(1,2) by (auto simp: add_spec_def Let_def split: option.splits)
      qed
    qed
  qed
  then show ?thesis by (simp add: agree_def)
qed

section \<open>The answer over the old table\<close>

definition set_port :: "u16 \<Rightarrow> trans_file_entry \<Rightarrow> trans_file_entry" where
  "set_port p te = te\<lparr>te_owners := (te_owners te)[15 := (te_owners te ! 15)\<lparr>pid_port := p\<rparr>]\<rparr>"

lemma set_port_like: "te_sendable te \<Longrightarrow> te_like te (set_port p te)"
proof -
  assume "te_sendable te"
  then have "15 < length (te_owners te)" by (simp add: te_sendable_def MAX_PEER_ENTRIES_def)
  then have "map pid_ip ((te_owners te)[15 := (te_owners te ! 15)\<lparr>pid_port := p\<rparr>]) = map pid_ip (te_owners te)"
    by (simp add: map_update) (metis list_update_id nth_map)
  then show ?thesis unfolding te_like_def te_owner_list_def set_port_def by (simp flip: take_map)
qed

lemma field_within: "off + len \<le> length xs \<Longrightarrow> field off len xs = take len (drop off xs)"
  by (simp add: field_def)

lemma field_inside:
  assumes "off + len \<le> n" and "n \<le> length xs"
  shows "field off len (take n xs @ zs) = field off len xs"
proof -
  have "take len (drop off (take n xs @ zs)) = take len (drop off xs)" using assms by (simp add: drop_take min_def) auto
  then show ?thesis using assms by (simp add: field_within)
qed

lemma field_front: "len \<le> n \<Longrightarrow> field 0 len (field 0 n zs) = field 0 len zs"
  by (simp add: field_def min_def)

lemma field_across:
  assumes "length xs = off + k" and "k \<le> len"
  shows "field off len (xs @ zs) = drop off xs @ field 0 (len - k) zs"
proof -
  have "drop off xs @ take (len - k) (zs @ replicate len 0) = drop off xs @ take (len - k) (zs @ replicate (len - k) 0)"
    by (simp add: min_def)
  then show ?thesis using assms by (simp add: field_def)
qed

lemma entry_with_tail:
  assumes "te_sendable te"
  shows "entry_of_bytes (take 268 (entry_bytes te) @ zs) = set_port (get_le (field 0 2 zs)) te"
proof -
  let ?bs = "take 268 (entry_bytes te) @ zs"
  have len: "length (entry_bytes te) = 272" using assms by (simp add: te_sendable_def length_entry_bytes)
  have in_: "field off n ?bs = field off n (entry_bytes te)" if "off + n \<le> 268" for off n
    using that len by (simp add: field_inside)
  have whole: "entry_of_bytes (entry_bytes te) = te" using entry_roundtrip [OF assms, of "[]"] by simp
  have os: "length (te_owners te) = 16" using assms by (simp add: te_sendable_def MAX_PEER_ENTRIES_def)
  have last: "peer_id_of_bytes (field 264 8 ?bs) = (te_owners te ! 15)\<lparr>pid_port := get_le (field 0 2 zs)\<rparr>"
  proof -
    have "field 264 8 (entry_bytes te) = peer_id_bytes (te_owners te ! 15)"
      using entry_owner_field [OF assms, of 15 "[]"] by (simp add: MAX_PEER_ENTRIES_def)
    then have "drop 264 (entry_bytes te) = peer_id_bytes (te_owners te ! 15)" using len by (simp add: field_def)
    then have "field 264 8 ?bs = put_le 4 (pid_ip (te_owners te ! 15)) @ field 0 4 zs"
      using len field_across [of "take 268 (entry_bytes te)" 264 4 8 zs] by (simp add: drop_take peer_id_bytes_def)
    moreover have "field 4 2 (put_le 4 (pid_ip (te_owners te ! 15)) @ field 0 4 zs) = field 0 2 zs"
      using field_front [of 2 4 zs] by (simp add: field_skip)
    ultimately show ?thesis by (simp add: peer_id_of_bytes_def field_prefix)
  qed
  have owners: "map (\<lambda>i. peer_id_of_bytes (field (144 + 8 * i) 8 ?bs)) [0..<MAX_PEER_ENTRIES] =
      (te_owners te)[15 := (te_owners te ! 15)\<lparr>pid_port := get_le (field 0 2 zs)\<rparr>]"
  proof (rule nth_equalityI)
    fix i assume "i < length (map (\<lambda>i. peer_id_of_bytes (field (144 + 8 * i) 8 ?bs)) [0..<MAX_PEER_ENTRIES])"
    then have i: "i < 16" by (simp add: MAX_PEER_ENTRIES_def)
    show "map (\<lambda>i. peer_id_of_bytes (field (144 + 8 * i) 8 ?bs)) [0..<MAX_PEER_ENTRIES] ! i =
        (te_owners te)[15 := (te_owners te ! 15)\<lparr>pid_port := get_le (field 0 2 zs)\<rparr>] ! i"
    proof (cases "i = 15")
      case True
      then show ?thesis using last os by (simp add: MAX_PEER_ENTRIES_def)
    next
      case False
      with i have "144 + 8 * i + 8 \<le> 268" by simp
      with False i show ?thesis using in_ [of "144 + 8 * i" 8] entry_owner_field [OF assms, of i "[]"] by (simp add: MAX_PEER_ENTRIES_def)
    qed
  qed (simp add: os MAX_PEER_ENTRIES_def)
  have "entry_of_bytes ?bs = (entry_of_bytes (entry_bytes te))\<lparr>te_owners :=
      map (\<lambda>i. peer_id_of_bytes (field (144 + 8 * i) 8 ?bs)) [0..<MAX_PEER_ENTRIES]\<rparr>"
    by (simp add: entry_of_bytes_def in_)
  then show ?thesis unfolding whole owners by (simp add: set_port_def)
qed

lemma overwritten_entry:
  assumes t: "table_sendable t" and i: "i < length (tft_entries t)"
  shows "\<exists>te. entry_of_bytes (field (8 + 272 * i) 272 (take (4 + 272 * length (tft_entries t)) (table_bytes t) @ zs)) = te \<and>
     te_like (tft_entries t ! i) te \<and> (te_ok (tft_entries t ! i) \<longrightarrow> te_ok te)"
proof -
  let ?te = "tft_entries t ! i" and ?n = "4 + 272 * length (tft_entries t)" and ?off = "8 + 272 * i"
  have len: "length (table_bytes t) = ?n + 4" by (simp add: length_table_bytes [OF t])
  have te: "te_sendable ?te" using t i by (simp add: table_sendable_def)
  have eb: "length (entry_bytes ?te) = 272" using table_sendable_entry [OF t] i by simp
  have entry: "field ?off 272 (table_bytes t) = entry_bytes ?te" by (rule table_entry_field [OF t i])
  show ?thesis
  proof (cases "Suc i = length (tft_entries t)")
    case False
    then have "field ?off 272 (take ?n (table_bytes t) @ zs) = entry_bytes ?te"
      using i len entry by (subst field_inside) simp_all
    then show ?thesis using entry_roundtrip [OF te, of "[]"] by simp
  next
    case True
    then have n: "?n = ?off + 268" by simp
    have "take 272 (drop ?off (table_bytes t)) = entry_bytes ?te" using entry len n eb by (simp add: field_within)
    from arg_cong [OF this, of "take 268"] have "take 268 (drop ?off (table_bytes t)) = take 268 (entry_bytes ?te)" by simp
    then have "drop ?off (take ?n (table_bytes t)) = take 268 (entry_bytes ?te)" unfolding n by (simp add: drop_take)
    then have "field ?off 272 (take ?n (table_bytes t) @ zs) = take 268 (entry_bytes ?te) @ field 0 4 zs"
      using field_across [of "take ?n (table_bytes t)" ?off 268 272 zs] len n by simp
    then show ?thesis using entry_with_tail [OF te, of "field 0 4 zs"] set_port_like [OF te]
      by (simp add: te_ok_def set_port_def)
  qed
qed

lemma overwritten_table:
  assumes t: "table_sendable (tft_of R)"
  shows "tft_n (table_of_bytes (take (4 + 272 * length R) (table_bytes (tft_of R)) @ zs)) = int (length R)"
    and "list_all2 te_like R (tft_list (table_of_bytes (take (4 + 272 * length R) (table_bytes (tft_of R)) @ zs)))"
    and "\<forall>te \<in> set R. te_ok te \<Longrightarrow> \<forall>te \<in> set (tft_list (table_of_bytes (take (4 + 272 * length R) (table_bytes (tft_of R)) @ zs))). te_ok te"
proof -
  let ?bs = "take (4 + 272 * length R) (table_bytes (tft_of R)) @ zs"
  let ?u = "table_of_bytes ?bs"
  have len: "length (table_bytes (tft_of R)) = 8 + 272 * length R" and R: "length R \<le> MAX_FILE_ENTRIES"
    using length_table_bytes [OF t] t by (simp_all add: tft_of_def table_sendable_def)
  have "field 0 4 ?bs = put_le 4 (word_of_int (int (length R)) :: u32)"
    using len by (simp add: field_inside table_n_field tft_of_def)
  then show n: "tft_n ?u = int (length R)" using sint_small [OF R] by (simp add: table_of_bytes_def)
  have "length R \<le> (length ?bs - 8 + 271) div 272" using len by (cases "length R") (simp_all add: min_def)
  then have "nth_default te_zero (tft_entries ?u) i = entry_of_bytes (field (8 + 272 * i) 272 ?bs)" if "i < length R" for i
    using that R by (simp add: nth_default_def table_of_bytes_def)
  then have at: "tft_list ?u ! i = entry_of_bytes (field (8 + 272 * i) 272 ?bs)" "length (tft_list ?u) = length R" if "i < length R" for i
    using that n by (simp_all add: tft_list_def)
  have ent: "te_like (R ! i) (tft_list ?u ! i) \<and> (te_ok (R ! i) \<longrightarrow> te_ok (tft_list ?u ! i))" if "i < length R" for i
    using that at overwritten_entry [OF t, of i zs] by (simp add: tft_of_def)
  have l: "length (tft_list ?u) = length R" using n by (simp add: tft_list_def)
  show "list_all2 te_like R (tft_list ?u)" using ent l by (simp add: list_all2_conv_all_nth)
  show "\<forall>te \<in> set R. te_ok te \<Longrightarrow> \<forall>te \<in> set (tft_list ?u). te_ok te"
    unfolding all_set_conv_all_nth l using ent by blast
qed

section \<open>The table a peer sends\<close>

lemma files_below_own:
  "fe \<in> set (files_below my_ip l ds) \<Longrightarrow> fe_owners fe = [me my_ip] \<and> unat (fe_type fe) < 2 ^ 16"
  by (induction my_ip l ds rule: files_below.induct) (auto simp: surveyed_def DIRECTORY_def REGULAR_def split: if_splits)

lemma all_files_own: "fe \<in> set (all_files my_ip i ts) \<Longrightarrow> fe_owners fe = [me my_ip] \<and> unat (fe_type fe) < 2 ^ 16"
  by (induction my_ip i ts rule: all_files.induct) (auto dest: files_below_own)

lemma find_te_of: "find (\<lambda>te. te_name te = n) (map te_of fes) = map_option te_of (find (\<lambda>fe. fe_name fe = n) fes)"
  by (induction fes) (auto simp: te_of_def)

lemma cut_own: "\<forall>fe \<in> set fes. fe_owners fe = [me my_ip] \<Longrightarrow> cut_last (tft_of (map te_of fes)) = tft_of (map te_of fes)"
proof -
  have "cut_owner (te_of fe) = te_of fe" if "fe_owners fe = [x]" for fe x
  proof -
    have "te_owners (te_of fe) ! 15 = pid_zero" using that by (simp add: te_of_def MAX_PEER_ENTRIES_def)
    then have "(te_owners (te_of fe))[15 := (te_owners (te_of fe) ! 15)\<lparr>pid_port := 0\<rparr>] = te_owners (te_of fe)"
      by (metis list_update_id peer_id.surjective peer_id.update_convs(2) pid_zero_def)
    then show ?thesis by (simp add: cut_owner_def)
  qed
  moreover assume "\<forall>fe \<in> set fes. fe_owners fe = [me my_ip]"
  ultimately have "cut_owner (last (map te_of fes)) = last (map te_of fes)" if "fes \<noteq> []"
    using that last_in_set [OF that] by (simp add: last_map)
  then show ?thesis by (auto simp: cut_last_def tft_of_def)
qed

text \<open>The table of a peer that owns all its files alone.\<close>

lemma own_table:
  assumes d: "distinct (map fe_name fes)" and M: "\<And>n. M n = find (\<lambda>fe. fe_name fe = n) fes" and len: "length fes \<le> 240"
    and own: "\<And>fe. fe \<in> set fes \<Longrightarrow> fe_owners fe = [me my_ip] \<and> unat (fe_type fe) < 2 ^ 16 \<and> entry_ok fe \<and> CHR 0x00 \<notin> set (fe_name fe)"
  shows "lists_own my_ip (map te_of fes) M" and "table_sendable (tft_of (map te_of fes))" and "\<forall>fe \<in> set fes. te_ok (te_of fe)"
proof -
  have one: "te_timestamp (te_of fe) = fe_timestamp fe \<and> pid_ip ` set (te_owner_list (te_of fe)) = {my_ip} \<and> owner_ips fe = {my_ip}"
    if "fe \<in> set fes" for fe
  proof -
    have "te_owner_list (te_of fe) = [me my_ip]" using own [OF that] te_owner_list_te_of [of fe] by (simp add: MAX_PEER_ENTRIES_def)
    then show ?thesis using own [OF that] by (simp add: owner_ips_def me_def te_of_def)
  qed
  have "rel_option (\<lambda>te fe. te_timestamp te = fe_timestamp fe \<and> pid_ip ` set (te_owner_list te) = {my_ip} \<and> owner_ips fe = {my_ip})
      (find (\<lambda>te. te_name te = n) (map te_of fes)) (M n)" for n
    unfolding find_te_of M using find_by_key [OF d, of n] one by (cases "find (\<lambda>fe. fe_name fe = n) fes") auto
  then show "lists_own my_ip (map te_of fes) M" using d by (simp add: lists_own_def te_of_def comp_def)
  have "te_sendable (te_of fe) \<and> te_ok (te_of fe)" if "fe \<in> set fes" for fe
    using own [OF that] te_of_ok [of fe] by (simp add: te_sendable_def te_of_def entry_ok_def te_fits_def MAX_PEER_ENTRIES_def)
  then show "table_sendable (tft_of (map te_of fes))" and "\<forall>fe \<in> set fes. te_ok (te_of fe)"
    using len by (auto simp: table_sendable_def tft_of_def MAX_FILE_ENTRIES_def)
qed

text \<open>What \<open>get_file_table\<close> and \<open>trans_table_fill_from\<close> make of the target directories.\<close>

lemma survey_table:
  assumes "targets_fit 1 ts" and "\<forall>(d, opens, ds) \<in> set ts. tree_proper ds" and "length (all_files my_ip 1 ts) \<le> 240"
    and nul: "\<forall>fe \<in> set (all_files my_ip 1 ts). CHR 0x00 \<notin> set (fe_name fe)"
  shows "\<exists>ft fes. get_file_table my_ip ts ft_start = Inr (0, ft) \<and> ft_rep ft (ft_map ft) \<and>
     trans_table_fill_from ft = Inr (tft_of (map te_of fes)) \<and> set fes = set (all_files my_ip 1 ts) \<and> length fes \<le> 240 \<and>
     lists_own my_ip (map te_of fes) (ft_map ft) \<and> table_sendable (tft_of (map te_of fes)) \<and> (\<forall>fe \<in> set fes. te_ok (te_of fe))"
proof -
  have start: "ft_inv ft_start" "ft_callocs ft_start = []" "ft_map ft_start = (\<lambda>_. None)"
    using ft_start_rep by (simp_all add: ft_rep_def)
  note dist = all_files_distinct [OF assms(2), of my_ip 1]
  from survey_targets [OF start(1,2) assms(1) dist] start(3) obtain ft where
    ft: "get_file_table my_ip ts ft_start = Inr (0, ft)" "ft_inv ft" "ft_callocs ft = []"
      "ft_map ft = add_files (all_files my_ip 1 ts) (\<lambda>_. None)"
    by (auto simp: get_file_table_def)
  let ?ps = "bkt_all (file_htable ft)" let ?fes = "map (entry_at ft) ?ps"
  note fnd = ft_map_find(1) [OF ft(2)]
  have d: "distinct (map fe_name ?fes)" using ft_map_find(2) [OF ft(2)] by simp
  have "fe \<in> set ?fes \<longleftrightarrow> fe \<in> set (all_files my_ip 1 ts)" for fe
    using fnd [of "fe_name fe"] find_by_key [OF d, of "fe_name fe" fe] add_files_iff [OF dist, of "\<lambda>_. None" "fe_name fe" fe]
    unfolding ft(4) by simp
  then have set: "set ?fes = set (all_files my_ip 1 ts)" by blast
  have "entry_ok (entry_at ft p)" if "p \<in> set ?ps" for p
    using ft_inv_cell [OF ft(2) that] by (auto simp: in_table_def entry_at_def)
  then have ok: "entry_ok fe" if "fe \<in> set ?fes" for fe using that by auto
  have own: "fe_owners fe = [me my_ip] \<and> unat (fe_type fe) < 2 ^ 16 \<and> entry_ok fe \<and> CHR 0x00 \<notin> set (fe_name fe)"
    if "fe \<in> set ?fes" for fe using all_files_own [of fe my_ip 1 ts] ok [OF that] that nul unfolding set by blast
  have len: "length ?fes \<le> 240"
    using distinct_card [of ?fes] d set assms(3) card_length [of "all_files my_ip 1 ts"] by (auto simp: distinct_map dest: inj_on_imageI2)
  have "length (fe_owners (entry_at ft p)) \<le> MAX_PEER_ENTRIES" if "p \<in> set ?ps" for p
    using own [of "entry_at ft p"] that by (simp add: MAX_PEER_ENTRIES_def)
  then have "trans_table_fill_from ft = Inr (tft_of (map te_of ?fes))"
    using trans_table_fill_from_spec [OF ft(2)] len by (simp add: tft_of_def MAX_FILE_ENTRIES_def Let_def)
  moreover note tab = own_table [OF d fnd len own]
  ultimately show ?thesis using tab(1,2) tab(3) [unfolded set] ft(1-3) set len
    by (intro exI [of _ ft] exI [of _ ?fes]) (simp add: ft_rep_def)
qed

section \<open>The answer\<close>

interpretation lrn: data_refinement "\<lambda>(cl :: client) M. ft_rep (cl_ft cl) M \<and> cl_ip cl = my_ip" learn_entry "learn_map my_ip" "\<lambda>te _. te_ok te"
proof
  fix cl :: client and M te
  assume "ft_rep (cl_ft cl) M \<and> cl_ip cl = my_ip" "te_ok te"
  with learn_entry_eq [of cl M te]
  show "\<exists>cl'. learn_entry te cl = Inr cl' \<and> ft_rep (cl_ft cl') (learn_map my_ip te M) \<and> cl_ip cl' = my_ip" by auto
qed

lemma run_pre_all: "\<forall>x \<in> set xs. Q x \<Longrightarrow> run_pre (\<lambda>x _. Q x) spec xs a"
  by (induction xs arbitrary: a) auto

lemma sync_reply_ok:
  assumes "tr_inv N P tr"
  shows "\<forall>te \<in> set (sync_reply tft (tr_ft tr)). te_ok te"
proof -
  note M = map_ok_tracker [OF assms]
  have inv: "ft_inv (tr_ft tr)" using assms by (simp add: tr_inv_def ft_rep_def)
  have "te_ok te" if te: "te \<in> set (peer_news tft fe)" and fe: "ft_map (tr_ft tr) n = Some fe" for te fe n
  proof -
    have ok: "entry_ok fe" "pid_ip ` set (fe_owners fe) \<subseteq> P" "small N P"
      using M fe by (auto simp: map_ok_def bounded_def)
    from owners_small [OF ok(3,1,2)] ok(1) have "te_ok ((te_of fe)\<lparr>te_op_type := op\<rparr>)" for op
      by (simp add: te_ok_def te_of_def entry_ok_def unat_of_nat MAX_PEER_ENTRIES_def take_bit_nat_eq_self)
    then show ?thesis using te by (auto simp: peer_news_def split: option.splits if_splits)
  qed
  then show ?thesis unfolding sync_reply_map(2) [OF inv] by auto
qed

text \<open>Nothing of an announcement goes to the connection that is left out.\<close>

lemma announce_excluded: "announce L c ps S c = S c"
proof -
  have "fold (send_one pkt c) ps S c = S c" for pkt
    by (induction ps arbitrary: S) (simp_all add: send_one_def)
  then show ?thesis by (simp add: announce_def send_peers_def)
qed

lemma sync_task_spec:
  assumes "tr_inv N P tr" and "tft_known N P tft" and "tr_callocs tr = []"
  shows "\<exists>tr'. sync_task conn tft tr = Inr (0, tr') \<and> tr_inv N P tr' \<and>
     ft_map (tr_ft tr') = fold map_exec (map FT_Add (tft_list tft)) (ft_map (tr_ft tr)) \<and>
     tr_socks tr' conn = snd (send_ttop_packet (table_packet TRACKER_SYNC (tft_of (sync_reply tft (tr_ft tr)))) (tr_socks tr conn))"
proof -
  obtain M L where fld: "fold sync_spec (tft_list tft) (ft_map (tr_ft tr), []) = (M, L)" by fastforce
  have M: "M = fold map_exec (map FT_Add (tft_list tft)) (ft_map (tr_ft tr))"
    using fst_fold_sync [of "tft_list tft" "ft_map (tr_ft tr)" "[]"] by (simp add: fld)
  have al: "tr\<lparr>tr_callocs := []\<rparr> = tr" using assms(3) by (cases tr) simp
  from sync_body_spec [OF assms(1,2), of conn] obtain ft where
    ft: "ft_rep ft M" "sync_body conn tft tr = Inr (tr\<lparr>tr_ft := ft, tr_socks := announce L conn (pt_peers (tr_pt tr))
       ((tr_socks tr)(conn := snd (send_ttop_packet (table_packet TRACKER_SYNC (tft_of (sync_reply tft (tr_ft tr)))) (tr_socks tr conn))))\<rparr>)"
    by (auto simp: fld)
  then have run: "sync_task conn tft tr = Inr (0, tr\<lparr>tr_ft := ft, tr_socks := announce L conn (pt_peers (tr_pt tr))
       ((tr_socks tr)(conn := snd (send_ttop_packet (table_packet TRACKER_SYNC (tft_of (sync_reply tft (tr_ft tr)))) (tr_socks tr conn))))\<rparr>)"
    by (simp add: sync_task_def assms(3) al)
  moreover have "ft_map ft = M" using ft(1) by (simp add: ft_rep_def)
  ultimately show ?thesis using sync_task_inv [OF assms(1,2), of conn] M by (auto simp: announce_excluded)
qed

section \<open>The synchronisation of a peer\<close>

lemma learn_entry_sock: "learn_entry te cl = Inr cl' \<Longrightarrow> cl_sock cl' = cl_sock cl"
  unfolding learn_entry_def refresh_entry_def start_download_def ebind_eq_Inr by (auto split: if_splits simp: ebind_eq_Inr)

text \<open>What \<open>sync_files\<close> does when all goes well: the table has been sent and the tracker has answered.\<close>

lemma sync_files_run:
  assumes cl: "file_table_init (cl_ft cl) = ft_start" "send_replies (cl_sock cl) = []"
    and ft: "get_file_table (cl_ip cl) ts ft_start = Inr (0, ft)" "trans_table_fill_from ft = Inr tft" "ft_rep ft M"
    and fill: "ptot_packet_fill (ptot_packet_init (cl_ip cl) PEER_SYNC) (table_bytes tft) (sint (ucast (trans_table_len tft) :: u32)) = Inr pkt"
    and recv: "recv_ttop_packet input stack = Inr (r, pkt', rest)" "r > 0" "th_type (ttop_hdr pkt') = TRACKER_SYNC"
    and R: "unat (th_data_len (ttop_hdr pkt')) = 4 + 272 * length R" "table_sendable (tft_of R)" "\<forall>te \<in> set R. te_ok te"
      "field 0 (4 + 272 * length R) (ttop_data pkt') = field 0 (4 + 272 * length R) (table_bytes (tft_of R))"
  shows "\<exists>cl' R'. sync_files stack ts input cl = Inr (0, rest, cl') \<and> cl_sock cl' = snd (send_ptot_packet pkt (cl_sock cl)) \<and>
     list_all2 te_like R R' \<and> ft_map (cl_ft cl') = fold (learn_map (cl_ip cl)) R' M"
proof -
  let ?u = "table_of_bytes (take (4 + 272 * length R) (table_bytes (tft_of R)) @ drop (4 + 272 * length R) (table_bytes tft))"
  have "field 0 (4 + 272 * length R) (table_bytes (tft_of R)) = take (4 + 272 * length R) (table_bytes (tft_of R))"
    using length_table_bytes [OF R(2)] by (simp add: field_within tft_of_def)
  then have u: "overwrite_table pkt' tft = ?u" by (simp add: overwrite_table_def Let_def R(1,4))
  note tab = overwritten_table [OF R(2), of "drop (4 + 272 * length R) (table_bytes tft)"]
  have n: "tft_n ?u \<le> int MAX_FILE_ENTRIES" using tab(1) R(2) by (simp add: table_sendable_def tft_of_def)
  obtain q s where q: "send_ptot_packet pkt (cl_sock cl) = (q, s)" "q > 0"
    using send_ptot_packet_complete [OF cl(2), of pkt] by auto
  let ?cl = "cl\<lparr>cl_ft := ft, cl_sock := s\<rparr>"
  have "ft_rep (cl_ft ?cl) M \<and> cl_ip ?cl = cl_ip cl" using ft(3) by simp
  from lrn.run_refines [OF this run_pre_all [OF tab(3) [OF R(3)]]] obtain cl' where
    cl': "efold learn_entry (tft_list ?u) ?cl = Inr cl'" "ft_rep (cl_ft cl') (fold (learn_map (cl_ip cl)) (tft_list ?u) M)" by blast
  have "cl_sock cl' = cl_sock ?cl" by (rule efold_invariant [OF cl'(1)]) (simp_all add: learn_entry_sock)
  moreover have "sync_files stack ts input cl = ebind (file_table_sync (overwrite_table pkt' tft) ?cl) (\<lambda>cl. Inr (0, rest, cl))"
    using q recv fill by (simp add: sync_files_def cl(1) ft(1,2) Let_def cl_send_def)
  then have "sync_files stack ts input cl = Inr (0, rest, cl')"
    unfolding u file_table_sync_def for_entries_list [OF n] cl'(1) by simp
  ultimately show ?thesis using tab(2) cl'(2) q(1) by (auto simp: ft_rep_def)
qed

end
