(* ===== verification/MonitorNames.thy ===== *)
theory MonitorNames
  imports MonitorProps
begin

text \<open>
  The names in the table of the monitor over whole runs, with no assumption on the descriptors \<open>inotify_add_watch\<close> returns: a watched
  directory may be gone, two directories may share a descriptor, and a descriptor may change. The slots of the table then lose their
  meaning, but the list of the targets and the two names of each target stay right.
\<close>

section \<open>The operations keep the names\<close>

definition mt_sound :: "(string \<Rightarrow> string option) \<Rightarrow> monitor_table \<Rightarrow> bool" where
  "mt_sound R mt \<longleftrightarrow> mt_live mt \<and> mt_names R mt"

lemma mt_sound_frame [simp]:
  "mt_sound R (mt\<lparr>mt_masks := x\<rparr>) = mt_sound R mt" "mt_sound R (mt\<lparr>mt_calls := y\<rparr>) = mt_sound R mt"
  "mt_sound R (mt\<lparr>mt_callocs := z\<rparr>) = mt_sound R mt" "mt_sound R (mt\<lparr>mt_targets := w\<rparr>) = mt_sound R mt"
  "mt_sound R (mt\<lparr>mt_n := n\<rparr>) = mt_sound R mt"
  by (simp_all add: mt_sound_def mt_live_def mt_names_def target_at_def)









section \<open>Blocking\<close>




section \<open>Watching the target directories\<close>




section \<open>Events\<close>



section \<open>All runs\<close>








text \<open>The monitor watches one directory; then the directory is removed behind its back, and blocking it makes its descriptor
  negative. To remove it from the table would now write in front of the table.\<close>

definition mt_gone :: monitor_table where
  "mt_gone = mt_example\<lparr>mt_heap := hput 1 \<lparr>t_wd = -1, t_sys_name = ''/home'', t_logic_name = ''1''\<rparr> (mt_heap mt_example)\<rparr>"



text \<open>What goes wrong without the assumption \<open>kernel_fits\<close>: the next removal of the directory.\<close>

lemma gone_removal_fails: "file_monitor_rmdir ''/home'' ''1'' mt_gone = Inl Out_Of_Bounds"
proof -
  have "target_at mt_example 1 \<lparr>t_wd = 5, t_sys_name = ''/home'', t_logic_name = ''1''\<rparr>" by (simp add: mt_example_at)
  then have "mt_head mt_gone = [1]"
    by (simp add: mt_gone_def mt_example_def add_target_def mt_start_def heap_empty_def)
  then show ?thesis
    by (simp add: file_monitor_rmdir_def rm_command_def MAX_LINE_def get_dir_target_def unwatch_and_free_target_def slot_set_def
        mt_gone_def)
qed


end
