(* ===== verification/Upload.thy ===== *)
theory Upload
  imports Monitor DownloadProps
begin

text \<open>
  The uploads of a peer (\<open>client/start.c\<close>): the ports it hands out, the thread that answers the questions of
  another peer, and the loop that serves the pieces of a file. A piece request of a download
  thread is answered with exactly the bytes this thread asks for, which is what the downloads of other
  peers rely on.
\<close>

section \<open>Ports\<close>

definition MAX_P2P_PORT :: nat where
  "MAX_P2P_PORT = 1000"

definition BASE_P2P_PORT :: int where
  "BASE_P2P_PORT = 5100"

text \<open>The loop of \<open>get_free_p2p_port\<close>: \<open>k\<close> iterations are left, the next one is for index \<open>i\<close>.\<close>

fun get_free_from :: "nat \<Rightarrow> nat \<Rightarrow> u16 list \<Rightarrow> int \<times> u16 list" where
  "get_free_from 0 i ports = (-1, ports)"
| "get_free_from (Suc k) i ports =
     (if ports ! i = 0 then (int i + BASE_P2P_PORT, ports[i := 1]) else get_free_from k (Suc i) ports)"

definition get_free_p2p_port :: "u16 list \<Rightarrow> int \<times> u16 list" where
  "get_free_p2p_port ports = get_free_from MAX_P2P_PORT 0 ports"

definition put_p2p_port :: "u16 \<Rightarrow> u16 list \<Rightarrow> u16 list res" where
  "put_p2p_port port ports =
     (let i = uint port - BASE_P2P_PORT
      in if 0 \<le> i \<and> nat i < MAX_P2P_PORT then Inr (ports[nat i := 0]) else Inl Out_Of_Bounds)"

section \<open>Serving pieces\<close>

text \<open>
  A request on the connection: at most eight bytes may be copied into the local variable \<open>req\<close>, whose
  other bytes are what its memory \<open>mem\<close> held before. The offset is computed in 32 bits. From a regular
  file that holds \<open>f\<close>, \<open>read\<close> gives what there is behind the offset; more than a piece length is written
  behind the end of the buffer. \<open>None\<close> when the file does not have the bytes.
\<close>

definition serve_piece :: "int \<Rightarrow> u8 list \<Rightarrow> p2p_packet \<Rightarrow> u8 list \<Rightarrow> (u8 list \<times> u8 list option) res" where
  "serve_piece piece_len f pkt mem =
     (let n = unat (pp_data_len pkt) in
      if n > 8 then Inl Out_Of_Bounds
      else let mem = field 0 n (pp_data pkt) @ drop n mem;
               piece_id = get_le (field 0 4 mem) :: u32;
               len = get_le (field 4 4 mem) :: u32;
               (ret_len, buf) = my_read (nat (sint len)) [Read_Bytes (drop (unat (piece_id * word_of_int piece_len)) f)]
           in if int (length buf) > piece_len then Inl Out_Of_Bounds
              else if (word_of_int ret_len :: u32) \<noteq> len then Inr (mem, None)
              else Inr (mem, Some buf))"

text \<open>The loop of \<open>do_upload\<close>: what arrives, and for each piece the answers of \<open>write\<close>; the result is
  what was sent. The value of \<open>my_write\<close> is not looked at.\<close>

function upload_loop ::
    "int \<Rightarrow> u8 list \<Rightarrow> u8 list \<Rightarrow> p2p_packet \<Rightarrow> u8 list \<Rightarrow> write_reply list list \<Rightarrow> u8 list \<Rightarrow> u8 list res" where
  "upload_loop piece_len f input pkt mem wss out =
     (case recv_p2p_packet input pkt of
        Inl e \<Rightarrow> Inl e
      | Inr (r, pkt, input) \<Rightarrow>
          if r > 0
          then if pp_type pkt \<noteq> P2P_PIECE_REQ then Inr out
               else ebind (serve_piece piece_len f pkt mem) (\<lambda>(mem, piece).
                 case piece of
                   None \<Rightarrow> Inr out
                 | Some buf \<Rightarrow>
                     let ws = (case wss of [] \<Rightarrow> [] | ws # _ \<Rightarrow> ws)
                     in upload_loop piece_len f input pkt mem (tl wss) (out @ take (my_write buf ws) buf))
          else Inr out)"
  by pat_completeness auto

termination
  by (relation "measure (\<lambda>(pl, f, input, pkt, mem, wss, out). length input)") (auto dest: recv_packet_shorter(2))

declare upload_loop.simps [simp del]

text \<open>What the outside does to an upload: whether the port can be listened on and the downloader connects, the
  allocations, what it sends, the answers of \<open>write\<close>, and the memory of the local variable.\<close>

record upload_session =
  us_listens :: bool
  us_callocs :: "bool list"
  us_accepts :: bool
  us_input :: "u8 list"
  us_writes :: "write_reply list list"
  us_stack :: "u8 list"

text \<open>The port cannot be listened on.\<close>

definition us_none :: upload_session where
  "us_none = \<lparr>us_listens = False, us_callocs = [], us_accepts = False, us_input = [], us_writes = [], us_stack = []\<rparr>"

text \<open>\<open>f\<close> is none when the file cannot be opened; a negative size cannot be allocated.\<close>

definition do_upload :: "int \<Rightarrow> u8 list option \<Rightarrow> upload_session \<Rightarrow> u8 list res" where
  "do_upload piece_len f us =
     (case f of
        None \<Rightarrow> Inr []
      | Some f \<Rightarrow> (case answer (us_callocs us) of
        (False, al) \<Rightarrow> Inr []
      | (True, al) \<Rightarrow>
          if piece_len < 0 \<or> \<not> fst (answer al) \<or> \<not> us_accepts us then Inr []
          else upload_loop piece_len f (us_input us) (p2p_packet_init 0) (us_stack us) (us_writes us) []))"

section \<open>Answering another peer\<close>

text \<open>The part of the peer an upload thread uses, with what it has sent over the connections of the
  uploads.\<close>

record uploader =
  up_ports :: "u16 list"
  up_mt :: monitor_table
  up_sock :: sock
  up_sent :: "u8 list list"

text \<open>\<open>memcpy(logic_name, pkt.data, pkt.data_len)\<close> into an array of 128 characters that is then read as a
  string.\<close>

definition copy_name :: "p2p_packet \<Rightarrow> u8 list \<Rightarrow> (u8 list \<times> string) res" where
  "copy_name pkt mem =
     (let n = unat (pp_data_len pkt) in
      if n > MAX_NAME_LEN then Inl Out_Of_Bounds
      else let mem = field 0 n (pp_data pkt) @ drop n mem
           in if 0 \<in> set (take MAX_NAME_LEN mem) then Inr (mem, name_of_bytes mem) else Inl Out_Of_Bounds)"

text \<open>The two requests; \<open>True\<close> when the thread goes on. \<open>fsize\<close> is what \<open>stat\<close> finds. The port is given
  back only after an upload, and its number is -1 in 16 bits when there is none.\<close>

definition answer_len :: "u64 option \<Rightarrow> uploader \<Rightarrow> (bool \<times> uploader) res" where
  "answer_len fsize u =
     (case fsize of
        None \<Rightarrow> Inr (False, u)
      | Some n \<Rightarrow>
          ebind (p2p_packet_fill (p2p_packet_init P2P_FILE_LEN_RET) (put_le 8 n) 8) (\<lambda>pkt.
          let (r, s) = send_p2p_packet pkt (up_sock u) in Inr (\<not> r < 0, u\<lparr>up_sock := s\<rparr>)))"

definition answer_port :: "int \<Rightarrow> u8 list option \<Rightarrow> upload_session \<Rightarrow> uploader \<Rightarrow> (bool \<times> uploader) res" where
  "answer_port piece_len f us u =
     (let (port, ports) = get_free_p2p_port (up_ports u);
          new_port = word_of_int port :: u16;
          u = u\<lparr>up_ports := ports\<rparr> in
      ebind (p2p_packet_fill (p2p_packet_init P2P_PORT_RET) (put_le 2 new_port) 2) (\<lambda>pkt.
      let (r, s) = send_p2p_packet pkt (up_sock u);
          u = u\<lparr>up_sock := s\<rparr> in
      if r < 0 then Inr (False, u)
      else if \<not> us_listens us then Inr (False, u)
      else ebind (do_upload piece_len f us) (\<lambda>out.
           ebind (put_p2p_port new_port (up_ports u)) (\<lambda>ports.
             Inr (True, u\<lparr>up_ports := ports, up_sent := up_sent u @ [out]\<rparr>)))))"

text \<open>
  The loop of \<open>ptop_upload_task\<close>. \<open>mem\<close> is the array \<open>logic_name\<close>, \<open>sys_name\<close> the local pointer, none as long
  as it is not initialised: when the loop ends it is freed. \<open>files\<close> and \<open>fsize\<close> are what \<open>open\<close> and
  \<open>stat\<close> find, \<open>uss\<close> the uploads to come.
\<close>

function ptop_upload_task ::
    "int \<Rightarrow> (string \<Rightarrow> u8 list option) \<Rightarrow> (string \<Rightarrow> u64 option) \<Rightarrow> upload_session list \<Rightarrow> u8 list \<Rightarrow> p2p_packet \<Rightarrow>
     u8 list \<Rightarrow> string option \<Rightarrow> uploader \<Rightarrow> uploader res" where
  "ptop_upload_task piece_len files fsize uss input pkt mem sys_name u =
     (case recv_p2p_packet input pkt of
        Inl e \<Rightarrow> Inl e
      | Inr (r, pkt, input) \<Rightarrow>
          if r > 0
          then if pp_type pkt = P2P_FILE_LEN_REQ \<or> pp_type pkt = P2P_PORT_REQ
               then ebind (copy_name pkt mem) (\<lambda>(mem, logic_name).
                    ebind (get_sys_name logic_name (up_mt u)) (\<lambda>(sys_name, mt).
                      case sys_name of
                        None \<Rightarrow> Inr (u\<lparr>up_mt := mt\<rparr>)
                      | Some s \<Rightarrow>
                          ebind (if pp_type pkt = P2P_FILE_LEN_REQ then answer_len (fsize s) (u\<lparr>up_mt := mt\<rparr>)
                                 else answer_port piece_len (files s) (case uss of [] \<Rightarrow> us_none | us # _ \<Rightarrow> us)
                                        (u\<lparr>up_mt := mt\<rparr>)) (\<lambda>(go, u).
                            if go
                            then ptop_upload_task piece_len files fsize
                                   (if pp_type pkt = P2P_PORT_REQ then tl uss else uss) input pkt mem (Some s) u
                            else Inr u)))
               else ptop_upload_task piece_len files fsize uss input pkt mem sys_name u
          else (case sys_name of None \<Rightarrow> Inl Bad_Pointer | Some _ \<Rightarrow> Inr u))"
  by pat_completeness auto

termination
  by (relation "measure (\<lambda>(pl, files, fsize, uss, input, pkt, mem, sys_name, u). length input)")
    (auto dest: recv_packet_shorter(2))

declare ptop_upload_task.simps [simp del]

section \<open>Ports are exclusive\<close>

text \<open>The threads of a peer take ports and give back ports they hold.\<close>

datatype port_op = Port_Get | Port_Put nat

record port_state =
  ps_ports :: "u16 list"
  ps_held :: "u16 list"

fun port_exec :: "port_op \<Rightarrow> port_state \<Rightarrow> port_state res" where
  "port_exec Port_Get s =
     (let (port, ports) = get_free_p2p_port (ps_ports s)
      in Inr (s\<lparr>ps_ports := ports, ps_held := ps_held s @ (if port < 0 then [] else [word_of_int port])\<rparr>))"
| "port_exec (Port_Put i) s =
     (if i < length (ps_held s)
      then ebind (put_p2p_port (ps_held s ! i) (ps_ports s)) (\<lambda>ports.
             Inr (s\<lparr>ps_ports := ports, ps_held := take i (ps_held s) @ drop (Suc i) (ps_held s)\<rparr>))
      else Inr s)"

definition ports_start :: port_state where
  "ports_start = \<lparr>ps_ports = replicate MAX_P2P_PORT 0, ps_held = []\<rparr>"

text \<open>The port that belongs to an index.\<close>

definition port_at :: "nat \<Rightarrow> u16" where
  "port_at j = word_of_int (int j + BASE_P2P_PORT)"

definition port_inv :: "port_state \<Rightarrow> bool" where
  "port_inv s \<longleftrightarrow> length (ps_ports s) = MAX_P2P_PORT \<and> distinct (ps_held s) \<and>
     set (ps_held s) = port_at ` {j. j < MAX_P2P_PORT \<and> ps_ports s ! j \<noteq> 0}"

lemma uint_port_at: "j < MAX_P2P_PORT \<Longrightarrow> uint (port_at j) = int j + BASE_P2P_PORT"
  unfolding port_at_def by (subst uint_word_of_int) (simp add: BASE_P2P_PORT_def MAX_P2P_PORT_def)

lemma port_at_inj: "i < MAX_P2P_PORT \<Longrightarrow> j < MAX_P2P_PORT \<Longrightarrow> port_at i = port_at j \<longleftrightarrow> i = j"
  by (metis add_right_cancel of_nat_eq_iff uint_port_at)

lemma get_free_from_cases:
  obtains j where "i \<le> j" "j < i + k" "ports ! j = 0" "get_free_from k i ports = (int j + BASE_P2P_PORT, ports[j := 1])"
  | "\<forall>j. i \<le> j \<longrightarrow> j < i + k \<longrightarrow> ports ! j \<noteq> 0" "get_free_from k i ports = (-1, ports)"
proof (induction k arbitrary: i thesis)
  case 0
  then show ?case by simp
next
  case (Suc k)
  show ?case
  proof (cases "ports ! i = 0")
    case True
    then show ?thesis using Suc.prems(1) [of i] by simp
  next
    case False
    show ?thesis
    proof (rule Suc.IH [of "Suc i"])
      fix j assume "Suc i \<le> j" "j < Suc i + k" "ports ! j = 0" "get_free_from k (Suc i) ports = (int j + BASE_P2P_PORT, ports[j := 1])"
      then show thesis using Suc.prems(1) [of j] False by simp
    next
      assume *: "\<forall>j. Suc i \<le> j \<longrightarrow> j < Suc i + k \<longrightarrow> ports ! j \<noteq> 0" "get_free_from k (Suc i) ports = (-1, ports)"
      have "\<forall>j. i \<le> j \<longrightarrow> j < i + Suc k \<longrightarrow> ports ! j \<noteq> 0"
      proof (intro allI impI)
        fix j assume "i \<le> j" "j < i + Suc k"
        with *(1) False show "ports ! j \<noteq> 0" by (cases "j = i") auto
      qed
      then show thesis using Suc.prems(2) * False by simp
    qed
  qed
qed

lemma port_inv_get:
  assumes "port_inv s"
  shows "\<exists>s'. port_exec Port_Get s = Inr s' \<and> port_inv s'"
proof (rule get_free_from_cases [of 0 MAX_P2P_PORT "ps_ports s"])
  fix j assume j: "j < 0 + MAX_P2P_PORT" "ps_ports s ! j = 0"
    "get_free_from MAX_P2P_PORT 0 (ps_ports s) = (int j + BASE_P2P_PORT, (ps_ports s)[j := 1])"
  let ?s = "s\<lparr>ps_ports := (ps_ports s)[j := 1], ps_held := ps_held s @ [port_at j]\<rparr>"
  have len: "length (ps_ports s) = MAX_P2P_PORT" using assms by (simp add: port_inv_def)
  have "port_at j \<notin> set (ps_held s)"
    using assms j(1,2) port_at_inj [of j] by (auto simp: port_inv_def)
  moreover have "{i. i < MAX_P2P_PORT \<and> (ps_ports s)[j := 1] ! i \<noteq> 0} = insert j {i. i < MAX_P2P_PORT \<and> ps_ports s ! i \<noteq> 0}"
    using j(1) len by (auto simp: nth_list_update)
  ultimately have "port_inv ?s" using assms by (simp add: port_inv_def)
  moreover have "port_exec Port_Get s = Inr ?s"
    using j(3) by (simp add: get_free_p2p_port_def port_at_def BASE_P2P_PORT_def)
  ultimately show ?thesis by blast
next
  assume "get_free_from MAX_P2P_PORT 0 (ps_ports s) = (-1, ps_ports s)"
  then show ?thesis using assms by (simp add: get_free_p2p_port_def)
qed

lemma port_inv_put:
  assumes "port_inv s"
  shows "\<exists>s'. port_exec (Port_Put i) s = Inr s' \<and> port_inv s'"
proof (cases "i < length (ps_held s)")
  case True
  let ?p = "ps_held s ! i" and ?h = "take i (ps_held s) @ drop (Suc i) (ps_held s)"
  have inv: "length (ps_ports s) = MAX_P2P_PORT" "distinct (ps_held s)"
      "set (ps_held s) = port_at ` {j. j < MAX_P2P_PORT \<and> ps_ports s ! j \<noteq> 0}" using assms by (simp_all add: port_inv_def)
  from True inv(3) nth_mem [OF True] obtain j where j: "?p = port_at j" "j < MAX_P2P_PORT" "ps_ports s ! j \<noteq> 0" by auto
  have split: "ps_held s = take i (ps_held s) @ ?p # drop (Suc i) (ps_held s)" using True by (rule id_take_nth_drop)
  have "distinct (take i (ps_held s) @ ?p # drop (Suc i) (ps_held s))" using inv(2) split by simp
  then have h: "distinct ?h" "?p \<notin> set ?h" by auto
  have "set (ps_held s) = insert ?p (set ?h)" by (subst split) auto
  then have set: "set ?h = set (ps_held s) - {?p}" using h(2) by auto
  have idx: "{k. k < MAX_P2P_PORT \<and> (ps_ports s)[j := 0] ! k \<noteq> 0} = {k. k < MAX_P2P_PORT \<and> ps_ports s ! k \<noteq> 0} - {j}"
    using j(2) inv(1) by (auto simp: nth_list_update)
  have "inj_on port_at {..<MAX_P2P_PORT}" by (auto simp: inj_on_def port_at_inj)
  from inj_on_image_set_diff [OF this, of "{k. k < MAX_P2P_PORT \<and> ps_ports s ! k \<noteq> 0}" "{j}"] j(2)
  have "set ?h = port_at ` {k. k < MAX_P2P_PORT \<and> (ps_ports s)[j := 0] ! k \<noteq> 0}"
    unfolding idx set inv(3) j(1) by auto
  then have "port_inv (s\<lparr>ps_ports := (ps_ports s)[j := 0], ps_held := ?h\<rparr>)"
    using h(1) inv(1) by (simp add: port_inv_def)
  moreover have "put_p2p_port ?p (ps_ports s) = Inr ((ps_ports s)[j := 0])"
    using j(1,2) by (simp add: put_p2p_port_def uint_port_at)
  ultimately show ?thesis using True by simp
qed (use assms in simp)

lemma port_inv_exec: "port_inv s \<Longrightarrow> \<exists>s'. port_exec x s = Inr s' \<and> port_inv s'"
  using port_inv_get port_inv_put by (cases x) blast+

lemma port_inv_count: "port_inv s \<Longrightarrow> length (ps_held s) = card {j. j < MAX_P2P_PORT \<and> ps_ports s ! j \<noteq> 0}"
proof -
  assume inv: "port_inv s"
  then have "length (ps_held s) = card (port_at ` {j. j < MAX_P2P_PORT \<and> ps_ports s ! j \<noteq> 0})"
    unfolding port_inv_def by (metis distinct_card)
  also have "\<dots> = card {j. j < MAX_P2P_PORT \<and> ps_ports s ! j \<noteq> 0}"
    by (rule card_image) (auto simp: inj_on_def port_at_inj)
  finally show ?thesis .
qed

text \<open>
  C30. No two uploads share a port. Whatever the order in which threads take ports and give back ports
  they hold, there is no memory error, the ports that are held are different and lie between 5100 and 6099,
  and a thread is refused a port exactly when all 1000 are held. What it does with the refusal is a fault: the number -1
  becomes the port 65535, and giving this port back writes out of bounds.
\<close>

theorem p2p_ports_exclusive:
  "\<exists>s. efold port_exec ops ports_start = Inr s \<and> distinct (ps_held s) \<and>
     (\<forall>p \<in> set (ps_held s). 5100 \<le> uint p \<and> uint p < 6100) \<and>
     (fst (get_free_p2p_port (ps_ports s)) = -1 \<longleftrightarrow> length (ps_held s) = 1000) \<and>
     put_p2p_port (word_of_int (-1)) (ps_ports s) = Inl Out_Of_Bounds"
proof -
  have start: "port_inv ports_start" by (simp add: port_inv_def ports_start_def)
  have "\<exists>s. efold port_exec ops ports_start = Inr s \<and> port_inv s"
    by (rule efold_total [where I = port_inv], rule start, rule port_inv_exec)
  then obtain s where s: "efold port_exec ops ports_start = Inr s" "port_inv s" by blast
  define A where "A = {j. j < MAX_P2P_PORT \<and> ps_ports s ! j \<noteq> 0}"
  have sub: "A \<subseteq> {..<MAX_P2P_PORT}" by (auto simp: A_def)
  have "fst (get_free_p2p_port (ps_ports s)) = -1 \<longleftrightarrow> A = {..<MAX_P2P_PORT}"
  proof (rule get_free_from_cases [of 0 MAX_P2P_PORT "ps_ports s"])
    fix j assume "j < 0 + MAX_P2P_PORT" "ps_ports s ! j = 0"
      "get_free_from MAX_P2P_PORT 0 (ps_ports s) = (int j + BASE_P2P_PORT, (ps_ports s)[j := 1])"
    moreover from this have "j \<notin> A" "j \<in> {..<MAX_P2P_PORT}" by (simp_all add: A_def)
    then have "A \<noteq> {..<MAX_P2P_PORT}" by blast
    ultimately show ?thesis by (simp add: get_free_p2p_port_def BASE_P2P_PORT_def)
  next
    assume "\<forall>j. 0 \<le> j \<longrightarrow> j < 0 + MAX_P2P_PORT \<longrightarrow> ps_ports s ! j \<noteq> 0"
      "get_free_from MAX_P2P_PORT 0 (ps_ports s) = (-1, ps_ports s)"
    moreover from this have "A = {..<MAX_P2P_PORT}" by (auto simp: A_def)
    ultimately show ?thesis by (simp add: get_free_p2p_port_def)
  qed
  also have "\<dots> \<longleftrightarrow> card A = MAX_P2P_PORT"
    using card_subset_eq [OF finite_lessThan sub] by auto
  finally have "fst (get_free_p2p_port (ps_ports s)) = -1 \<longleftrightarrow> length (ps_held s) = 1000"
    using port_inv_count [OF s(2)] by (simp add: MAX_P2P_PORT_def A_def)
  moreover have "5100 \<le> uint p \<and> uint p < 6100" if "p \<in> set (ps_held s)" for p
    using that s(2) uint_port_at by (auto simp: port_inv_def BASE_P2P_PORT_def MAX_P2P_PORT_def)
  moreover have "distinct (ps_held s)" using s(2) by (simp add: port_inv_def)
  moreover have "put_p2p_port (word_of_int (-1)) (ps_ports s) = Inl Out_Of_Bounds"
  proof -
    have "uint (-1 :: u16) = 65535" by code_simp
    then show ?thesis by (simp add: put_p2p_port_def BASE_P2P_PORT_def MAX_P2P_PORT_def)
  qed
  ultimately show ?thesis using s(1) by blast
qed


theorem p2p_ports_exclusive_witness:
  "\<exists>s. efold port_exec [Port_Get] ports_start = Inr s \<and> ps_held s = [5100] \<and> 5100 \<le> uint (hd (ps_held s)) \<and>
     fst (get_free_p2p_port (ps_ports s)) \<noteq> -1"
proof -
  have n: "MAX_P2P_PORT = Suc 999" by (simp add: MAX_P2P_PORT_def)
  have "get_free_p2p_port (replicate MAX_P2P_PORT 0) = (5100, (replicate MAX_P2P_PORT 0)[0 := 1])"
    unfolding get_free_p2p_port_def n get_free_from.simps(2) by (simp add: BASE_P2P_PORT_def)
  then obtain t where t: "efold port_exec [Port_Get] ports_start = Inr t" "ps_held t = [5100]"
    by (simp add: ports_start_def)
  with p2p_ports_exclusive [of "[Port_Get]"] show ?thesis by auto
qed

section \<open>Uploads serve downloads\<close>

text \<open>The request a download thread sends for a piece, as it arrives.\<close>

definition piece_request :: "int \<Rightarrow> download_obj \<Rightarrow> nat \<Rightarrow> (u16 \<times> u16) \<times> u8 list" where
  "piece_request pl obj i =
     ((P2P_PIECE_REQ, 8), put_le 4 (of_nat i :: u32) @ put_le 4 (word_of_int (req_len pl obj (int i)) :: u32))"

lemma my_read_file: "my_read len [Read_Bytes bs] = (int (length (take len bs)), take len bs)"
  by (simp add: my_read_def Let_def)

lemma recv_p2p_by_ttop:
  assumes "recv_ttop_packet input tp = Inr (r, tp', rest)" and "0 < r"
  shows "recv_p2p_packet input pkt =
     Inr (r, \<lparr>pp_type = th_type (ttop_hdr tp'), pp_data_len = th_data_len (ttop_hdr tp'), pp_data = ttop_data tp'\<rparr>, rest)"
  using assms
  by (auto simp: recv_ttop_packet_def recv_p2p_packet_def sizeof_p2p_packet_def sizeof_ttop_packet_def
      p2p_of_bytes_def ttop_of_bytes_def ttop_hdr_of_bytes_def ebind_def split: sum.splits if_splits)

lemma recv_p2p_enc:
  assumes "p2p_ok ((ty, n), d)"
  shows "\<exists>r pkt'. recv_p2p_packet (p2p_enc ((ty, n), d) @ rest) pkt = Inr (r, pkt', rest) \<and> r > 0 \<and>
     pp_type pkt' = ty \<and> pp_data_len pkt' = n \<and> field 0 (unat n) (pp_data pkt') = d"
proof -
  from recv_ttop_enc [OF assms [unfolded p2p_as_ttop], of rest "ttop_of_bytes []"] obtain r tp where
    "recv_ttop_packet (p2p_enc ((ty, n), d) @ rest) (ttop_of_bytes []) = Inr (r, tp, rest)" "r > 0"
    "ttop_hdr tp = \<lparr>th_type = ty, th_data_len = n\<rparr>" "field 0 (unat n) (ttop_data tp) = d" by (auto simp: p2p_as_ttop)
  with recv_p2p_by_ttop [OF this(1,2), of pkt] show ?thesis by simp
qed

text \<open>A piece of the file fits the buffer, the file and 32 bits.\<close>

lemma piece_fits:
  assumes "0 < pl" and "length f < 2 ^ 31" and "ob_file_len obj = int (length f)" and "ob_file_pieces obj = pieces pl (int (length f))"
    and "int i < ob_file_pieces obj"
  shows "0 < req_len pl obj (int i)" "req_len pl obj (int i) \<le> pl" "int i * pl + req_len pl obj (int i) \<le> int (length f)"
  using req_len_bounds [OF assms(1) _ _ _ assms(5)] assms(3,4) by simp_all

lemma serve_piece_request:
  assumes pl: "0 < pl" and f: "length f < 2 ^ 31" and ob: "ob_file_len obj = int (length f)" "ob_file_pieces obj = pieces pl (int (length f))"
    and i: "int i < ob_file_pieces obj"
    and pkt: "pp_data_len pkt = 8" "field 0 8 (pp_data pkt) = snd (piece_request pl obj i)"
  shows "\<exists>mem'. serve_piece pl f pkt mem = Inr (mem', Some (piece_of pl f obj i))"
proof -
  note fit = piece_fits [OF pl f ob i]
  let ?len = "req_len pl obj (int i)"
  let ?mem = "put_le 4 (of_nat i :: u32) @ put_le 4 (word_of_int ?len :: u32) @ drop 8 mem"
  have mem: "field 0 8 (pp_data pkt) @ drop 8 mem = ?mem" using pkt(2) by (simp add: piece_request_def)
  have id: "get_le (field 0 4 ?mem) = (of_nat i :: u32)" "get_le (field 4 4 ?mem) = (word_of_int ?len :: u32)"
    by (simp_all add: field_defs)
  have nn: "0 \<le> int i * pl" using pl by simp
  have "int (length f) < 2 ^ 31" using f by simp
  then have lt: "int i * pl < 2 ^ 31" "?len < 2 ^ 31" using fit(1,3) nn by simp_all
  have off: "unat ((of_nat i :: u32) * word_of_int pl) = nat (int i * pl)"
  proof -
    have "(of_nat i :: u32) * word_of_int pl = word_of_int (int i * pl)" by simp
    then show ?thesis using lt(1) nn by (simp add: unat_eq_nat_uint uint_word_of_int del: of_int_mult)
  qed
  have len: "sint (word_of_int ?len :: u32) = ?len" using lt(2) fit(1) by (simp add: signed_of_int signed_take_bit_int_eq_self)
  have "length (take (nat ?len) (drop (nat (int i * pl)) f)) = nat ?len"
    using fit(1,3) nn by (simp add: min_def) linarith
  then show ?thesis using fit(1,2)
    by (simp add: serve_piece_def pkt(1) mem id off len my_read_file piece_of_def Let_def)
qed


lemma upload_loop_pieces:
  assumes pl: "0 < pl" and f: "length f < 2 ^ 31" and ob: "ob_file_len obj = int (length f)" "ob_file_pieces obj = pieces pl (int (length f))"
    and "\<forall>i \<in> set ids. int i < ob_file_pieces obj \<and> p2p_ok (piece_request pl obj i)" and "\<forall>ws \<in> set wss. writes_all ws"
  shows "upload_loop pl f (concat (map (p2p_enc \<circ> piece_request pl obj) ids)) pkt mem wss out =
     Inr (out @ concat (map (piece_of pl f obj) ids))"
  using assms(5,6)
proof (induction ids arbitrary: pkt mem wss out)
  case Nil
  then show ?case by (simp add: upload_loop.simps recv_p2p_packet_def recv_segment_def)
next
  case (Cons i ids)
  let ?rest = "concat (map (p2p_enc \<circ> piece_request pl obj) ids)"
  define d where "d = snd (piece_request pl obj i)"
  have req: "piece_request pl obj i = ((P2P_PIECE_REQ, 8), d)" by (simp add: piece_request_def d_def)
  have "p2p_ok ((P2P_PIECE_REQ, 8), d)" using Cons.prems(1) req by simp
  from recv_p2p_enc [OF this, of ?rest pkt] obtain r pkt' where
    r: "recv_p2p_packet (p2p_enc (piece_request pl obj i) @ ?rest) pkt = Inr (r, pkt', ?rest)" "r > 0"
      "pp_type pkt' = P2P_PIECE_REQ" "pp_data_len pkt' = 8" "field 0 8 (pp_data pkt') = d" unfolding req by auto
  from serve_piece_request [OF pl f ob _ r(4) r(5) [unfolded d_def]] Cons.prems(1) obtain mem' where
    mem': "serve_piece pl f pkt' mem = Inr (mem', Some (piece_of pl f obj i))" by auto
  have w: "my_write (piece_of pl f obj i) (case wss of [] \<Rightarrow> [] | ws # _ \<Rightarrow> ws) = length (piece_of pl f obj i)"
    using Cons.prems(2) by (intro my_write_all) (cases wss, auto simp: writes_all_def)
  have tl: "\<forall>ws \<in> set (tl wss). writes_all ws" using Cons.prems(2) by (cases wss) auto
  have ids: "\<forall>i \<in> set ids. int i < ob_file_pieces obj \<and> p2p_ok (piece_request pl obj i)" using Cons.prems(1) by simp
  have "upload_loop pl f (p2p_enc (piece_request pl obj i) @ ?rest) pkt mem wss out =
      upload_loop pl f ?rest pkt' mem' (tl wss) (out @ piece_of pl f obj i)"
    by (subst upload_loop.simps) (simp add: r mem' w)
  then show ?case unfolding Cons.IH [OF ids tl] by (simp add: comp_def)
qed

text \<open>What an upload sends for requests of pieces of its file.\<close>

lemma do_upload_pieces:
  assumes "0 < pl" and "length f < 2 ^ 31" and "download_begin name sys_name (of_nat (length f)) pl k = Inr s0"
    and "\<forall>i \<in> set ids. int i < ob_file_pieces (ds_obj s0) \<and> p2p_ok (piece_request pl (ds_obj s0) i)"
    and "us_callocs us = []" and "us_accepts us" and "\<forall>ws \<in> set (us_writes us). writes_all ws"
    and "us_input us = concat (map (p2p_enc \<circ> piece_request pl (ds_obj s0)) ids)"
  shows "do_upload pl (Some f) us = Inr (concat (map (piece_of pl f (ds_obj s0)) ids))"
proof -
  have len: "sint (of_nat (length f) :: u32) = int (length f)"
    using assms(2) by (simp add: signed_of_nat signed_take_bit_int_eq_self)
  note b = download_begin_ok [OF assms(1) _ assms(3), unfolded len, simplified]
  have ob: "ob_file_len (ds_obj s0) = int (length f)" "ob_file_pieces (ds_obj s0) = pieces pl (int (length f))"
    using b(3) dl_okD(3) [OF b(1)] by simp_all
  show ?thesis
    using upload_loop_pieces [OF assms(1,2) ob assms(4,7)] assms(1,5,6,8) by (simp add: do_upload_def)
qed

text \<open>
  C13. An upload sends what the download asks for. Let a download thread have an object with the length of
  the file of the owner, and let it send requests for pieces of this object, in any order and number. Then
  \<open>do_upload\<close> on the other side reads these requests without a memory error, as long as none of them
  contains the end mark, and sends exactly the pieces of its file, one after the other, each with the length
  the thread expects: the condition under which a download delivers the file.
\<close>

theorem upload_serves_pieces:
  assumes "0 < pl" and "length f < 2 ^ 31" and "download_begin name sys_name (of_nat (length f)) pl k = Inr s0"
    and "\<forall>i \<in> set ids. int i < ob_file_pieces (ds_obj s0) \<and> p2p_ok (piece_request pl (ds_obj s0) i)"
    and "us_callocs us = []" and "us_accepts us" and "\<forall>ws \<in> set (us_writes us). writes_all ws"
    and "us_input us = concat (map (p2p_enc \<circ> piece_request pl (ds_obj s0)) ids)"
  shows "do_upload pl (Some f) us = Inr (concat (map (piece_of pl f (ds_obj s0)) ids))"
  by (rule do_upload_pieces [OF assms])


text \<open>A thread asks for the second piece of three bytes, then for the first.\<close>

lemma example_request_ok: "i < 2 \<Longrightarrow> p2p_ok (piece_request 2 (ds_obj dl_example) i)"
proof -
  have "p2p_ok (piece_request 2 (ds_obj dl_example) 0)" "p2p_ok (piece_request 2 (ds_obj dl_example) 1)"
    by code_simp+
  then show "i < 2 \<Longrightarrow> p2p_ok (piece_request 2 (ds_obj dl_example) i)" by (auto simp: less_2_cases_iff)
qed

theorem upload_serves_pieces_witness:
  "do_upload 2 (Some [7, 8, 9]) \<lparr>us_listens = True, us_callocs = [], us_accepts = True,
     us_input = concat (map (p2p_enc \<circ> piece_request 2 (ds_obj dl_example)) [1, 0]), us_writes = [[Wrote 1]], us_stack = []\<rparr> =
   Inr [9, 7, 8]"
proof -
  have start: "download_begin ''1/a'' ''a'' (of_nat (length [7 :: u8, 8, 9])) 2 1 = Inr dl_example"
    using dl_example_begin by simp
  have ids: "\<forall>i \<in> set [1, 0]. int i < ob_file_pieces (ds_obj dl_example) \<and> p2p_ok (piece_request 2 (ds_obj dl_example) i)"
    using example_request_ok by (simp add: dl_example_def)
  from upload_serves_pieces [OF _ _ start ids] show ?thesis
    by (simp add: writes_all_def piece_of_def req_len_def dl_example_def)
qed

end
