(* ===== verification/Exchange.thy ===== *)
theory Exchange
  imports Upload
begin

text \<open>
  A download and the uploads on the other side, put together. A download thread and the \<open>do_upload\<close> that serves it are connected
  by two streams of bytes: the requests of the thread are the input of the upload, and what the upload sends is what the thread reads.
\<close>

section \<open>Runs over connections\<close>

text \<open>The pieces a thread asks for in a run: it sends a request and then reads.\<close>

definition asks :: "nat \<Rightarrow> dl_event \<Rightarrow> dl_state \<Rightarrow> nat list" where
  "asks t e s = (case e of
      DL_Transfer u rs ws \<Rightarrow> (case dl_at u s of Some (DT_Piece i) \<Rightarrow> if u = t then [i] else [] | _ \<Rightarrow> [])
    | _ \<Rightarrow> [])"

fun asked :: "int \<Rightarrow> nat \<Rightarrow> dl_event list \<Rightarrow> dl_state \<Rightarrow> nat list" where
  "asked pl t [] s = []"
| "asked pl t (e # es) s =
     asks t e s @ (case piece_download_task pl e s of Inl _ \<Rightarrow> [] | Inr s' \<Rightarrow> asked pl t es s')"

text \<open>What a read takes from a connection.\<close>

definition consumed :: "int \<Rightarrow> read_reply list \<Rightarrow> nat \<Rightarrow> dl_state \<Rightarrow> u8 list" where
  "consumed pl rs i s = take (nat (req_len pl (ds_obj s) (int i))) (stream rs)"

text \<open>
  \<open>ins t\<close> are the bytes that are still to come on the connection of thread \<open>t\<close>: every read takes bytes from its front, and as many as it
  takes are gone. Writes do not fail, and no owner is the peer itself.
\<close>

definition reads_from :: "int \<Rightarrow> dl_event \<Rightarrow> (nat \<Rightarrow> u8 list) \<Rightarrow> dl_state \<Rightarrow> bool" where
  "reads_from pl e ins s = (case e of
      DL_Self t \<Rightarrow> False
    | DL_Transfer t rs ws \<Rightarrow> writes_all ws \<and>
        (case dl_at t s of
           Some (DT_Piece i) \<Rightarrow> take (length (consumed pl rs i s)) (ins t) = consumed pl rs i s
         | _ \<Rightarrow> True)
    | _ \<Rightarrow> True)"

definition after_read :: "int \<Rightarrow> dl_event \<Rightarrow> (nat \<Rightarrow> u8 list) \<Rightarrow> dl_state \<Rightarrow> (nat \<Rightarrow> u8 list)" where
  "after_read pl e ins s = (case e of
      DL_Transfer t rs ws \<Rightarrow>
        (case dl_at t s of Some (DT_Piece i) \<Rightarrow> ins(t := drop (length (consumed pl rs i s)) (ins t)) | _ \<Rightarrow> ins)
    | _ \<Rightarrow> ins)"

fun served_run :: "int \<Rightarrow> dl_event list \<Rightarrow> (nat \<Rightarrow> u8 list) \<Rightarrow> dl_state \<Rightarrow> bool" where
  "served_run pl [] ins s \<longleftrightarrow> True"
| "served_run pl (e # es) ins s \<longleftrightarrow> reads_from pl e ins s \<and>
     (case piece_download_task pl e s of Inl _ \<Rightarrow> True | Inr s' \<Rightarrow> served_run pl es (after_read pl e ins s) s')"

section \<open>A run over connections is honest\<close>

text \<open>A step changes the table of pieces only, and moves one thread.\<close>

lemma step_obj:
  assumes "dl_ok pl s" and "piece_download_task pl e s = Inr s'"
  shows "\<exists>fl. ds_obj s' = (ds_obj s)\<lparr>ob_piece_flags := fl\<rparr>"
proof -
  have same: "\<exists>fl. ds_obj s = (ds_obj s)\<lparr>ob_piece_flags := fl\<rparr>" by (rule exI [of _ "ob_piece_flags (ds_obj s)"]) simp
  show ?thesis
  proof (cases e)
    case (DL_Next t)
    then show ?thesis using assms next_piece_spec [OF assms(1), of t] same by (auto split: if_splits option.splits)
  next
    case (DL_Send_Fail t)
    then show ?thesis using assms piece_failed_spec [OF assms(1)] same by (auto split: option.splits dl_thread.splits)
  next
    case (DL_Transfer t rs ws)
    then show ?thesis using assms piece_failed_spec [OF assms(1)] transfer_spec [OF assms(1), of t _ rs ws] same
      by (auto simp: Let_def put_piece_def split: option.splits dl_thread.splits if_splits)
  qed (use assms same in \<open>auto split: if_splits\<close>)
qed

lemma piece_of_flags [simp]: "piece_of pl src (obj\<lparr>ob_piece_flags := fl\<rparr>) = piece_of pl src obj"
  by (simp add: piece_of_def fun_eq_iff)

lemma exit_stays:
  assumes "dl_ok pl s" and "piece_download_task pl e s = Inr s'" and "dl_at t s = Some (DT_Exit r)"
  shows "dl_at t s' = Some (DT_Exit r)"
proof (cases e)
  case (DL_Next u)
  then show ?thesis using assms next_piece_spec [OF assms(1), of u] by (auto simp: dl_at_set split: if_splits option.splits)
next
  case (DL_Send_Fail u)
  then show ?thesis using assms piece_failed_spec [OF assms(1)] by (auto simp: dl_at_set split: option.splits dl_thread.splits)
next
  case (DL_Transfer u rs ws)
  then show ?thesis using assms piece_failed_spec [OF assms(1)] transfer_spec [OF assms(1), of u _ rs ws]
    by (auto simp: Let_def put_piece_def dl_at_set split: option.splits dl_thread.splits if_splits)
qed (use assms in \<open>auto simp: dl_at_set split: if_splits\<close>)

definition running :: "nat \<Rightarrow> dl_state \<Rightarrow> bool" where
  "running t s \<longleftrightarrow> (\<exists>x. dl_at t s = Some x \<and> (\<forall>r. x \<noteq> DT_Exit r))"

lemma running_before:
  assumes "dl_ok pl s" and "piece_download_task pl e s = Inr s'" and "running t s'"
  shows "running t s"
  using exit_stays [OF assms(1,2), of t] assms(3) threads_step [OF assms(2)]
  by (cases "dl_at t s") (auto simp: running_def, auto simp: dl_at_def split: if_splits)

text \<open>A thread that goes on after a transfer has read the whole piece.\<close>

lemma transfer_consumed:
  assumes ok: "dl_ok pl s" and i: "dl_at t s = Some (DT_Piece i)" and step: "piece_download_task pl (DL_Transfer t rs ws) s = Inr s'"
    and "running t s'"
  shows "length (consumed pl rs i s) = nat (req_len pl (ds_obj s) (int i))"
proof -
  let ?len = "nat (req_len pl (ds_obj s) (int i))"
  have "length (snd (my_read ?len rs)) = ?len"
  proof (rule ccontr)
    assume "length (snd (my_read ?len rs)) \<noteq> ?len"
    then have "dl_at t s' = Some (DT_Exit (-1))"
      using step i transfer_spec [OF ok i, of rs ws] piece_failed_spec [OF ok i] by (auto simp: Let_def dl_at_set)
    with assms(4) show False by (simp add: running_def)
  qed
  moreover have "snd (my_read ?len rs) = take (length (snd (my_read ?len rs))) (stream rs)"
    using my_read_spec [of ?len rs] by (auto split: prod.splits)
  ultimately show ?thesis by (metis consumed_def)
qed

lemma piece_in_file:
  assumes ok: "dl_ok pl s" and i: "dl_at t s = Some (DT_Piece i)" and len: "ob_file_len (ds_obj s) = int (length src)"
  shows "length (piece_of pl src (ds_obj s) i) = nat (req_len pl (ds_obj s) (int i))" "int i < ob_file_pieces (ds_obj s)"
proof -
  show less: "int i < ob_file_pieces (ds_obj s)" using dl_okD(4,5) [OF ok] i by fastforce
  note b = req_len_bounds [OF dl_okD(1-3) [OF ok] _ less, simplified]
  have "nat (int i * pl) + nat (req_len pl (ds_obj s) (int i)) \<le> length src"
    using b(1,3) len dl_okD(1) [OF ok] by (simp add: nat_add_distrib [symmetric] nat_le_iff)
  then show "length (piece_of pl src (ds_obj s) i) = nat (req_len pl (ds_obj s) (int i))" by (simp add: piece_of_def)
qed

text \<open>The bytes to come on the connection of a thread are the pieces it is still going to ask for.\<close>

definition in_step :: "int \<Rightarrow> u8 list \<Rightarrow> dl_event list \<Rightarrow> (nat \<Rightarrow> u8 list) \<Rightarrow> dl_state \<Rightarrow> bool" where
  "in_step pl src es ins s \<longleftrightarrow>
     (\<forall>t. running t s \<longrightarrow> ins t = concat (map (piece_of pl src (ds_obj s)) (asked pl t es s)))"

lemma in_step_step:
  assumes ok: "dl_ok pl s" and len: "ob_file_len (ds_obj s) = int (length src)"
    and ins: "in_step pl src (e # es) ins s" and step: "piece_download_task pl e s = Inr s'"
  shows "in_step pl src es (after_read pl e ins s) s'"
  unfolding in_step_def
proof (intro allI impI)
  fix t assume t: "running t s'"
  from step_obj [OF ok step] obtain fl where obj: "ds_obj s' = (ds_obj s)\<lparr>ob_piece_flags := fl\<rparr>" by blast
  have now: "ins t = concat (map (piece_of pl src (ds_obj s)) (asks t e s @ asked pl t es s'))"
    using ins running_before [OF ok step t] step by (simp add: in_step_def)
  show "after_read pl e ins s t = concat (map (piece_of pl src (ds_obj s')) (asked pl t es s'))"
  proof (cases "asks t e s")
    case Nil
    then have "after_read pl e ins s t = ins t"
      by (auto simp: asks_def after_read_def split: dl_event.splits option.splits dl_thread.splits if_splits)
    with now Nil show ?thesis by (simp add: obj)
  next
    case (Cons i js)
    then obtain rs ws where e: "e = DL_Transfer t rs ws" "dl_at t s = Some (DT_Piece i)" "js = []"
      by (auto simp: asks_def split: dl_event.splits option.splits dl_thread.splits if_splits)
    have "after_read pl e ins s t = drop (length (consumed pl rs i s)) (ins t)" by (simp add: after_read_def e(1,2))
    moreover have "length (consumed pl rs i s) = length (piece_of pl src (ds_obj s) i)"
      using transfer_consumed [OF ok e(2) step [unfolded e(1)] t] piece_in_file(1) [OF ok e(2) len] by simp
    ultimately show ?thesis using now by (simp add: Cons e(3) obj)
  qed
qed

lemma honest_step:
  assumes ok: "dl_ok pl s" and len: "ob_file_len (ds_obj s) = int (length src)"
    and ins: "in_step pl src (e # es) ins s" and reads: "reads_from pl e ins s"
  shows "honest pl src e s"
proof (cases e)
  case (DL_Transfer t rs ws)
  show ?thesis
  proof (cases "\<exists>i. dl_at t s = Some (DT_Piece i)")
    case True
    then obtain i where i: "dl_at t s = Some (DT_Piece i)" by blast
    let ?x = "consumed pl rs i s"
    have r: "writes_all ws" "take (length ?x) (ins t) = ?x" using reads i by (simp_all add: reads_from_def DL_Transfer)
    have "\<exists>rest. ins t = piece_of pl src (ds_obj s) i @ rest"
      using ins i by (auto simp: in_step_def running_def asks_def DL_Transfer)
    moreover have "length ?x \<le> length (piece_of pl src (ds_obj s) i)"
      using piece_in_file(1) [OF ok i len] by (simp add: consumed_def)
    ultimately have "?x = take (length ?x) (piece_of pl src (ds_obj s) i)" using r(2) by auto
    with r(1) i show ?thesis by (simp add: honest_def DL_Transfer consumed_def Let_def)
  next
    case False
    then show ?thesis using reads by (auto simp: honest_def reads_from_def DL_Transfer split: option.splits dl_thread.splits)
  qed
qed (use reads in \<open>simp_all add: honest_def reads_from_def\<close>)

lemma served_honest:
  assumes "dl_ok pl s" and "ob_file_len (ds_obj s) = int (length src)" and "in_step pl src es ins s" and "served_run pl es ins s"
  shows "honest_run pl src es s"
  using assms
proof (induction es arbitrary: ins s)
  case (Cons e es)
  obtain s1 where s1: "piece_download_task pl e s = Inr s1" "dl_ok pl s1" using dl_step_ok [OF Cons.prems(1)] by blast
  from step_obj [OF Cons.prems(1) s1(1)] Cons.prems(2) have "ob_file_len (ds_obj s1) = int (length src)" by auto
  from Cons.IH [OF s1(2) this in_step_step [OF Cons.prems(1-3) s1(1)]] Cons.prems(4) s1(1) honest_step [OF Cons.prems(1-3)]
  show ?case by simp
qed simp

text \<open>A thread asks for pieces of the file only.\<close>

lemma asked_in_range:
  assumes "dl_ok pl s" and "i \<in> set (asked pl t es s)"
  shows "int i < ob_file_pieces (ds_obj s)"
  using assms
proof (induction es arbitrary: s)
  case (Cons e es)
  obtain s1 where s1: "piece_download_task pl e s = Inr s1" "dl_ok pl s1" using dl_step_ok [OF Cons.prems(1)] by blast
  from step_obj [OF Cons.prems(1) s1(1)] have "ob_file_pieces (ds_obj s1) = ob_file_pieces (ds_obj s)" by auto
  moreover have "int i < ob_file_pieces (ds_obj s)" if "i \<in> set (asks t e s)"
  proof -
    from that have "dl_at t s = Some (DT_Piece i)"
      by (auto simp: asks_def split: dl_event.splits option.splits dl_thread.splits if_splits)
    with dl_okD(4,5) [OF Cons.prems(1)] show ?thesis by fastforce
  qed
  ultimately show ?case using Cons.IH [OF s1(2)] Cons.prems(2) s1(1) by auto
qed simp

section \<open>A file from one peer to another\<close>

text \<open>
  C4. A file travels from the disk of its owners to the disk of a peer. Every download thread is connected to a \<open>do_upload\<close> of its owner: the upload reads
  the requests the thread sends in this run, and the thread reads, in parts of any size, what the upload sends. If the run comes to an end with all
  threads exited with 0, in whatever order they took the pieces and however their steps interleave, then \<open>do_download\<close> returns 0 and the file
  of the peer is the file of the owners, byte by byte. Assumed is that the length was told, that writes and allocations do not fail, and that no request
  contains the end mark; and the length of the file added to the length of a piece is below \<open>2 ^ 31\<close>, because the sum is computed in \<open>int\<close>.
\<close>

theorem served_file_arrives:
  assumes pl: "0 < pl" and own: "owners \<noteq> []" and bound: "int (length src) + pl < 2 ^ 31"
    and len: "get_file_len_from connected name sk input = Inr (of_nat (length src))"
    and start: "download_begin name sys_name (of_nat (length src)) pl (length owners) = Inr s0"
    and run: "efold (piece_download_task pl) es s0 = Inr s" "all_exited s" "set (exit_values s) \<subseteq> {0}"
    and conn: "served_run pl es ins s0"
    and ups: "\<And>t. t < length owners \<Longrightarrow> us_callocs (us t) = [] \<and> us_accepts (us t) \<and> (\<forall>ws \<in> set (us_writes (us t)). writes_all ws) \<and>
        us_input (us t) = concat (map (p2p_enc \<circ> piece_request pl (ds_obj s0)) (asked pl t es s0)) \<and>
        (\<forall>i \<in> set (asked pl t es s0). p2p_ok (piece_request pl (ds_obj s0) i)) \<and>
        do_upload pl (Some src) (us t) = Inr (ins t)"
  shows "do_download True connected sk input pl [] es name owners sys_name f = Inr (Some (0, Some src))"
proof (rule do_download_file [OF pl own bound len start _ run])
  have src: "length src < 2 ^ 31" using pl bound by simp
  then have l: "sint (of_nat (length src) :: u32) = int (length src)"
    by (simp add: signed_of_nat signed_take_bit_int_eq_self)
  note b = download_begin_ok [OF pl _ start, unfolded l, simplified]
  have "ins t = concat (map (piece_of pl src (ds_obj s0)) (asked pl t es s0))" if "running t s0" for t
  proof -
    have t: "t < length owners" using that b(5) by (auto simp: running_def dl_at_def split: if_splits)
    have "\<forall>i \<in> set (asked pl t es s0). int i < ob_file_pieces (ds_obj s0) \<and> p2p_ok (piece_request pl (ds_obj s0) i)"
      using asked_in_range [OF b(1)] ups [OF t] by blast
    from do_upload_pieces [OF pl src start this, of "us t"] ups [OF t] show ?thesis by simp
  qed
  then have "in_step pl src es ins s0" by (simp add: in_step_def)
  from served_honest [OF b(1,3) this conn] show "honest_run pl src es s0" .
qed

text \<open>One owner serves a file of three bytes in pieces of two.\<close>

definition ups_example :: "nat \<Rightarrow> upload_session" where
  "ups_example t = \<lparr>us_listens = True, us_callocs = [], us_accepts = True,
     us_input = concat (map (p2p_enc \<circ> piece_request 2 (ds_obj dl_example)) [0, 1]), us_writes = [[Wrote 1]], us_stack = []\<rparr>"

lemma dl_example_asked: "asked 2 0 dl_example_run dl_example = [0, 1]"
  by code_simp

lemma dl_example_served: "served_run 2 dl_example_run (\<lambda>_. [7, 8, 9]) dl_example"
  by code_simp

theorem served_file_arrives_witness:
  "do_download True True \<lparr>wire_out = [], send_replies = []\<rparr> len_answer 2 [] dl_example_run ''1/a''
     [\<lparr>pid_ip = 7, pid_port = P2P_PORT\<rparr>] ''a'' (Some [1]) = Inr (Some (0, Some [7, 8, 9]))"
proof -
  let ?src = "[7, 8, 9] :: u8 list"
  have start: "download_begin ''1/a'' ''a'' (of_nat (length ?src)) 2 (length [\<lparr>pid_ip = 7, pid_port = P2P_PORT\<rparr>]) = Inr dl_example"
    using dl_example_begin by simp
  have ids: "\<forall>i \<in> set [0, 1]. int i < ob_file_pieces (ds_obj dl_example) \<and> p2p_ok (piece_request 2 (ds_obj dl_example) i)"
    using example_request_ok by (simp add: dl_example_def)
  have "do_upload 2 (Some ?src) (ups_example 0) = Inr ?src"
    using do_upload_pieces [OF _ _ start ids, of "ups_example 0"]
    by (simp add: ups_example_def writes_all_def piece_of_def req_len_def dl_example_def)
  with ids have ups: "us_callocs (ups_example t) = [] \<and> us_accepts (ups_example t) \<and> (\<forall>ws \<in> set (us_writes (ups_example t)). writes_all ws) \<and>
      us_input (ups_example t) = concat (map (p2p_enc \<circ> piece_request 2 (ds_obj dl_example)) (asked 2 t dl_example_run dl_example)) \<and>
      (\<forall>i \<in> set (asked 2 t dl_example_run dl_example). p2p_ok (piece_request 2 (ds_obj dl_example) i)) \<and>
      do_upload 2 (Some ?src) (ups_example t) = Inr ?src" if "t < length [\<lparr>pid_ip = 7, pid_port = P2P_PORT\<rparr>]" for t
    using that by (simp add: dl_example_asked) (simp add: ups_example_def writes_all_def)
  from served_file_arrives [OF _ _ _ _ start dl_example_end _ _ dl_example_served ups] len_answer_read
  show ?thesis by (simp add: all_exited_def exit_values_def)
qed

end
