(* ===== verification/Config.thy ===== *)
theory Config
  imports MonitorProps Tracker
begin

text \<open>
  The configuration of both programs and the command line: \<open>parse_conf_file\<close> of \<open>server/start.c\<close>,
  \<open>parse_conf_files\<close> of \<open>client/start.c\<close> and \<open>main\<close> of \<open>dartsync.c\<close>. A file is the list of its characters, or none
  when it cannot be opened. The formats of \<open>fscanf\<close> are written out, with the sizes of the buffers they
  write to. The loop over the lines of a file need not end; its value is then \<open>None\<close>.
\<close>

section \<open>Reading with fscanf\<close>

abbreviation newline :: char where
  "newline \<equiv> CHR 0x0A"

abbreviation colon :: char where
  "colon \<equiv> CHR '':''"

definition MAX_TARGET_DIR :: nat where
  "MAX_TARGET_DIR = 2048"

definition isspace :: "char \<Rightarrow> bool" where
  "isspace c \<longleftrightarrow> c = CHR '' '' \<or> c \<in> {CHR 0x09, CHR 0x0A, CHR 0x0B, CHR 0x0C, CHR 0x0D}"

definition isdigit :: "char \<Rightarrow> bool" where
  "isdigit c \<longleftrightarrow> 48 \<le> (of_char c :: nat) \<and> (of_char c :: nat) \<le> 57"

text \<open>The string in a buffer ends at its first null character.\<close>

definition c_string :: "string \<Rightarrow> string" where
  "c_string s = takeWhile (\<lambda>c. c \<noteq> CHR 0x00) s"

text \<open>
  \<open>fscanf(fp, "%[^:]: %[^\n]\n", cmd, arg)\<close>: whether the value is not \<open>EOF\<close>, what the two buffers hold afterwards, and
  the rest of the file. A file that starts with a colon does not match the first conversion; nothing is read then.
\<close>

definition scan_pair :: "string \<Rightarrow> string \<Rightarrow> string \<Rightarrow> (bool \<times> string \<times> string \<times> string) res" where
  "scan_pair cmd arg input =
     (if input = [] then Inr (False, cmd, arg, [])
      else let w = takeWhile (\<lambda>c. c \<noteq> colon) input
           in if w = [] then Inr (True, cmd, arg, input)
              else if length w \<ge> MAX_NAME_LEN then Inl Out_Of_Bounds
              else let rest = dropWhile isspace (drop (Suc (length w)) input);
                       v = takeWhile (\<lambda>c. c \<noteq> newline) rest
                   in if v = [] then Inr (True, w, arg, [])
                      else if length v \<ge> MAX_LINE then Inl Out_Of_Bounds
                      else Inr (True, w, v, dropWhile isspace (drop (length v) rest)))"

text \<open>
  The loop over the lines. What is done with a line is an argument, which gives none for a command
  that is not known. The value is that of the function around the loop.
\<close>

partial_function (option) conf_loop ::
    "(string \<Rightarrow> string \<Rightarrow> 's \<Rightarrow> 's option res) \<Rightarrow> string \<Rightarrow> string \<Rightarrow> string \<Rightarrow> 's \<Rightarrow> (int \<times> 's) res option" where
  "conf_loop act cmd arg input s =
     (case scan_pair cmd arg input of
        Inl e \<Rightarrow> Some (Inl e)
      | Inr (read, cmd, arg, input) \<Rightarrow>
          if \<not> read then Some (Inr (0, s))
          else (case act (c_string cmd) (c_string arg) s of
                  Inl e \<Rightarrow> Some (Inl e)
                | Inr None \<Rightarrow> Some (Inr (-1, s))
                | Inr (Some s) \<Rightarrow> conf_loop act cmd arg input s))"

section \<open>The tracker\<close>

text \<open>\<open>atoi\<close>: the number in front, read as a \<open>long\<close> that stays at its limits and cut to an \<open>int\<close>, as the GNU library
  does it where the standard leaves the value open.\<close>

definition atoi :: "string \<Rightarrow> int" where
  "atoi s =
     (let s = dropWhile isspace s;
          neg = (s \<noteq> [] \<and> hd s = CHR ''-'');
          s = (if s \<noteq> [] \<and> (hd s = CHR ''-'' \<or> hd s = CHR ''+'') then tl s else s);
          v = int (digits_value (takeWhile isdigit s));
          l = (if neg then max (- (2 ^ 63)) (- v) else min (2 ^ 63 - 1) v)
      in (l + 2 ^ 31) mod 2 ^ 32 - 2 ^ 31)"

definition set_control :: "string \<Rightarrow> string \<Rightarrow> ttop_control_info \<Rightarrow> ttop_control_info option res" where
  "set_control cmd arg c =
     Inr (if cmd = ''interval'' then Some (c\<lparr>ci_interval := atoi arg\<rparr>)
          else if cmd = ''piece_length'' then Some (c\<lparr>ci_piece_len := atoi arg\<rparr>)
          else None)"

text \<open>\<open>cmd\<close> and \<open>arg\<close> are what the two buffers on the stack hold in the beginning.\<close>

definition parse_conf_file ::
    "string option \<Rightarrow> string \<Rightarrow> string \<Rightarrow> ttop_control_info \<Rightarrow> (int \<times> ttop_control_info) res option" where
  "parse_conf_file file cmd arg c =
     (case file of None \<Rightarrow> Some (Inr (-1, c)) | Some input \<Rightarrow> conf_loop set_control cmd arg input c)"

text \<open>
  \<open>server_start\<close>: \<open>listening\<close> tells whether the port could be opened, \<open>evs\<close> is what happens while connections are accepted,
  and \<open>failed\<close> that \<open>accept\<close> fails in the end for another reason than a signal.
\<close>

definition server_start ::
    "string option \<Rightarrow> string \<Rightarrow> string \<Rightarrow> bool \<Rightarrow> tr_event list \<Rightarrow> bool \<Rightarrow> (int \<Rightarrow> sock) \<Rightarrow> bool list \<Rightarrow> bool list \<Rightarrow> tracker res option" where
  "server_start file cmd arg listening evs failed socks al pal =
     (case parse_conf_file file cmd arg \<lparr>ci_interval = 0, ci_piece_len = 0\<rparr> of
        None \<Rightarrow> None
      | Some (Inl e) \<Rightarrow> Some (Inl e)
      | Some (Inr (r, c)) \<Rightarrow>
          Some (if r \<noteq> 0 \<or> \<not> listening then Inr (tracker_start c socks al pal)
                else ebind (efold tr_exec evs (tracker_start c socks al pal)) (\<lambda>tr.
                  if failed then ebind (file_table_destroy (tr_ft tr)) (\<lambda>ft. Inr (tr\<lparr>tr_ft := ft\<rparr>)) else Inr tr)))"

section \<open>The peer\<close>

record client_conf_info =
  tracker_host :: string
  device_name :: string
  target_n :: int
  target_dirs :: "string list"

definition set_client_conf :: "string \<Rightarrow> string \<Rightarrow> client_conf_info \<Rightarrow> client_conf_info option res" where
  "set_client_conf cmd arg conf =
     (if cmd = ''tracker'' then
        (if length arg < MAX_NAME_LEN then Inr (Some (conf\<lparr>tracker_host := arg\<rparr>)) else Inl Out_Of_Bounds)
      else if cmd = ''device'' then
        (if length arg < MAX_NAME_LEN then Inr (Some (conf\<lparr>device_name := arg\<rparr>)) else Inl Out_Of_Bounds)
      else Inr None)"

text \<open>A word the loop over \<open>fscanf(fp, "%s", arg)\<close> has read: without the slash at its end it is the next target directory.\<close>

definition store_target :: "string \<Rightarrow> bool list \<times> client_conf_info \<Rightarrow> (bool list \<times> client_conf_info) option res" where
  "store_target w x =
     (let (al, conf) = x; arg = c_string w
      in if length w \<ge> MAX_LINE \<or> arg = [] then Inl Out_Of_Bounds
         else let arg = (if last arg = slash then butlast arg else arg)
              in if length (target_dirs conf) \<ge> MAX_TARGET_DIR then Inl Out_Of_Bounds
                 else (case answer al of
                         (False, al) \<Rightarrow> Inr None
                       | (True, al) \<Rightarrow> Inr (Some (al, conf\<lparr>target_dirs := target_dirs conf @ [arg]\<rparr>))))"

text \<open>The words of a file as \<open>%s\<close> reads them.\<close>

function scan_words :: "string \<Rightarrow> string list" where
  "scan_words input =
     (let s = dropWhile isspace input
      in if s = [] then []
         else takeWhile (\<lambda>c. \<not> isspace c) s # scan_words (dropWhile (\<lambda>c. \<not> isspace c) s))"
  by pat_completeness auto

termination
proof (relation "measure length")
  fix input s
  assume s: "s = dropWhile isspace input" "s \<noteq> []"
  then have "\<not> isspace (hd s)" by (simp add: hd_dropWhile)
  then have "length (dropWhile (\<lambda>c. \<not> isspace c) s) < length s"
    using s(2) by (cases s) (simp_all add: length_dropWhile_le le_imp_less_Suc)
  moreover have "length s \<le> length input" using s(1) by (simp add: length_dropWhile_le)
  ultimately show "(dropWhile (\<lambda>c. \<not> isspace c) s, input) \<in> measure length" by simp
qed simp

declare scan_words.simps [simp del]

fun target_loop :: "string list \<Rightarrow> bool list \<times> client_conf_info \<Rightarrow> (int \<times> client_conf_info) res" where
  "target_loop [] (al, conf) = Inr (0, conf\<lparr>target_n := int (length (target_dirs conf))\<rparr>)"
| "target_loop (w # ws) (al, conf) =
     (case store_target w (al, conf) of
        Inl e \<Rightarrow> Inl e
      | Inr None \<Rightarrow> Inr (-1, conf)
      | Inr (Some x) \<Rightarrow> target_loop ws x)"

definition parse_conf_files ::
    "string option \<Rightarrow> string option \<Rightarrow> string \<Rightarrow> string \<Rightarrow> bool list \<Rightarrow> client_conf_info \<Rightarrow> (int \<times> client_conf_info) res option" where
  "parse_conf_files conf_file target_file cmd arg al conf =
     (case conf_file of
        None \<Rightarrow> Some (Inr (-1, conf))
      | Some input \<Rightarrow>
          (case conf_loop set_client_conf cmd arg input conf of
             None \<Rightarrow> None
           | Some (Inl e) \<Rightarrow> Some (Inl e)
           | Some (Inr (r, conf)) \<Rightarrow>
               if r \<noteq> 0 then Some (Inr (r, conf))
               else (case target_file of
                       None \<Rightarrow> Some (Inr (-1, conf))
                     | Some input \<Rightarrow> Some (target_loop (scan_words input) (al, conf)))))"

section \<open>The command line\<close>

datatype start_mode = CLIENT | SERVER | NONE

datatype main_end = Exit int | Start start_mode

text \<open>The loop of \<open>main\<close> over the answers of \<open>getopt_long\<close>, an option and its argument, until it answers -1; the debug switch is
  the flag.\<close>

fun main_options :: "(char \<times> string) list \<Rightarrow> bool \<times> start_mode \<Rightarrow> main_end + bool \<times> start_mode" where
  "main_options [] (debug, mode) = Inr (debug, mode)"
| "main_options ((c, optarg) # as) (debug, mode) =
     (if c = CHR 0x00 then main_options as (debug, mode)
      else if c = CHR ''d'' then main_options as (True, mode)
      else if c = CHR ''m'' then
        main_options as (debug, if optarg = ''server'' then SERVER else if optarg = ''client'' then CLIENT else mode)
      else if c = CHR ''h'' then Inl (Exit 0)
      else Inl (Exit 1))"

definition main :: "(char \<times> string) list \<Rightarrow> main_end" where
  "main as =
     (case main_options as (False, NONE) of
        Inl r \<Rightarrow> r
      | Inr (debug, mode) \<Rightarrow> (case mode of CLIENT \<Rightarrow> Start CLIENT | SERVER \<Rightarrow> Start SERVER | NONE \<Rightarrow> Exit 1))"

section \<open>Files as they are meant to be written\<close>

definition conf_line :: "string \<times> string \<Rightarrow> string" where
  "conf_line kv = fst kv @ colon # CHR '' '' # snd kv @ [newline]"

abbreviation conf_text :: "(string \<times> string) list \<Rightarrow> string" where
  "conf_text kvs \<equiv> concat (map conf_line kvs)"

definition no_nul :: "string \<Rightarrow> bool" where
  "no_nul s \<longleftrightarrow> CHR 0x00 \<notin> set s"

definition good_line :: "string \<times> string \<Rightarrow> bool" where
  "good_line kv \<longleftrightarrow> (case kv of (k, v) \<Rightarrow>
     k \<noteq> [] \<and> \<not> isspace (hd k) \<and> colon \<notin> set k \<and> no_nul k \<and> length k < MAX_NAME_LEN \<and>
     v \<noteq> [] \<and> \<not> isspace (hd v) \<and> newline \<notin> set v \<and> no_nul v \<and> length v < MAX_LINE)"

text \<open>The lines one after the other, as long as each command is known and its argument fits.\<close>

fun apply_lines :: "(string \<Rightarrow> string \<Rightarrow> 's \<Rightarrow> 's option res) \<Rightarrow> (string \<times> string) list \<Rightarrow> 's \<Rightarrow> 's option" where
  "apply_lines act [] s = Some s"
| "apply_lines act ((k, v) # kvs) s =
     (case act k v s of Inr (Some s) \<Rightarrow> apply_lines act kvs s | _ \<Rightarrow> None)"

section \<open>Lemmas on scanning\<close>

lemma c_string_id [simp]: "no_nul s \<Longrightarrow> c_string s = s"
  by (auto simp: no_nul_def c_string_def takeWhile_eq_all_conv)

lemma takeWhile_stop: "\<forall>x \<in> set xs. P x \<Longrightarrow> \<not> P y \<Longrightarrow> takeWhile P (xs @ y # ys) = xs"
  by (simp add: takeWhile_append2)

lemma dropWhile_keep: "xs = [] \<or> \<not> P (hd xs) \<Longrightarrow> dropWhile P xs = xs"
  by (cases xs) auto

lemma scan_line:
  assumes "good_line (k, v)" and rest: "rest = [] \<or> \<not> isspace (hd rest)"
  shows "scan_pair cmd arg (conf_line (k, v) @ rest) = Inr (True, k, v, rest)"
proof -
  have k: "k \<noteq> []" "\<forall>c \<in> set k. c \<noteq> colon" "length k < MAX_NAME_LEN"
    and v: "v \<noteq> []" "\<not> isspace (hd v)" "\<forall>c \<in> set v. c \<noteq> newline" "length v < MAX_LINE"
    using assms(1) by (auto simp: good_line_def)
  have w: "takeWhile (\<lambda>c. c \<noteq> colon) (conf_line (k, v) @ rest) = k"
    using takeWhile_stop [of k "\<lambda>c. c \<noteq> colon" colon] k(2) by (simp add: conf_line_def)
  have "dropWhile isspace (CHR '' '' # v @ newline # rest) = v @ newline # rest"
    using v(1,2) by (simp add: isspace_def [of "CHR '' ''"] dropWhile_keep)
  then have r: "dropWhile isspace (drop (Suc (length k)) (conf_line (k, v) @ rest)) = v @ newline # rest"
    by (simp add: conf_line_def)
  have "takeWhile (\<lambda>c. c \<noteq> newline) (v @ newline # rest) = v"
    using takeWhile_stop [of v "\<lambda>c. c \<noteq> newline" newline] v(3) by simp
  moreover have "dropWhile isspace (newline # rest) = rest" using rest by (simp add: isspace_def [of newline] dropWhile_keep)
  moreover have "conf_line (k, v) @ rest \<noteq> []" by (simp add: conf_line_def)
  ultimately show ?thesis using w r k v by (simp add: scan_pair_def Let_def)
qed

lemma conf_text_head: "\<forall>kv \<in> set kvs. good_line kv \<Longrightarrow> rest = [] \<or> \<not> isspace (hd rest) \<Longrightarrow>
   conf_text kvs @ rest = [] \<or> \<not> isspace (hd (conf_text kvs @ rest))"
  by (cases kvs) (auto simp: good_line_def conf_line_def)

text \<open>The loop works off the lines of a file, and goes on with the rest.\<close>

lemma loop_lines:
  assumes "\<forall>kv \<in> set kvs. good_line kv" and "apply_lines act kvs s = Some s'"
    and "rest = [] \<or> \<not> isspace (hd rest)"
  shows "conf_loop act cmd arg (conf_text kvs @ rest) s =
     conf_loop act (last (cmd # map fst kvs)) (last (arg # map snd kvs)) rest s'"
  using assms
proof (induction kvs arbitrary: cmd arg s)
  case Nil
  then show ?case by simp
next
  case (Cons kv kvs)
  obtain k v where kv: "kv = (k, v)" by fastforce
  from Cons.prems(2) obtain s1 where s1: "act k v s = Inr (Some s1)" "apply_lines act kvs s1 = Some s'"
    by (auto simp: kv split: sum.splits option.splits)
  have g: "good_line (k, v)" "\<forall>kv \<in> set kvs. good_line kv" "no_nul k" "no_nul v"
    using Cons.prems(1) by (auto simp: kv good_line_def)
  have "scan_pair cmd arg (conf_text (kv # kvs) @ rest) = Inr (True, k, v, conf_text kvs @ rest)"
    using scan_line [OF g(1) conf_text_head [OF g(2) Cons.prems(3)]] by (simp add: kv)
  then have "conf_loop act cmd arg (conf_text (kv # kvs) @ rest) s = conf_loop act k v (conf_text kvs @ rest) s1"
    using s1(1) g(3,4) by (subst conf_loop.simps) simp
  with Cons.IH [OF g(2) s1(2) Cons.prems(3)] show ?case by (simp add: kv)
qed

lemma loop_end: "conf_loop act cmd arg [] s = Some (Inr (0, s))"
  by (subst conf_loop.simps) (simp add: scan_pair_def)

lemma loop_text:
  assumes "\<forall>kv \<in> set kvs. good_line kv" and "apply_lines act kvs s = Some s'"
  shows "conf_loop act cmd arg (conf_text kvs) s = Some (Inr (0, s'))"
  using loop_lines [OF assms, of "[]"] by (simp add: loop_end)

section \<open>When the loop ends\<close>

text \<open>\<open>ys\<close> is what is left of a file from the start of one of its lines on, spaces in front of it left out.\<close>

definition from_line :: "string \<Rightarrow> string \<Rightarrow> bool" where
  "from_line input ys \<longleftrightarrow> (\<exists>xs. input = xs @ ys \<and> (xs = [] \<or> (\<exists>zs ws. xs = zs @ newline # ws \<and> (\<forall>c \<in> set ws. isspace c))))"

lemma from_line_trans:
  assumes "input = zs @ newline # ws @ rest" and "\<forall>c \<in> set ws. isspace c" and "from_line rest ys"
  shows "from_line input ys"
proof -
  from assms(3) obtain xs where xs: "rest = xs @ ys" "xs = [] \<or> (\<exists>zs ws. xs = zs @ newline # ws \<and> (\<forall>c \<in> set ws. isspace c))"
    by (auto simp: from_line_def)
  from xs(2) have "\<exists>zs' ws'. zs @ newline # ws @ xs = zs' @ newline # ws' \<and> (\<forall>c \<in> set ws'. isspace c)"
  proof
    assume "xs = []"
    then show ?thesis using assms(2) by (intro exI [of _ zs] exI [of _ ws]) simp
  next
    assume "\<exists>zs ws. xs = zs @ newline # ws \<and> (\<forall>c \<in> set ws. isspace c)"
    then obtain as bs where "xs = as @ newline # bs" "\<forall>c \<in> set bs. isspace c" by blast
    then show ?thesis by (intro exI [of _ "zs @ newline # ws @ as"] exI [of _ bs]) simp
  qed
  then show ?thesis using assms(1) xs(1) by (auto simp: from_line_def)
qed

lemma scan_rest:
  assumes "scan_pair cmd arg input = Inr (read, cmd', arg', rest)" and "input \<noteq> []" and "hd input \<noteq> colon" and "rest \<noteq> []"
  shows "\<exists>zs ws. input = zs @ newline # ws @ rest \<and> (\<forall>c \<in> set ws. isspace c)"
proof -
  define w where "w = takeWhile (\<lambda>c. c \<noteq> colon) input"
  define r where "r = dropWhile isspace (drop (Suc (length w)) input)"
  define t where "t = drop (length (takeWhile (\<lambda>c. c \<noteq> newline) r)) r"
  have "w \<noteq> []" using assms(2,3) by (cases input) (simp_all add: w_def)
  then have rest: "rest = dropWhile isspace t"
    using assms(1,2,4) by (auto simp: scan_pair_def Let_def w_def r_def t_def split: if_splits)
  have t: "t = dropWhile (\<lambda>c. c \<noteq> newline) r" by (simp add: t_def dropWhile_eq_drop)
  from rest assms(4) have "t \<noteq> []" by (metis dropWhile.simps(1))
  moreover from this have "hd t = newline" using hd_dropWhile [of "\<lambda>c. c \<noteq> newline" r] by (simp add: t)
  ultimately obtain u where u: "t = newline # u" by (cases t) simp_all
  have "isspace newline" by (simp add: isspace_def)
  then have tl: "takeWhile isspace u @ rest = u" using rest u by simp
  have "input = take (Suc (length w)) input @ takeWhile isspace (drop (Suc (length w)) input) @ r" by (simp add: r_def)
  moreover have "r = takeWhile (\<lambda>c. c \<noteq> newline) r @ newline # u" using t u by (metis takeWhile_dropWhile_id)
  ultimately have "input = (take (Suc (length w)) input @ takeWhile isspace (drop (Suc (length w)) input) @
      takeWhile (\<lambda>c. c \<noteq> newline) r) @ newline # takeWhile isspace u @ rest"
    unfolding tl by simp
  moreover have "\<forall>c \<in> set (takeWhile isspace u). isspace c" by (auto dest: set_takeWhileD)
  ultimately show ?thesis by blast
qed

lemma loop_returns:
  assumes "conf_loop act cmd arg input s = None"
  shows "\<exists>ys. from_line input (colon # ys)"
  using assms
proof (induction "length input" arbitrary: cmd arg input s rule: less_induct)
  case less
  consider "input = []" | ys where "input = colon # ys" | "input \<noteq> []" "hd input \<noteq> colon"
    by (cases input) auto
  then show ?case
  proof cases
    case 1
    with less.prems show ?thesis by (simp add: loop_end)
  next
    case (2 ys)
    then show ?thesis by (auto simp: from_line_def)
  next
    case 3
    from less.prems obtain c a rest s' where sc: "scan_pair cmd arg input = Inr (True, c, a, rest)"
        and None: "conf_loop act c a rest s' = None"
      by (subst (asm) conf_loop.simps) (auto split: sum.splits if_splits option.splits)
    have "rest \<noteq> []" using None by (auto simp: loop_end)
    from scan_rest [OF sc 3 this] obtain zs ws where
      z: "input = zs @ newline # ws @ rest" "\<forall>c \<in> set ws. isspace c" by blast
    then have "length rest < length input" by simp
    from less.hyps [OF this None] from_line_trans [OF z] show ?thesis by blast
  qed
qed

text \<open>A line that starts with a colon leaves the buffers and the file as they are, so that the last command is done
  over and over again.\<close>

lemma loop_colon:
  assumes "\<And>s. \<exists>s'. act (c_string cmd) (c_string arg) s = Inr (Some s')"
  shows "conf_loop act cmd arg (colon # ys) s = None"
proof (rule ccontr)
  assume "conf_loop act cmd arg (colon # ys) s \<noteq> None"
  then obtain r where r: "conf_loop act cmd arg (colon # ys) s = Some r" by blast
  let ?P = "\<lambda>act' cmd' arg' input. act' = act \<and> cmd' = cmd \<and> arg' = arg \<and> input = colon # ys"
  have "\<not> ?P act cmd arg (colon # ys)"
  proof (rule conf_loop.raw_induct [where P = "\<lambda>act' cmd' arg' input s r. \<not> ?P act' cmd' arg' input", OF _ r])
    fix f act' cmd' arg' input s r
    assume IH: "\<And>act' cmd' arg' input s r. f act' cmd' arg' input s = Some r \<Longrightarrow> \<not> ?P act' cmd' arg' input"
      and eq: "(case scan_pair cmd' arg' input of Inl e \<Rightarrow> Some (Inl e)
        | Inr (read, cmd, arg, input) \<Rightarrow> if \<not> read then Some (Inr (0, s))
            else (case act' (c_string cmd) (c_string arg) s of Inl e \<Rightarrow> Some (Inl e) | Inr None \<Rightarrow> Some (Inr (-1, s))
              | Inr (Some s) \<Rightarrow> f act' cmd arg input s)) = Some r"
    from assms [of s] obtain s' where "act (c_string cmd) (c_string arg) s = Inr (Some s')" by blast
    with eq IH [of act cmd arg "colon # ys" s' r] show "\<not> ?P act' cmd' arg' input" by (auto simp: scan_pair_def)
  qed
  then show False by simp
qed

section \<open>The settings of the tracker\<close>

lemma decimal_digits: "c \<in> set (decimal n) \<Longrightarrow> isdigit c"
proof (induction n rule: decimal.induct)
  case (1 n)
  have "isdigit (char_of (k + 48))" if "k < 10" for k :: nat
    using that by (simp add: isdigit_def of_char_of)
  from this [of n] this [of "n mod 10"] 1 show ?case by (cases "n < 10") (auto simp: decimal.simps [of n])
qed

lemma decimal_not_Nil [simp]: "decimal n \<noteq> []"
  by (simp add: decimal.simps [of n])

lemma digit_plain:
  assumes "isdigit c"
  shows "\<not> isspace c" "c \<noteq> newline" "c \<noteq> CHR 0x00" "c \<noteq> CHR ''-''" "c \<noteq> CHR ''+''"
  using assms by (auto simp: isdigit_def isspace_def)

lemma decimal_plain:
  shows "\<not> isspace (hd (decimal n))" "newline \<notin> set (decimal n)" "no_nul (decimal n)"
    "hd (decimal n) \<noteq> CHR ''-''" "hd (decimal n) \<noteq> CHR ''+''"
  using decimal_digits [of _ n] digit_plain hd_in_set [OF decimal_not_Nil, of n] unfolding no_nul_def by blast+

lemma decimal_length: "n < 10 ^ Suc k \<Longrightarrow> length (decimal n) \<le> Suc k"
proof (induction k arbitrary: n)
  case 0
  then show ?case by (simp add: decimal.simps [of n])
next
  case (Suc k)
  then have "n div 10 < 10 ^ Suc k" by (simp add: less_mult_imp_div_less)
  from Suc.IH [OF this] show ?case by (simp add: decimal.simps [of n])
qed

lemma atoi_decimal:
  assumes "n < 2 ^ 31"
  shows "atoi (decimal n) = int n"
proof -
  have 1: "dropWhile isspace (decimal n) = decimal n" using decimal_plain(1) [of n] by (simp add: dropWhile_keep)
  have 2: "takeWhile isdigit (decimal n) = decimal n"
    using decimal_digits [of _ n] by (auto simp: takeWhile_eq_all_conv)
  have "int n < 2 ^ 31" using assms by simp
  then show ?thesis using decimal_plain(4,5) [of n] unfolding atoi_def Let_def 1
    by (simp add: 2 digits_value_decimal mod_pos_pos_trivial)
qed

definition control_line :: "string \<times> nat \<Rightarrow> string \<times> string" where
  "control_line kn = (fst kn, decimal (snd kn))"

definition good_control :: "string \<times> nat \<Rightarrow> bool" where
  "good_control kn \<longleftrightarrow> fst kn \<in> {''interval'', ''piece_length''} \<and> snd kn < 2 ^ 31"

definition control_spec :: "string \<times> nat \<Rightarrow> ttop_control_info \<Rightarrow> ttop_control_info" where
  "control_spec kn c = (if fst kn = ''interval'' then c\<lparr>ci_interval := int (snd kn)\<rparr> else c\<lparr>ci_piece_len := int (snd kn)\<rparr>)"

lemma good_control_line:
  assumes "good_control kn"
  shows "good_line (control_line kn)"
proof -
  have "snd kn < 10 ^ Suc 9" using assms by (simp add: good_control_def)
  from decimal_length [OF this] have len: "length (decimal (snd kn)) < MAX_LINE" by (simp add: MAX_LINE_def)
  from assms consider "fst kn = ''interval''" | "fst kn = ''piece_length''" by (auto simp: good_control_def)
  then show ?thesis using decimal_plain [of "snd kn"] len
    by cases (simp_all add: good_line_def control_line_def isspace_def no_nul_def MAX_NAME_LEN_def)
qed

lemma control_lines: "\<forall>kn \<in> set ks. good_control kn \<Longrightarrow>
   apply_lines set_control (map control_line ks) c = Some (fold control_spec ks c)"
  by (induction ks arbitrary: c)
    (auto simp: good_control_def control_line_def set_control_def control_spec_def atoi_decimal)

lemma good_control_lines: "\<forall>kn \<in> set ks. good_control kn \<Longrightarrow> \<forall>kv \<in> set (map control_line ks). good_line kv"
  by (auto intro: good_control_line)

section \<open>The settings of a peer\<close>

definition good_name :: "string \<Rightarrow> bool" where
  "good_name v \<longleftrightarrow> v \<noteq> [] \<and> \<not> isspace (hd v) \<and> newline \<notin> set v \<and> no_nul v \<and> length v < MAX_NAME_LEN"

text \<open>A target directory in the file, with or without a slash at its end.\<close>

definition target_line :: "string \<times> bool \<Rightarrow> string" where
  "target_line t = fst t @ (if snd t then [slash] else [])"

definition good_target :: "string \<times> bool \<Rightarrow> bool" where
  "good_target t \<longleftrightarrow> fst t \<noteq> [] \<and> (\<forall>c \<in> set (fst t). \<not> isspace c) \<and> no_nul (fst t) \<and> last (fst t) \<noteq> slash \<and>
     Suc (length (fst t)) < MAX_LINE"

lemma slash_plain: "\<not> isspace slash" "slash \<noteq> CHR 0x00"
  by (simp_all add: slash_def isspace_def)

lemma good_target_line:
  assumes "good_target t"
  shows "target_line t \<noteq> []" "\<forall>c \<in> set (target_line t). \<not> isspace c" "no_nul (target_line t)" "length (target_line t) < MAX_LINE"
    "(if last (target_line t) = slash then butlast (target_line t) else target_line t) = fst t"
  using assms slash_plain by (auto simp: good_target_def target_line_def no_nul_def)

lemma scan_words_line:
  assumes "w \<noteq> []" and "\<forall>c \<in> set w. \<not> isspace c"
  shows "scan_words (w @ newline # rest) = w # scan_words rest"
proof -
  have "isspace newline" by (simp add: isspace_def)
  moreover have "dropWhile isspace (w @ newline # rest) = w @ newline # rest" using assms by (cases w) simp_all
  moreover have "scan_words (newline # rest) = scan_words rest"
    using \<open>isspace newline\<close> by (subst (1 2) scan_words.simps) simp
  ultimately show ?thesis using assms takeWhile_stop [of w "\<lambda>c. \<not> isspace c" newline rest]
    by (subst scan_words.simps) (simp add: dropWhile_append2)
qed

lemma scan_targets: "\<forall>t \<in> set ts. good_target t \<Longrightarrow>
   scan_words (concat (map (\<lambda>t. target_line t @ [newline]) ts)) = map target_line ts"
proof (induction ts)
  case Nil
  then show ?case by (simp add: scan_words.simps)
next
  case (Cons t ts)
  then show ?case using scan_words_line good_target_line [of t] by simp
qed

lemma target_loop_words:
  assumes "\<forall>t \<in> set ts. good_target t" and "length (target_dirs conf) + length ts \<le> MAX_TARGET_DIR" and "False \<notin> set al"
  shows "target_loop (map target_line ts) (al, conf) = Inr (0, conf\<lparr>target_dirs := target_dirs conf @ map fst ts,
     target_n := int (length (target_dirs conf) + length ts)\<rparr>)"
  using assms
proof (induction ts arbitrary: al conf)
  case Nil
  then show ?case by simp
next
  case (Cons t ts)
  have "answer al = (True, tl al)" "False \<notin> set (tl al)" using Cons.prems(3) by (cases al; simp)+
  moreover have "store_target (target_line t) (al, conf) = Inr (Some (tl al, conf\<lparr>target_dirs := target_dirs conf @ [fst t]\<rparr>))"
    using Cons.prems(1,2) good_target_line [of t] \<open>answer al = (True, tl al)\<close> by (simp add: store_target_def Let_def)
  ultimately show ?case using Cons by simp
qed

lemma client_lines:
  assumes "good_name h" and "good_name d"
  shows "\<forall>kv \<in> set [(''tracker'', h), (''device'', d)]. good_line kv"
    "apply_lines set_client_conf [(''tracker'', h), (''device'', d)] conf = Some (conf\<lparr>tracker_host := h, device_name := d\<rparr>)"
  using assms by (simp_all add: good_line_def good_name_def set_client_conf_def isspace_def [of "CHR ''t''"] isspace_def [of "CHR ''d''"]
      no_nul_def MAX_NAME_LEN_def MAX_LINE_def)

section \<open>What the configuration guarantees\<close>

text \<open>
  C39. A configuration is read as it was written. A file of the tracker that consists of lines for the interval and the
  length of a piece, each with a number below \<open>2 ^ 31\<close>, in any number and order, is accepted and sets the control
  information line by line, so that the last line for a value counts. A file of a peer with the name of the tracker and
  of the network device, each below 128 characters, and a file with at most 2048 target directories, each on a line of
  its own and with or without a slash at its end, give exactly these names and directories, whatever the buffers held before. A line
  with another command makes the tracker give up, with the lines in front of it in force.
\<close>

theorem configuration_read:
  assumes ks: "\<forall>kn \<in> set ks. good_control kn" and names: "good_name h" "good_name d"
    and ts: "\<forall>t \<in> set ts. good_target t" "length ts \<le> MAX_TARGET_DIR" "False \<notin> set al" "target_dirs conf = []"
    and bad: "good_line (k, v)" "k \<notin> {''interval'', ''piece_length''}" "rest = [] \<or> \<not> isspace (hd rest)"
  shows "parse_conf_file (Some (conf_text (map control_line ks))) cmd arg c = Some (Inr (0, fold control_spec ks c)) \<and>
     parse_conf_files (Some (conf_text [(''tracker'', h), (''device'', d)]))
       (Some (concat (map (\<lambda>t. target_line t @ [newline]) ts))) cmd arg al conf =
       Some (Inr (0, conf\<lparr>tracker_host := h, device_name := d, target_n := int (length ts), target_dirs := map fst ts\<rparr>)) \<and>
     parse_conf_file (Some (conf_text (map control_line ks) @ conf_line (k, v) @ rest)) cmd arg c =
       Some (Inr (-1, fold control_spec ks c))"
proof (intro conjI)
  note lines = good_control_lines [OF ks] control_lines [OF ks]
  show "parse_conf_file (Some (conf_text (map control_line ks))) cmd arg c = Some (Inr (0, fold control_spec ks c))"
    using loop_text [OF lines] by (simp add: parse_conf_file_def)
  show "parse_conf_files (Some (conf_text [(''tracker'', h), (''device'', d)]))
       (Some (concat (map (\<lambda>t. target_line t @ [newline]) ts))) cmd arg al conf =
       Some (Inr (0, conf\<lparr>tracker_host := h, device_name := d, target_n := int (length ts), target_dirs := map fst ts\<rparr>))"
    unfolding parse_conf_files_def option.case loop_text [OF client_lines [OF names]] scan_targets [OF ts(1)]
    using target_loop_words [OF ts(1), of "conf\<lparr>tracker_host := h, device_name := d\<rparr>" al] ts(2-4) by simp
  have "conf_line (k, v) @ rest = [] \<or> \<not> isspace (hd (conf_line (k, v) @ rest))"
    using bad(1) by (simp add: conf_line_def good_line_def)
  from loop_lines [OF lines this]
  show "parse_conf_file (Some (conf_text (map control_line ks) @ conf_line (k, v) @ rest)) cmd arg c =
       Some (Inr (-1, fold control_spec ks c))"
    using bad scan_line [OF bad(1,3)]
    by (simp add: parse_conf_file_def conf_loop.simps [of _ _ _ "conf_line (k, v) @ rest"] set_control_def good_line_def)
qed

theorem configuration_read_witness:
  "parse_conf_file (Some (conf_text [(''interval'', decimal 2000000), (''piece_length'', decimal 131072)])) [] []
       \<lparr>ci_interval = 0, ci_piece_len = 0\<rparr> = Some (Inr (0, \<lparr>ci_interval = 2000000, ci_piece_len = 131072\<rparr>))"
proof -
  have "good_control (''interval'', 2000000)" "good_control (''piece_length'', 131072)" by (simp_all add: good_control_def)
  moreover have "good_name ''a''" "good_target (''/b'', True)" "good_line (''x'', ''y'')"
    by (simp_all add: good_name_def good_target_def good_line_def isspace_def no_nul_def slash_def MAX_NAME_LEN_def MAX_LINE_def)
  ultimately show ?thesis
    using configuration_read [of "[(''interval'', 2000000), (''piece_length'', 131072)]" "''a''" "''a''" "[(''/b'', True)]" "[]"
        "\<lparr>tracker_host = [], device_name = [], target_n = 0, target_dirs = []\<rparr>" "''x''" "''y''" "[]" "[]" "[]"
        "\<lparr>ci_interval = 0, ci_piece_len = 0\<rparr>"]
    by (simp add: control_line_def control_spec_def MAX_TARGET_DIR_def)
qed

text \<open>
  C40. Reading a configuration ends unless a line starts with a colon. If the loop of the tracker or of the peer over its file
  does not return, some line of the file, spaces in front of it left out, starts with a colon. And such a line is enough: behind lines
  that are in order, the function never returns, because \<open>fscanf\<close> then reads nothing, which is not \<open>EOF\<close>.
\<close>

theorem configuration_loop_ends:
  "(parse_conf_file (Some input) cmd arg c = None \<longrightarrow> (\<exists>ys. from_line input (colon # ys))) \<and>
   (parse_conf_files (Some input) targets cmd arg al conf = None \<longrightarrow> (\<exists>ys. from_line input (colon # ys))) \<and>
   (ks \<noteq> [] \<and> (\<forall>kn \<in> set ks. good_control kn) \<longrightarrow>
      parse_conf_file (Some (conf_text (map control_line ks) @ colon # ys)) cmd arg c = None) \<and>
   (good_name h \<and> good_name d \<longrightarrow>
      parse_conf_files (Some (conf_text [(''tracker'', h), (''device'', d)] @ colon # ys)) targets cmd arg al conf = None)"
proof (intro conjI impI)
  show "parse_conf_file (Some input) cmd arg c = None \<Longrightarrow> \<exists>ys. from_line input (colon # ys)"
    by (rule loop_returns) (simp add: parse_conf_file_def)
  show "parse_conf_files (Some input) targets cmd arg al conf = None \<Longrightarrow> \<exists>ys. from_line input (colon # ys)"
    by (rule loop_returns [of set_client_conf cmd arg input conf])
      (auto simp: parse_conf_files_def split: option.splits sum.splits if_splits)
  have col: "colon # ys = [] \<or> \<not> isspace (hd (colon # ys))" by (simp add: isspace_def)
  show "parse_conf_file (Some (conf_text (map control_line ks) @ colon # ys)) cmd arg c = None"
    if ks: "ks \<noteq> [] \<and> (\<forall>kn \<in> set ks. good_control kn)"
  proof -
    have "last ks \<in> set ks" using ks by simp
    with ks have "good_control (last ks)" "good_line (control_line (last ks))" by (auto intro: good_control_line)
    then have "\<exists>s'. set_control (c_string (fst (control_line (last ks)))) (c_string (snd (control_line (last ks)))) s = Inr (Some s')" for s
      by (auto simp: set_control_def good_control_def control_line_def good_line_def)
    from loop_colon [of set_control, OF this] show ?thesis
      using loop_lines [OF good_control_lines control_lines col, of ks cmd arg c] ks by (simp add: parse_conf_file_def last_map)
  qed
  show "parse_conf_files (Some (conf_text [(''tracker'', h), (''device'', d)] @ colon # ys)) targets cmd arg al conf = None"
    if names: "good_name h \<and> good_name d"
  proof -
    have "\<exists>s'. set_client_conf (c_string ''device'') (c_string d) s = Inr (Some s')" for s
      using names by (simp add: good_name_def set_client_conf_def no_nul_def)
    from loop_colon [of set_client_conf, OF this] show ?thesis
      using loop_lines [OF client_lines col, of h d cmd arg conf] names by (simp add: parse_conf_files_def)
  qed
qed

theorem configuration_loop_ends_witness:
  "parse_conf_file (Some (conf_text [(''interval'', decimal 5)] @ '': 3'')) [] [] \<lparr>ci_interval = 0, ci_piece_len = 0\<rparr> = None"
proof -
  have "good_control (''interval'', 5)" by (simp add: good_control_def)
  then show ?thesis
    using configuration_loop_ends [of "[]" "[]" "[]" "\<lparr>ci_interval = 0, ci_piece_len = 0\<rparr>" None "[]"
        "\<lparr>tracker_host = [], device_name = [], target_n = 0, target_dirs = []\<rparr>" "[(''interval'', 5)]" "'' 3''" "[]" "[]"]
    by (simp add: control_line_def)
qed

section \<open>The mode\<close>

text \<open>Without a request for help and without an option that is not known, the last valid argument of \<open>-m\<close> decides.\<close>

definition mode_of :: "char \<times> string \<Rightarrow> start_mode list" where
  "mode_of a = (if fst a = CHR ''m'' \<and> snd a = ''server'' then [SERVER]
     else if fst a = CHR ''m'' \<and> snd a = ''client'' then [CLIENT] else [])"

lemma main_options_step:
  assumes "fst a \<in> {CHR 0x00, CHR ''d'', CHR ''m''}"
  shows "main_options (a # as) (debug, mode) = main_options as (debug \<or> fst a = CHR ''d'', last (mode # mode_of a))"
proof -
  obtain c m where a: "a = (c, m)" by fastforce
  from assms consider "c = CHR 0x00" | "c = CHR ''d''" | "c = CHR ''m''" unfolding a by auto
  then show ?thesis
  proof cases
    case 3
    show ?thesis unfolding a 3 by (cases "m = ''server''"; cases "m = ''client''") (simp_all add: mode_of_def)
  qed (simp_all add: a mode_of_def)
qed

lemma main_options_run:
  assumes "\<forall>a \<in> set as. fst a \<in> {CHR 0x00, CHR ''d'', CHR ''m''}"
  shows "main_options as (debug, mode) = Inr (debug \<or> CHR ''d'' \<in> fst ` set as, last (mode # concat (map mode_of as)))"
  using assms
proof (induction as arbitrary: debug mode)
  case Nil
  then show ?case by simp
next
  case (Cons a as)
  have last: "last (last (mode # xs) # ys) = last (mode # xs @ ys)" for xs ys :: "start_mode list" by simp
  have a: "fst a \<in> {CHR 0x00, CHR ''d'', CHR ''m''}" and as: "\<forall>a \<in> set as. fst a \<in> {CHR 0x00, CHR ''d'', CHR ''m''}"
    using Cons.prems by simp_all
  show ?case unfolding main_options_step [OF a] Cons.IH [OF as] last by (auto simp del: last.simps)
qed

lemma main_last_mode:
  assumes "\<forall>a \<in> set as. fst a \<in> {CHR 0x00, CHR ''d'', CHR ''m''}"
  shows "main as = (case rev (concat (map mode_of as)) of [] \<Rightarrow> Exit 1 | m # _ \<Rightarrow> Start m)"
proof -
  have modes: "m \<in> {CLIENT, SERVER}" if "m \<in> set (concat (map mode_of as))" for m
    using that by (auto simp: mode_of_def split: if_splits)
  show ?thesis
  proof (cases "concat (map mode_of as)" rule: rev_cases)
    case Nil
    show ?thesis unfolding main_def main_options_run [OF assms] Nil by simp
  next
    case (snoc ms m)
    then have "m \<in> {CLIENT, SERVER}" using modes [of m] by simp
    then show ?thesis unfolding main_def main_options_run [OF assms] snoc by auto
  qed
qed

end
