(* ===== verification/Startup.thy ===== *)
theory Startup
  imports Client Config
begin

text \<open>
  The start of a peer: the handshake of \<open>utility/pthread_wait.c\<close>, by which \<open>client_start\<close> waits for the thread
  of the file monitor, as a step relation on the two threads, and the sequence of \<open>client_start\<close> around it. The handshake
  is a bare condition variable: the lemmas say what each thread can have seen, and that the wake-up can
  be lost.
\<close>

section \<open>Waiting for a thread\<close>

datatype thread_status = THREAD_FAILED | THREAD_RUNNING | THREAD_TERMINATED

text \<open>\<open>wt_waiting\<close> holds while a thread sleeps on the condition variable.\<close>

record pthread_wait =
  wt_status :: thread_status
  wt_waiting :: bool

definition pthread_wait_init :: "pthread_wait \<Rightarrow> pthread_wait" where
  "pthread_wait_init w = w\<lparr>wt_status := THREAD_FAILED, wt_waiting := False\<rparr>"

definition pthread_wait_for :: "pthread_wait \<Rightarrow> pthread_wait" where
  "pthread_wait_for w = w\<lparr>wt_waiting := True\<rparr>"

text \<open>A signal wakes the thread that waits, and is without effect when none does.\<close>

definition pthread_wait_notify :: "thread_status \<Rightarrow> pthread_wait \<Rightarrow> pthread_wait" where
  "pthread_wait_notify status w = w\<lparr>wt_status := status, wt_waiting := False\<rparr>"

section \<open>The handshake\<close>

text \<open>Where \<open>client_start\<close> is once the thread of the monitor is created: in front of \<open>pthread_wait_init\<close>,
  in front of \<open>pthread_wait_for\<close>, in it, and behind the test of the status.\<close>

datatype main_pc = Main_Init | Main_Wait | Main_Blocked | Main_Sync | Main_Return

record startup =
  su_main :: main_pc
  su_notified :: bool
  su_wait :: pthread_wait

text \<open>The memory of the struct is zero in the beginning, which is \<open>THREAD_FAILED\<close>.\<close>

definition startup_begin :: startup where
  "startup_begin = \<lparr>su_main = Main_Init, su_notified = False, su_wait = \<lparr>wt_status = THREAD_FAILED, wt_waiting = False\<rparr>\<rparr>"

definition after_wait :: "thread_status \<Rightarrow> main_pc" where
  "after_wait status = (if status = THREAD_FAILED then Main_Return else Main_Sync)"

text \<open>The steps of the two threads; \<open>status\<close> is what the monitor reports, \<open>spurious\<close> allows the condition
  variable to wake its waiter without a signal, which POSIX does.\<close>

inductive start_step :: "bool \<Rightarrow> thread_status \<Rightarrow> startup \<Rightarrow> startup \<Rightarrow> bool" for spurious status where
  ss_init: "su_main s = Main_Init \<Longrightarrow>
     start_step spurious status s (s\<lparr>su_main := Main_Wait, su_wait := pthread_wait_init (su_wait s)\<rparr>)"
| ss_wait: "su_main s = Main_Wait \<Longrightarrow>
     start_step spurious status s (s\<lparr>su_main := Main_Blocked, su_wait := pthread_wait_for (su_wait s)\<rparr>)"
| ss_wake: "su_main s = Main_Blocked \<Longrightarrow> \<not> wt_waiting (su_wait s) \<Longrightarrow>
     start_step spurious status s (s\<lparr>su_main := after_wait (wt_status (su_wait s))\<rparr>)"
| ss_notify: "\<not> su_notified s \<Longrightarrow>
     start_step spurious status s (s\<lparr>su_notified := True, su_wait := pthread_wait_notify status (su_wait s)\<rparr>)"
| ss_spurious: "spurious \<Longrightarrow> su_main s = Main_Blocked \<Longrightarrow>
     start_step spurious status s (s\<lparr>su_wait := (su_wait s)\<lparr>wt_waiting := False\<rparr>\<rparr>)"

inductive_cases start_stepE: "start_step spurious status s s'"

abbreviation start_reach :: "bool \<Rightarrow> thread_status \<Rightarrow> startup \<Rightarrow> bool" where
  "start_reach spurious status s \<equiv> (start_step spurious status)\<^sup>*\<^sup>* startup_begin s"

definition stuck :: "bool \<Rightarrow> thread_status \<Rightarrow> startup \<Rightarrow> bool" where
  "stuck spurious status s \<longleftrightarrow> (\<forall>s'. \<not> start_step spurious status s s')"

section \<open>The start of a peer\<close>

datatype start_result = Start_Returned | Start_Waiting | Start_Running

text \<open>
  \<open>client_start\<close> behind the connection to the tracker: \<open>seen\<close> is the status found after the handshake, none while the peer
  still waits; the local packets and the input are those of the registration and of the synchronisation. The threads that are
  created last have not run yet.
\<close>

definition client_run ::
    "kernel \<Rightarrow> target list \<Rightarrow> bool list \<Rightarrow> thread_status option \<Rightarrow> ttop_packet \<Rightarrow> ttop_packet \<Rightarrow> u8 list \<Rightarrow> client \<Rightarrow>
     (start_result \<times> u8 list \<times> client) res" where
  "client_run K ts al seen stack stack' input cl =
     ebind (register_to_tracker stack input cl) (\<lambda>(r, input, cl).
       if r < 0 then Inr (Start_Returned, input, cl)
       else ebind (monitor_init K ts al) (\<lambda>(_, mt).
         let cl = cl\<lparr>cl_mt := mt\<rparr> in
         case seen of
           None \<Rightarrow> Inr (Start_Waiting, input, cl)
         | Some status \<Rightarrow>
             if status = THREAD_FAILED then Inr (Start_Returned, input, cl)
             else ebind (sync_files stack' ts input cl) (\<lambda>(r, input, cl).
               Inr (if r < 0 then Start_Returned else Start_Running, input, cl))))"

text \<open>
  What the peer finds around it: its two files, what the buffers on the stack hold, the address of a network device, the address of
  a host unless its name is not known, whether a connection to the tracker at an address succeeds, and the directories.
\<close>

record start_env =
  env_conf_file :: "string option"
  env_target_file :: "string option"
  env_cmd :: string
  env_arg :: string
  env_device :: "string \<Rightarrow> u32"
  env_host :: "string \<Rightarrow> u32 option"
  env_connect :: "u32 \<Rightarrow> bool"
  env_dir :: "string \<Rightarrow> bool \<times> dirent list"

text \<open>The name of the device is copied with \<open>strncpy\<close> of \<open>IFNAMSIZ - 1\<close> characters.\<close>

definition get_my_ip :: "start_env \<Rightarrow> string \<Rightarrow> client \<Rightarrow> client" where
  "get_my_ip E if_name cl = cl\<lparr>cl_ip := env_device E (take 15 if_name)\<rparr>"

text \<open>\<open>gethostbyname\<close> gives a null pointer for a name that is not known.\<close>

definition get_server_ip :: "start_env \<Rightarrow> string \<Rightarrow> u32 res" where
  "get_server_ip E host_name = (case env_host E host_name of None \<Rightarrow> Inl Bad_Pointer | Some i \<Rightarrow> Inr i)"

definition client_targets :: "start_env \<Rightarrow> client_conf_info \<Rightarrow> target list" where
  "client_targets E conf = map (\<lambda>d. (d, env_dir E d)) (target_dirs conf)"

definition client_start ::
    "start_env \<Rightarrow> bool list \<Rightarrow> kernel \<Rightarrow> bool list \<Rightarrow> thread_status option \<Rightarrow> ttop_packet \<Rightarrow> ttop_packet \<Rightarrow> u8 list \<Rightarrow> client \<Rightarrow>
     (start_result \<times> u8 list \<times> client) res option" where
  "client_start E al K al' seen stack stack' input cl =
     (case parse_conf_files (env_conf_file E) (env_target_file E) (env_cmd E) (env_arg E) al
             \<lparr>tracker_host = [], device_name = [], target_n = 0, target_dirs = []\<rparr> of
        None \<Rightarrow> None
      | Some (Inl e) \<Rightarrow> Some (Inl e)
      | Some (Inr (r, conf)) \<Rightarrow>
          Some (if r \<noteq> 0 then Inr (Start_Returned, input, cl)
                else let cl = get_my_ip E (device_name conf) cl
                     in ebind (get_server_ip E (tracker_host conf)) (\<lambda>serv_ip.
                          if \<not> env_connect E serv_ip then Inr (Start_Returned, input, cl)
                          else client_run K (client_targets E conf) al' seen stack stack' input cl)))"

section \<open>What the handshake guarantees\<close>

lemma start_invariant:
  assumes "start_reach spurious status s"
  shows "(su_main s = Main_Sync \<longrightarrow> su_notified s \<and> status \<noteq> THREAD_FAILED) \<and>
     (su_main s = Main_Return \<and> \<not> spurious \<longrightarrow> su_notified s \<and> status = THREAD_FAILED) \<and>
     (wt_waiting (su_wait s) \<longrightarrow> su_main s = Main_Blocked) \<and>
     (su_main s = Main_Blocked \<and> \<not> wt_waiting (su_wait s) \<and> \<not> spurious \<longrightarrow> su_notified s \<and> wt_status (su_wait s) = status) \<and>
     (wt_status (su_wait s) \<noteq> THREAD_FAILED \<longrightarrow> su_notified s \<and> wt_status (su_wait s) = status)"
  using assms
proof (induction rule: rtranclp_induct)
  case base
  then show ?case by (simp add: startup_begin_def)
next
  case (step s s')
  from step.hyps(2) step.IH show ?case
    by (cases rule: start_step.cases)
      (auto simp: pthread_wait_init_def pthread_wait_for_def pthread_wait_notify_def after_wait_def split: if_splits)
qed

lemma start_steps: "start_reach spurious status s \<Longrightarrow> start_step spurious status s s' \<Longrightarrow> start_reach spurious status s'"
  by (rule rtranclp.rtrancl_into_rtrancl)

text \<open>The monitor reports before \<open>client_start\<close> waits.\<close>

definition lost :: "thread_status \<Rightarrow> startup" where
  "lost status = \<lparr>su_main = Main_Blocked, su_notified = True, su_wait = \<lparr>wt_status = status, wt_waiting = True\<rparr>\<rparr>"

lemma lost_reached: "start_reach False status (lost status)"
proof -
  let ?s1 = "\<lparr>su_main = Main_Wait, su_notified = False, su_wait = \<lparr>wt_status = THREAD_FAILED, wt_waiting = False\<rparr>\<rparr>"
  let ?s2 = "\<lparr>su_main = Main_Wait, su_notified = True, su_wait = \<lparr>wt_status = status, wt_waiting = False\<rparr>\<rparr>"
  have "start_step False status startup_begin ?s1"
    using ss_init [of startup_begin False status] by (simp add: startup_begin_def pthread_wait_init_def)
  moreover have "start_step False status ?s1 ?s2"
    using ss_notify [of ?s1 False status] by (simp add: pthread_wait_notify_def)
  moreover have "start_step False status ?s2 (lost status)"
    using ss_wait [of ?s2 False status] by (simp add: pthread_wait_for_def lost_def)
  ultimately show ?thesis by (meson rtranclp.rtrancl_into_rtrancl rtranclp.rtrancl_refl)
qed

lemma stuck_cases:
  assumes "stuck False status s" and "su_main s \<noteq> Main_Sync" and "su_main s \<noteq> Main_Return"
  shows "su_main s = Main_Blocked \<and> wt_waiting (su_wait s) \<and> su_notified s"
  using assms ss_init [of s False status] ss_wait [of s False status] ss_wake [of s False status] ss_notify [of s False status]
  unfolding stuck_def by (cases "su_main s") auto

lemma lost_stuck: "stuck False status (lost status)"
  by (auto simp: stuck_def lost_def elim!: start_stepE)

lemma spurious_return: "start_reach True THREAD_RUNNING \<lparr>su_main = Main_Return, su_notified = False,
     su_wait = \<lparr>wt_status = THREAD_FAILED, wt_waiting = False\<rparr>\<rparr>"
proof -
  let ?w = "\<lparr>wt_status = THREAD_FAILED, wt_waiting = False\<rparr>"
  let ?s1 = "\<lparr>su_main = Main_Wait, su_notified = False, su_wait = ?w\<rparr>"
  let ?s2 = "\<lparr>su_main = Main_Blocked, su_notified = False, su_wait = ?w\<lparr>wt_waiting := True\<rparr>\<rparr>"
  let ?s3 = "\<lparr>su_main = Main_Blocked, su_notified = False, su_wait = ?w\<rparr>"
  have "start_step True THREAD_RUNNING startup_begin ?s1"
    using ss_init [of startup_begin True THREAD_RUNNING] by (simp add: startup_begin_def pthread_wait_init_def)
  moreover have "start_step True THREAD_RUNNING ?s1 ?s2"
    using ss_wait [of ?s1 True THREAD_RUNNING] by (simp add: pthread_wait_for_def)
  moreover have "start_step True THREAD_RUNNING ?s2 ?s3"
    using ss_spurious [of True ?s2 THREAD_RUNNING] by simp
  moreover have "start_step True THREAD_RUNNING ?s3 (?s3\<lparr>su_main := Main_Return\<rparr>)"
    using ss_wake [of ?s3 True THREAD_RUNNING] by (simp add: after_wait_def)
  ultimately have "start_reach True THREAD_RUNNING (?s3\<lparr>su_main := Main_Return\<rparr>)"
    by (meson rtranclp.rtrancl_into_rtrancl rtranclp.rtrancl_refl)
  then show ?thesis by simp
qed

text \<open>
  C31. The handshake at start-up reports the truth, or nothing. Without spurious wake-ups, when
  \<open>client_start\<close> gets past the wait, it goes on to the synchronisation exactly when the monitor has reported that it
  runs, and gives up exactly when it has reported its failure. When neither thread can move any more,
  \<open>client_start\<close> is past the wait or sleeps for ever, and the latter does happen, with every status: a report
  that comes before the wait is lost. With the spurious wake-ups POSIX allows, \<open>client_start\<close> can also give
  up although the monitor runs.
\<close>

theorem startup_handshake:
  "(\<forall>s. start_reach False status s \<longrightarrow>
      (su_main s = Main_Sync \<longrightarrow> status \<noteq> THREAD_FAILED \<and> su_notified s) \<and>
      (su_main s = Main_Return \<longrightarrow> status = THREAD_FAILED \<and> su_notified s) \<and>
      (stuck False status s \<longrightarrow> su_main s \<in> {Main_Sync, Main_Return} \<or> su_main s = Main_Blocked \<and> su_notified s)) \<and>
   (\<exists>s. start_reach False status s \<and> stuck False status s \<and> su_main s = Main_Blocked) \<and>
   (\<exists>s. start_reach True THREAD_RUNNING s \<and> su_main s = Main_Return)"
proof (intro conjI allI impI)
  fix s assume s: "start_reach False status s"
  note inv = start_invariant [OF s]
  show "su_main s = Main_Sync \<Longrightarrow> status \<noteq> THREAD_FAILED" "su_main s = Main_Sync \<Longrightarrow> su_notified s"
    "su_main s = Main_Return \<Longrightarrow> status = THREAD_FAILED" "su_main s = Main_Return \<Longrightarrow> su_notified s"
    using inv by simp_all
  show "stuck False status s \<Longrightarrow> su_main s \<in> {Main_Sync, Main_Return} \<or> su_main s = Main_Blocked \<and> su_notified s"
    using stuck_cases [of status s] by blast
next
  show "\<exists>s. start_reach False status s \<and> stuck False status s \<and> su_main s = Main_Blocked"
    using lost_reached lost_stuck by (intro exI [of _ "lost status"]) (simp add: lost_def)
  show "\<exists>s. start_reach True THREAD_RUNNING s \<and> su_main s = Main_Return"
    by (rule exI, rule conjI, rule spurious_return, simp)
qed


theorem startup_handshake_witness:
  "stuck False THREAD_RUNNING (lost THREAD_RUNNING) \<and> su_main (lost THREAD_RUNNING) = Main_Blocked \<and> su_notified (lost THREAD_RUNNING)"
  using startup_handshake [of THREAD_RUNNING] lost_reached [of THREAD_RUNNING] lost_stuck [of THREAD_RUNNING]
  by (auto simp: lost_def)

end
