(* ===== verification/Sockets.thy ===== *)
theory Sockets
  imports Startup Upload
begin

text \<open>
  The functions that open connections (\<open>client/packet.c\<close>, \<open>server/packet.c\<close>, \<open>client/download.c\<close>, \<open>client/start.c\<close>), the loop that
  accepts the connections of other peers, and the thread of the file monitor from its start to its end. The answers of the system calls are
  arguments. The lemmas say which descriptors are open afterwards: every function returns -1 with its socket still open when a call
  behind \<open>socket\<close> fails.
\<close>

section \<open>Descriptors\<close>

text \<open>The open descriptors of the process, the port a descriptor listens on and the address it is connected to.\<close>

record net =
  nt_open :: "int set"
  nt_port :: "int \<rightharpoonup> u16"
  nt_peer :: "int \<rightharpoonup> u32 \<times> u16"

text \<open>What the calls answer: the descriptor \<open>socket\<close> gives, negative when it fails, and whether the later calls succeed.\<close>

record net_answers =
  an_socket :: int
  an_setsockopt :: bool
  an_bind :: bool
  an_connect :: bool

definition MAX_CONNECTIONS :: nat where
  "MAX_CONNECTIONS = 1024"

definition TRACKER_RECEIVER_PORT :: u16 where
  "TRACKER_RECEIVER_PORT = 4092"

definition open_fd :: "int \<Rightarrow> net \<Rightarrow> net" where
  "open_fd fd n = n\<lparr>nt_open := insert fd (nt_open n)\<rparr>"

text \<open>The result of \<open>listen\<close> is not looked at.\<close>

definition client_tcp_listen :: "net_answers \<Rightarrow> u16 \<Rightarrow> net \<Rightarrow> int \<times> net" where
  "client_tcp_listen a port n =
     (let listenfd = an_socket a in
      if listenfd < 0 then (-1, n)
      else let n = open_fd listenfd n in
           if \<not> an_setsockopt a then (-1, n)
           else if \<not> an_bind a then (-1, n)
           else (listenfd, n\<lparr>nt_port := (nt_port n)(listenfd \<mapsto> port)\<rparr>))"

definition server_tcp_listen :: "net_answers \<Rightarrow> u16 \<Rightarrow> net \<Rightarrow> int \<times> net" where
  "server_tcp_listen a port n =
     (let listenfd = an_socket a in
      if listenfd < 0 then (-1, n)
      else let n = open_fd listenfd n in
           if \<not> an_setsockopt a then (-1, n)
           else if \<not> an_bind a then (-1, n)
           else (listenfd, n\<lparr>nt_port := (nt_port n)(listenfd \<mapsto> port)\<rparr>))"

definition connect_to_peer :: "net_answers \<Rightarrow> u32 \<Rightarrow> u16 \<Rightarrow> net \<Rightarrow> int \<times> net" where
  "connect_to_peer a i port n =
     (let fd = an_socket a in
      if fd < 0 then (-1, n)
      else let n = open_fd fd n in
           if \<not> an_connect a then (-1, n)
           else (fd, n\<lparr>nt_peer := (nt_peer n)(fd \<mapsto> (i, port))\<rparr>))"

definition connect_tracker :: "net_answers \<Rightarrow> u32 \<Rightarrow> net \<Rightarrow> int \<times> net" where
  "connect_tracker a serv_ip n =
     (let fd = an_socket a in
      if fd < 0 then (-1, n)
      else let n = open_fd fd n in
           if \<not> an_connect a then (-1, n)
           else (fd, n\<lparr>nt_peer := (nt_peer n)(fd \<mapsto> (serv_ip, TRACKER_RECEIVER_PORT))\<rparr>))"

text \<open>
  \<open>ptop_listening_task\<close> on the answers of \<open>accept\<close>: a thread is created for every connection; a failure is passed over. The
  connections are what the threads are started with.
\<close>

fun accept_peers :: "int list \<Rightarrow> int list \<Rightarrow> net \<Rightarrow> int list \<times> net" where
  "accept_peers [] conns n = (conns, n)"
| "accept_peers (ptop_conn # as) conns n =
     (if ptop_conn < 0 then accept_peers as conns n
      else accept_peers as (conns @ [ptop_conn]) (open_fd ptop_conn n))"

definition ptop_listening_task :: "net_answers \<Rightarrow> int list \<Rightarrow> net \<Rightarrow> int list \<times> net" where
  "ptop_listening_task a as n =
     (let (listenfd, n) = client_tcp_listen a P2P_PORT n
      in if listenfd < 0 then ([], n) else accept_peers as [] n)"

section \<open>The thread of the monitor\<close>

text \<open>
  \<open>file_monitor_task\<close> with the descriptor \<open>inotify_init\<close> gives and the batches of events to come, each with what \<open>stat\<close> finds at its time: the
  status that is reported to \<open>client_start\<close>, none when there is no report, and what the thread leaves behind.
\<close>

definition file_monitor_task ::
    "u32 \<Rightarrow> kernel \<Rightarrow> target list \<Rightarrow> bool list \<Rightarrow> int \<Rightarrow> ((string \<Rightarrow> u64 option) \<times> inotify_event list) list \<Rightarrow>
     file_table \<times> sock \<Rightarrow> (thread_status option \<times> monitor_table \<times> file_table \<times> sock) res" where
  "file_monitor_task my_ip K ts al fd batches = (\<lambda>(ft, s).
     if fd < 0 then Inr (None, mt_start\<lparr>mt_callocs := al\<rparr>, ft, s)
     else ebind (monitor_init K ts al) (\<lambda>(running, mt).
       if \<not> running then Inr (Some THREAD_FAILED, mt, ft, s)
       else ebind (efold (\<lambda>(st, evs). monitor_batch my_ip K st evs) batches (mt, ft, s)) (\<lambda>x.
         Inr (Some THREAD_RUNNING, x))))"

text \<open>When the thread is cancelled.\<close>

definition file_monitor_cleanup :: "monitor_table \<Rightarrow> monitor_table res" where
  "file_monitor_cleanup mt = unwatch_and_free_targets mt"

section \<open>What is open afterwards\<close>

text \<open>The two copies of the function do the same.\<close>

lemma tcp_listen_copies: "server_tcp_listen a port n = client_tcp_listen a port n"
  by (simp add: server_tcp_listen_def client_tcp_listen_def)

text \<open>A descriptor is returned exactly when all calls succeed, and it is the one that listens; in every other case but the failure of
  \<open>socket\<close> itself the descriptor stays open without anybody knowing it.\<close>

lemma tcp_listen_result:
  assumes "client_tcp_listen a port n = (fd, n')"
  shows "0 \<le> fd \<longleftrightarrow> 0 \<le> an_socket a \<and> an_setsockopt a \<and> an_bind a"
    and "0 \<le> fd \<Longrightarrow> fd = an_socket a \<and> nt_port n' fd = Some port \<and> fd \<in> nt_open n'"
    and "nt_open n' = (if 0 \<le> an_socket a then insert (an_socket a) (nt_open n) else nt_open n)"
  using assms by (auto simp: client_tcp_listen_def open_fd_def Let_def split: if_splits)

lemma connect_result:
  assumes "connect_to_peer a i port n = (fd, n')"
  shows "0 \<le> fd \<longleftrightarrow> 0 \<le> an_socket a \<and> an_connect a"
    and "0 \<le> fd \<Longrightarrow> fd = an_socket a \<and> nt_peer n' fd = Some (i, port) \<and> fd \<in> nt_open n'"
    and "nt_open n' = (if 0 \<le> an_socket a then insert (an_socket a) (nt_open n) else nt_open n)"
  using assms by (auto simp: connect_to_peer_def open_fd_def Let_def split: if_splits)

lemma connect_tracker_peer: "connect_tracker a i n = connect_to_peer a i TRACKER_RECEIVER_PORT n"
  by (simp add: connect_tracker_def connect_to_peer_def)

text \<open>Attempts that fail use up descriptors: after attempts on different new sockets as many more are open as attempts were made.\<close>

fun attempts :: "(net_answers \<Rightarrow> net \<Rightarrow> int \<times> net) \<Rightarrow> net_answers list \<Rightarrow> net \<Rightarrow> net" where
  "attempts f [] n = n"
| "attempts f (a # as) n = attempts f as (snd (f a n))"

lemma failed_attempts_leak:
  assumes "\<And>a n. 0 \<le> an_socket a \<Longrightarrow> nt_open (snd (f a n)) = insert (an_socket a) (nt_open n)"
    and "\<forall>a \<in> set as. 0 \<le> an_socket a" and "distinct (map an_socket as)" and "finite (nt_open n)"
    and "an_socket ` set as \<inter> nt_open n = {}"
  shows "card (nt_open (attempts f as n)) = card (nt_open n) + length as"
  using assms(2-5)
proof (induction as arbitrary: n)
  case (Cons a as)
  have "nt_open (snd (f a n)) = insert (an_socket a) (nt_open n)" using assms(1) Cons.prems(1) by simp
  moreover have "an_socket a \<notin> an_socket ` set as" using Cons.prems(2) by auto
  ultimately show ?case using Cons.IH [of "snd (f a n)"] Cons.prems by auto
qed simp

lemma failed_listens_leak:
  assumes "\<forall>a \<in> set as. 0 \<le> an_socket a \<and> \<not> an_bind a" and "distinct (map an_socket as)" and "finite (nt_open n)"
    and "an_socket ` set as \<inter> nt_open n = {}"
  shows "\<forall>a \<in> set as. fst (client_tcp_listen a port n) = -1"
    and "card (nt_open (attempts (\<lambda>a. client_tcp_listen a port) as n)) = card (nt_open n) + length as"
proof -
  show "\<forall>a \<in> set as. fst (client_tcp_listen a port n) = -1"
    using assms(1) by (auto simp: client_tcp_listen_def Let_def)
  show "card (nt_open (attempts (\<lambda>a. client_tcp_listen a port) as n)) = card (nt_open n) + length as"
    by (rule failed_attempts_leak) (use assms in \<open>auto simp: client_tcp_listen_def open_fd_def Let_def\<close>)
qed

text \<open>Every connection that is accepted gets its thread, in order.\<close>

lemma accept_peers_conns: "fst (accept_peers as conns n) = conns @ filter (\<lambda>c. 0 \<le> c) as"
  by (induction as arbitrary: conns n) auto

lemma ptop_listening_conns:
  "fst (ptop_listening_task a as n) = (if 0 \<le> an_socket a \<and> an_setsockopt a \<and> an_bind a then filter (\<lambda>c. 0 \<le> c) as else [])"
  by (auto simp: ptop_listening_task_def client_tcp_listen_def Let_def accept_peers_conns)

text \<open>The monitor reports nothing exactly when \<open>inotify_init\<close> fails; then the start of the peer waits for a signal that does not come.\<close>

lemma monitor_silent: "file_monitor_task my_ip K ts al fd batches x = Inr (st, y) \<Longrightarrow> st = None \<longleftrightarrow> fd < 0"
  by (auto simp: file_monitor_task_def ebind_eq_Inr split: prod.splits if_splits)

end
