(* ===== verification/Spec2Isabelle.thy ===== *)
theory Spec2Isabelle
  imports SyncAgreement MonitorWalk MonitorNames Exchange Sockets
begin

text \<open>
  TeleSync keeps directories in step on several machines. One machine runs the \<^emph>\<open>tracker\<close> (\<open>server/\<close>), the
  others run \<^emph>\<open>peers\<close> (\<open>client/\<close>); \<open>dartsync.c\<close> starts one or the other. The tracker holds the table of all files
  with their timestamps and owners. A peer watches its target directories with \<open>inotify\<close>, reports changes to the tracker,
  is told the changes of the others, and fetches new contents in pieces from the owners. This library models the C sources at the
  level of their functions and shows what the parts promise and how the parts together keep the tables of the peers equal to the table of
  the tracker.

  \<^bold>\<open>Conventions\<close> (theory \<open>Prelude\<close>). A C function is a HOL function on the state it changes. Undefined
  behaviour (an access out of bounds, a null or dangling pointer, a division by zero, an overflow of \<open>int\<close> where it can happen) is the left side of the result type
  \<open>'a res\<close>, so that a result \<open>Inr\<close> says that the memory is not corrupted. Objects whose address matters
  live in an explicit \<open>heap\<close>; addresses are not used again. Integers of fixed width are words on an LP64 little-endian machine.
  What the system answers is an argument: the outcomes of \<open>calloc\<close> and \<open>send\<close> are lists that statements quantify over, and likewise the
  results of \<open>read\<close>, \<open>write\<close>, \<open>stat\<close>, \<open>inotify_add_watch\<close> (the function \<open>K\<close>), \<open>opendir\<close>, \<open>socket\<close>, \<open>accept\<close> and
  \<open>getopt_long\<close>, and what the shell makes of the files for a command of \<open>system\<close>. The contract \<open>data_refinement\<close> of the prelude (one operation simulates an operation on an abstract value, hence so does
  every run) is interpreted for the lists, the hash table, the file table, the peer table, the tracker and the peer.

  \<^bold>\<open>Theories and sources\<close>
    \<^item> \<open>LinkedList\<close>: \<open>include/list.h\<close>, \<open>utility/list.c\<close>; the pointers of circular lists stand for sequences.
    \<^item> \<open>HashTable\<close>: \<open>include/hash.h\<close>; hash functions at their widths, bucket chains stand for lists of nodes.
    \<^item> \<open>FileTable\<close>, \<open>FileMap\<close>: \<open>file_table.c\<close>, \<open>include/file_table.h\<close>, \<open>include/trans_file_table.h\<close>; the file table stands for a finite map
      from names to entries; owners, reports, snapshots and allocations that fail.
    \<^item> \<open>Segment\<close>, \<open>Wire\<close>: \<open>utility/segment.c\<close>, \<open>client/packet.c\<close>, \<open>server/packet.c\<close>, \<open>include/packet_def.h\<close>; framing, the bytes of all packets, what
      arrives of what was sent.
    \<^item> \<open>PeerTable\<close>, \<open>Tracker\<close>, \<open>TrackerProps\<close>: \<open>server/peer_table.c\<close>, \<open>server/start.c\<close>; every thread body is a function on the state of the
      tracker, \<open>tr_exec\<close> runs one event; the runs that corrupt the memory (a peer entry is freed between its look-up and its use) and that no other does, the effect of reports, synchronisation, lost
      connections and the watchdog.
    \<^item> \<open>Download\<close>, \<open>DownloadProps\<close>: \<open>client/download.c\<close>; \<open>piece_download_task\<close> is a step of one thread between two critical sections,
      \<open>do_download\<close> the whole function; pieces are exclusive, complete downloads deliver the file.
    \<^item> \<open>Monitor\<close>, \<open>MonitorProps\<close>, \<open>MonitorNames\<close>, \<open>MonitorWalk\<close>, \<open>MonitorEvents\<close>: \<open>client/file_monitor.c\<close>; translation of names, in all runs and for
      all answers of \<open>inotify_add_watch\<close>, the two walks over the directories, blocking a directory, the report of a batch of events. Where more than the names is
      shown, the kernel is assumed to keep the descriptors of watched directories (\<open>kernel_fits\<close>).
    \<^item> \<open>Client\<close>, \<open>ClientProps\<close>, \<open>Upload\<close>: \<open>client/start.c\<close>; registration, broadcasts, deletions, downloads and uploads.
    \<^item> \<open>Agreement\<close>, \<open>SyncAgreement\<close>, \<open>Exchange\<close>: no code of their own; the lemmas on the tables of tracker and peer after a report and after a
      synchronisation, and the composition of the uploads of the owners with the download of a peer.
    \<^item> \<open>Sockets\<close>: the functions that open, connect and accept sockets, the task that listens for peers, and the thread of the file monitor with its
      clean-up.
    \<^item> \<open>Config\<close>, \<open>Startup\<close>: \<open>parse_conf_file\<close>, \<open>parse_conf_files\<close>, \<open>server_start\<close>, \<open>dartsync.c\<close>, \<open>client_start\<close>, \<open>utility/pthread_wait.c\<close>; the configuration,
      whose loop need not end (its value is then \<open>None\<close>), and the handshake of two threads as a step relation.

  \<^bold>\<open>What the parts show together.\<close> The statements below and the last one of \<open>Exchange\<close> follow data between machines, over the bytes that are sent. The
  synchronisation at start-up puts the table of a peer and the table of the tracker in agreement; the report of a change by another peer keeps them so;
  and the contents of a file come from the disks of its owners to the disk of the peer unchanged.

  \<^bold>\<open>Bounds.\<close> The sources bound nothing; the statements name the limits that keep them safe: 4096 files in a table, 16 owners of a file,
  240 entries in a packet, names of less than 128 characters, 128 watch descriptors, 1000 ports, files whose length and the length of a piece add up to less than \<open>2 ^ 31\<close> bytes. What happens
  behind these limits is shown where it is an error of the program (\<open>table_packet_limit\<close>, \<open>snapshot_roundtrip\<close>, \<open>failed_events_accumulate\<close>,
  \<open>deletion_hazards\<close>). No definition needs fuel: the loops are structural, end by a measure, or are partial functions with the value \<open>None\<close>.

  \<^bold>\<open>Granularity.\<close> The keep-alive task and the watchdog of the tracker are interleaved with all events at their two critical sections; so are the threads of a
  download and of the start-up handshake. Every other task of the tracker or of a peer runs as a whole, although the code does not lock the file table while it uses
  its entries: two of these tasks at the same time are a data race, and nothing is shown of it. Locks are not represented: each operation they protect is one step.

  \<^bold>\<open>Not modelled.\<close> The text printed by the macros of \<open>include/debug.h\<close>, by \<open>usage\<close> and by \<open>print_tft\<close>, and \<open>ip_string\<close>, which is used for output only: they do
  not change the state. The parsing of the arguments inside \<open>getopt_long\<close> and the resolution of names belong to the C library; their answers are
  arguments.
\<close>

section \<open>From the report of one peer to the table of another\<close>

text \<open>
  C1. Peers stay in agreement with the tracker. Let a peer report additions, deletions, and
  modifications of files the tracker knows, and let another peer agree with the tracker: it has the same files
  with the same timestamps and, itself left out, the same owners. The tracker handles the report and
  sends bytes to the other peer; when the peer has read and handled these bytes, it agrees
  with the new table of the tracker. Assumed is that the announcement fits a packet, does not contain the end
  mark and is taken by \<open>send\<close>, and that the deletions in it are safe for the peer.
\<close>

theorem report_keeps_agreement:
  assumes tr: "tr_inv N P tr" and rpt: "tft_known N P tft"
    and known: "run_pre te_reports_known update_spec (tft_list tft) (ft_map (tr_ft tr), [])"
    and L: "snd (fold update_spec (tft_list tft) (ft_map (tr_ft tr), [])) = L" "length L \<le> 240" "table_sendable (tft_of L)"
      "\<not> has_mark (ttop_bytes (table_packet TRACKER_BROADCAST (tft_of L)))"
    and pe: "distinct (map pe_conn (pt_peers (tr_pt tr)))" "pe \<in> set (pt_peers (tr_pt tr))" "pe_conn pe \<noteq> conn"
      "send_replies (tr_socks tr (pe_conn pe)) = []"
    and cl: "cl_rep R K my_ip cl v" "cl_callocs cl = []"
      "run_pre (view_pre R) (view_step R my_ip) (tft_list (cut_last (tft_of L))) v"
    and agr: "agree my_ip (ft_map (tr_ft tr)) (ft_map (cl_ft cl))"
  shows "\<exists>tr' w cl'. peer_file_update_task conn tft tr = Inr tr' \<and>
     wire_out (tr_socks tr' (pe_conn pe)) = wire_out (tr_socks tr (pe_conn pe)) @ w \<and>
     ttop_receiver_task K w pkt cl = Inr cl' \<and> agree my_ip (ft_map (tr_ft tr')) (ft_map (cl_ft cl'))"
proof -
  let ?M = "ft_map (tr_ft tr)" and ?S = "tr_socks tr" and ?c = "pe_conn pe"
  let ?M' = "fst (fold update_spec (tft_list tft) (?M, []))" and ?news = "tft_list (cut_last (tft_of L))"
  from update_task_spec [OF tr rpt, of conn] L(1) obtain ft where ft: "ft_rep ft ?M'"
      "peer_file_update_task conn tft tr = Inr (tr\<lparr>tr_ft := ft, tr_socks := announce L conn (pt_peers (tr_pt tr)) ?S\<rparr>)"
    by (auto split: prod.splits)
  have map: "ft_map ft = ?M'" "ft_map (cl_ft cl) = pv_map v" using ft(1) cl(1) by (simp_all add: ft_rep_def cl_rep_def)
  have te: "\<forall>te \<in> set (tft_list tft). te_known N P te" using rpt by (simp add: tft_known_def)
  have agr': "agree my_ip ?M' (pv_map (fold (view_step R my_ip) ?news v))"
    using report_agrees [OF map_ok_tracker [OF tr] te _ known] agr cut_last_like [OF L(3)] L(1) map(2) by simp
  show ?thesis
  proof (cases "L = []")
    case True
    then have "?news = []" by (simp add: cut_last_def tft_list_of)
    then show ?thesis using ft(2) agr' map True
      by (intro exI [of _ "tr\<lparr>tr_ft := ft, tr_socks := announce L conn (pt_peers (tr_pt tr)) ?S\<rparr>"] exI [of _ "[]"] exI [of _ cl])
        (simp add: announce_def receiver_end)
  next
    case False
    have out: "announce L conn (pt_peers (tr_pt tr)) ?S ?c = snd (send_ttop_packet (table_packet TRACKER_BROADCAST (tft_of L)) (?S ?c))"
      using False pe(2,3) by (simp add: announce_def send_peers_at [OF pe(1)])
    from send_table_received [OF L(3) _ pe(4) L(4), of "[]" pkt] L(2) obtain w r pkt' where
      w: "wire_out (snd (send_ttop_packet (table_packet TRACKER_BROADCAST (tft_of L)) (?S ?c))) = wire_out (?S ?c) @ w"
        "recv_ttop_packet w pkt = Inr (r, pkt', [])" "r > 0" "th_type (ttop_hdr pkt') = TRACKER_BROADCAST"
        "table_of_bytes (field 0 (unat (th_data_len (ttop_hdr pkt'))) (ttop_data pkt')) = cut_last (tft_of L)" by auto
    from broadcast_received [OF cl(1,2) L(3) w(2-5) cl(3)] obtain cl' where
      cl': "ttop_receiver_task K w pkt cl = Inr cl'" "cl_rep R K my_ip cl' (fold (view_step R my_ip) ?news v)" by blast
    have "ft_map (cl_ft cl') = pv_map (fold (view_step R my_ip) ?news v)" using cl'(2) by (simp add: cl_rep_def ft_rep_def)
    with agr' ft(2) map(1) w(1) out cl'(1) show ?thesis by auto
  qed
qed


text \<open>A new file is reported on connection 4; the peer on connection 5 has nothing yet.\<close>

lemma tft_example_sendable: "table_sendable (tft_example FILE_ADD)"
  by (simp add: tft_example_def table_sendable_def te_sendable_def te_example_def MAX_FILE_ENTRIES_def MAX_NAME_LEN_def
      MAX_PEER_ENTRIES_def)

lemma tft_example_no_mark: "\<not> has_mark (ttop_bytes (table_packet TRACKER_BROADCAST (tft_example FILE_ADD)))"
proof (rule no_bang_no_mark)
  have "c_bang \<notin> set (name_bytes ''1/a'')"
    using set_name_bytes [of "''1/a''"] by (auto simp: byte_of_char_def of_char_def)
  then have "c_bang \<notin> set (table_bytes (tft_example FILE_ADD))"
    using put_le_examples
    by (simp add: table_bytes_def tft_example_def te_example_def entry_bytes_def te_zero_def pad_def peer_id_bytes_def
        pid_zero_def FILE_ADD_def)
  moreover have "trans_table_len (tft_example FILE_ADD) = 276" by (simp add: trans_table_len_def tft_example_def)
  ultimately show "c_bang \<notin> set (ttop_bytes (table_packet TRACKER_BROADCAST (tft_example FILE_ADD)))"
    using set_field [of 0 276 "table_bytes (tft_example FILE_ADD)"] put_le_examples
    by (auto simp: table_packet_def Let_def ttop_bytes_def ttop_hdr_bytes_def TRACKER_BROADCAST_def)
qed

lemma tft_example_news: "snd (fold update_spec (tft_list (tft_example FILE_ADD)) ((\<lambda>_. None), [])) = tft_list (tft_example FILE_ADD)"
proof -
  have "owners_add [x] [] = [x]" for x by (simp add: owners_add_def)
  then show ?thesis
    by (simp add: tft_example_def tft_list_of update_spec_def update_news_def op_type_defs add_spec_def te_of_def
        entry_of_def te_example_def te_owner_list_def te_zero_def MAX_PEER_ENTRIES_def)
qed

theorem report_keeps_agreement_witness:
  "\<exists>tr tr' w cl'. tr_inv {''1/a''} {1} tr \<and> peer_file_update_task 4 (tft_example FILE_ADD) tr = Inr tr' \<and>
     wire_out (tr_socks tr' 5) = wire_out (tr_socks tr 5) @ w \<and>
     ttop_receiver_task K_example w (ttop_of_bytes []) cl_example = Inr cl' \<and> agree 9 (ft_map (tr_ft tr')) (ft_map (cl_ft cl'))"
proof -
  let ?pe = "\<lparr>pe_conn = 5, pe_timestamp = 9, pe_peerid = \<lparr>pid_ip = 9, pid_port = 4192\<rparr>, pe_tid = 1\<rparr>"
  from ptb.run_refines [OF pt_start_rep, of "[PT_Add 9 5 \<lparr>pid_ip = 9, pid_port = 4192\<rparr> 1]"]
  obtain pt where pt: "pt_inv pt" "pt_peers pt = [?pe]" by (auto simp: pt_rep_def)
  let ?tr = "tr_example\<lparr>tr_pt := pt\<rparr>" and ?L = "tft_list (tft_example FILE_ADD)"
  have tr: "tr_inv {''1/a''} {1} ?tr" using tr_example_inv pt(1) by (simp add: tr_inv_def)
  have M: "ft_map (tr_ft ?tr) = (\<lambda>_. None)" "tr_socks ?tr 5 = \<lparr>wire_out = [], send_replies = []\<rparr>"
    using tr_example_map(1) by (simp_all add: tr_example_def tracker_start_def)
  have L: "tft_of ?L = tft_example FILE_ADD" "length ?L = 1" by (simp_all add: tft_example_def tft_list_of)
  have "(replicate 15 x)[14 := x] = replicate 15 x" for x :: peer_id by (simp add: list_update_same_conv)
  then have cut: "cut_last (tft_of ?L) = tft_example FILE_ADD"
    unfolding L(1) by (simp add: cut_last_def cut_owner_def tft_example_def tft_of_def te_example_def pid_zero_def te_zero_def)
  have pre: "run_pre (view_pre R_example) (view_step R_example 9) (tft_list (cut_last (tft_of ?L))) view_example"
    unfolding cut using tft_example_known [of FILE_ADD]
    by (simp add: tft_example_def tft_list_of tft_known_def te_known_def view_pre_def op_type_defs)
  have known: "run_pre te_reports_known update_spec ?L (ft_map (tr_ft ?tr), [])"
    by (simp add: tft_example_def tft_list_of te_reports_known_def op_type_defs)
  have "ft_map (cl_ft cl_example) = (\<lambda>_. None)" "cl_callocs cl_example = []"
    using ft_start_rep by (simp_all add: cl_example_def ft_rep_def)
  then have agr: "agree 9 (ft_map (tr_ft ?tr)) (ft_map (cl_ft cl_example))" "cl_callocs cl_example = []"
    unfolding M by (simp_all add: agree_def)
  from report_keeps_agreement [OF tr tft_example_known known _ _ _ _ _ _ _ _ cl_example_rep agr(2) pre agr(1),
      of ?pe 4 "ttop_of_bytes []"] tft_example_news tft_example_sendable tft_example_no_mark L pt(2) M tr
  show ?thesis by - (rule exI [of _ ?tr], simp)
qed

section \<open>From the directories of a peer to the table of the tracker and back\<close>

text \<open>
  C2. The synchronisation at start-up brings a peer and the tracker into agreement. The peer surveys its target
  directories and sends the table of its files, each with its time and with the peer as the owner; the tracker reads these bytes,
  merges the table and answers with what is new for the peer; the peer reads the answer over its table and learns from it. Whatever the two had
  before, afterwards they have the same files with the same times and, the peer itself left out, the same owners; the tracker is
  in order. Assumed is that names fit their buffers, that both tables have at most 240 entries and contain no end mark, and that \<open>send\<close>
  and \<open>calloc\<close> do not fail.
\<close>

theorem sync_establishes_agreement:
  assumes tr: "tr_inv N P tr" "tr_callocs tr = []" "send_replies (tr_socks tr conn) = []"
    and cl: "file_table_init (cl_ft cl) = ft_start" "send_replies (cl_sock cl) = []" "cl_ip cl \<in> P"
    and files: "targets_fit 1 ts" "\<forall>(d, opens, ds) \<in> set ts. tree_proper ds" "length (all_files (cl_ip cl) 1 ts) \<le> 240"
      "\<forall>fe \<in> set (all_files (cl_ip cl) 1 ts). CHR 0x00 \<notin> set (fe_name fe) \<and> fe_name fe \<in> N"
    and request: "get_file_table (cl_ip cl) ts ft_start = Inr (0, ft)" "trans_table_fill_from ft = Inr tft"
      "ptot_packet_fill (ptot_packet_init (cl_ip cl) PEER_SYNC) (table_bytes tft) (sint (ucast (trans_table_len tft) :: u32)) = Inr pkt"
      "\<not> has_mark (field 0 (ptot_packet_len pkt) (ptot_bytes pkt))"
    and reply: "sync_reply tft (tr_ft tr) = R" "length R \<le> 240" "table_sendable (tft_of R)"
      "\<not> has_mark (ttop_bytes (table_packet TRACKER_SYNC (tft_of R)))"
  shows "\<exists>w w' ret pkt' tr' cl'. wire_out (cl_sock cl') = wire_out (cl_sock cl) @ w \<and>
     recv_ptot_packet w pkt0 = Inr (ret, pkt', []) \<and> ph_type (ptot_hdr pkt') = PEER_SYNC \<and>
     sync_task conn (packet_table pkt') tr = Inr (0, tr') \<and> tr_inv N P tr' \<and>
     wire_out (tr_socks tr' conn) = wire_out (tr_socks tr conn) @ w' \<and>
     sync_files stack ts (w' @ rest) cl = Inr (0, rest, cl') \<and>
     agree (cl_ip cl) (ft_map (tr_ft tr')) (ft_map (cl_ft cl'))"
proof -
  let ?ip = "cl_ip cl"
  have nul: "\<forall>fe \<in> set (all_files ?ip 1 ts). CHR 0x00 \<notin> set (fe_name fe)" using files(4) by blast
  from survey_table [OF files(1-3) nul] request(1,2) obtain fes where fes: "ft_rep ft (ft_map ft)" "tft = tft_of (map te_of fes)"
      "set fes = set (all_files ?ip 1 ts)" "length fes \<le> 240" "lists_own ?ip (map te_of fes) (ft_map ft)" "table_sendable tft"
      "\<forall>fe \<in> set fes. te_ok (te_of fe)" by auto
  have own: "\<forall>fe \<in> set fes. fe_owners fe = [me ?ip]" using all_files_own fes(3) by blast
  have "te_known N P (te_of fe)" if "fe \<in> set fes" for fe
    using that fes(3,7) files(4) cl(3) own te_owner_list_te_of [of fe] by (auto simp: te_known_def te_of_def me_def MAX_PEER_ENTRIES_def)
  moreover have "tft_n tft \<le> int MAX_FILE_ENTRIES" using fes(4) by (simp add: fes(2) tft_of_def MAX_FILE_ENTRIES_def)
  ultimately have known: "tft_known N P tft" by (auto simp: fes(2) tft_known_def tft_list_of)
  from send_table_to_tracker [OF fes(6) cl(2) request(3,4), of "[]" pkt0] obtain w ret pkt' where
    w: "wire_out (snd (send_ptot_packet pkt (cl_sock cl))) = wire_out (cl_sock cl) @ w" "recv_ptot_packet w pkt0 = Inr (ret, pkt', [])"
      "ph_type (ptot_hdr pkt') = PEER_SYNC" "packet_table pkt' = tft"
    using cut_own [OF own] by (auto simp: packet_table_def fes(2))
  from sync_task_spec [OF tr(1) known tr(2), of conn] reply(1) obtain tr' where tr': "sync_task conn tft tr = Inr (0, tr')" "tr_inv N P tr'"
      "ft_map (tr_ft tr') = fold map_exec (map FT_Add (tft_list tft)) (ft_map (tr_ft tr))"
      "tr_socks tr' conn = snd (send_ttop_packet (table_packet TRACKER_SYNC (tft_of R)) (tr_socks tr conn))" by blast
  have len: "tft_entries (tft_of R) = R" by (simp add: tft_of_def)
  from send_table_data [OF reply(3) _ tr(3) reply(4), of rest stack] reply(2) obtain w' r p where
    w': "wire_out (tr_socks tr' conn) = wire_out (tr_socks tr conn) @ w'" "recv_ttop_packet (w' @ rest) stack = Inr (r, p, rest)" "r > 0"
      "th_type (ttop_hdr p) = TRACKER_SYNC" "unat (th_data_len (ttop_hdr p)) = 4 + 272 * length R"
      "field 0 (4 + 272 * length R) (ttop_data p) = field 0 (4 + 272 * length R) (table_bytes (tft_of R))"
    unfolding len tr'(4) by auto
  have inv: "ft_inv (tr_ft tr)" using tr(1) by (simp add: tr_inv_def ft_rep_def)
  from sync_files_run [OF cl(1,2) request(1,2) fes(1) request(3) w'(2-5) reply(3) _ w'(6)] sync_reply_ok [OF tr(1), of tft] reply(1)
  obtain cl' R' where cl': "sync_files stack ts (w' @ rest) cl = Inr (0, rest, cl')" "cl_sock cl' = snd (send_ptot_packet pkt (cl_sock cl))"
      "list_all2 te_like R R'" "ft_map (cl_ft cl') = fold (learn_map ?ip) R' (ft_map ft)" by blast
  have "lists_own ?ip (tft_list tft) (ft_map ft)" using fes(5) by (simp add: fes(2) tft_list_of)
  from sync_agrees [OF map_ok_tracker [OF tr(1)] this _ _ cl'(3)] sync_reply_map [OF inv, of tft] reply(1)
  have "agree ?ip (ft_map (tr_ft tr')) (ft_map (cl_ft cl'))" by (simp add: tr'(3) cl'(4))
  with w w' tr'(1,2) cl'(1,2) show ?thesis
    by (intro exI [of _ w] exI [of _ w'] exI [of _ ret] exI [of _ pkt'] exI [of _ tr'] exI [of _ cl']) simp
qed

text \<open>A peer with one file joins an empty tracker.\<close>

definition ts_joined :: "target list" where
  "ts_joined = [(''/home'', True, [Dirent ''a'' False (Some 5) True []])]"

definition fe_joined :: file_entry where
  "fe_joined = surveyed 1 ''1/a'' False (Some 5)"

definition sync_joined_pkt :: ptot_packet where
  "sync_joined_pkt = \<lparr>ptot_hdr = \<lparr>ph_protocol_name = [], ph_type = PEER_SYNC, ph_ip = 1, ph_port = P2P_PORT, ph_data_len = 276\<rparr>,
     ptot_data = field 0 276 (table_bytes (tft_of [te_of fe_joined]))\<rparr>"

lemma ts_joined_files: "all_files 1 1 ts_joined = [fe_joined]" "targets_fit 1 ts_joined"
  "\<forall>(d, opens, ds) \<in> set ts_joined. tree_proper ds"
  by (simp_all add: ts_joined_def fe_joined_def decimal_1 dots_def slash_def MAX_NAME_LEN_def del: decimal.simps)

lemma sync_joined_bytes: "c_bang \<notin> set (ptot_bytes sync_joined_pkt)"
proof -
  have "c_bang \<notin> set (name_bytes ''1/a'')" using set_name_bytes [of "''1/a''"] by (auto simp: byte_of_char_def of_char_def)
  moreover have "c_bang \<notin> set (put_le 2 PEER_SYNC)" by code_simp
  moreover have "te_of fe_joined = (te_example ''1/a'' 5 1)\<lparr>te_op_type := 0\<rparr>"
    by (simp add: te_of_def fe_joined_def surveyed_def te_example_def te_zero_def REGULAR_def me_def P2P_PORT_def MAX_PEER_ENTRIES_def)
  ultimately have "c_bang \<notin> set (table_bytes (tft_of [te_of fe_joined]))"
    using put_le_examples
    by (simp add: table_bytes_def tft_of_def te_example_def entry_bytes_def te_zero_def pad_def peer_id_bytes_def pid_zero_def)
  then show ?thesis
    using name_examples put_le_examples set_field [of 0 276 "table_bytes (tft_of [te_of fe_joined])"] \<open>c_bang \<notin> set (put_le 2 PEER_SYNC)\<close>
    by (auto simp: ptot_bytes_def ptot_hdr_bytes_def sync_joined_pkt_def pad_def)
qed

theorem sync_establishes_agreement_witness:
  "\<exists>ret pkt' w w' tr' cl'. recv_ptot_packet w (ptot_packet_init 0 0) = Inr (ret, pkt', []) \<and>
     sync_task 4 (packet_table pkt') tr_example = Inr (0, tr') \<and> wire_out (tr_socks tr' 4) = w' \<and>
     sync_files (ttop_of_bytes []) ts_joined (w' @ []) (cl_example\<lparr>cl_ip := 1\<rparr>) = Inr (0, [], cl') \<and>
     agree 1 (ft_map (tr_ft tr')) (ft_map (cl_ft cl'))"
proof -
  let ?cl = "cl_example\<lparr>cl_ip := 1\<rparr>" and ?t = "tft_of [te_of fe_joined]"
  have files: "length (all_files 1 1 ts_joined) \<le> 240" "\<forall>fe \<in> set (all_files 1 1 ts_joined). CHR 0x00 \<notin> set (fe_name fe)"
    unfolding ts_joined_files by (simp_all add: fe_joined_def surveyed_def)
  from survey_table [OF ts_joined_files(2,3) files] obtain ft fes where
    ft: "get_file_table 1 ts_joined ft_start = Inr (0, ft)" "trans_table_fill_from ft = Inr (tft_of (map te_of fes))"
      "set fes = {fe_joined}" "distinct (map te_name (map te_of fes))" "table_sendable (tft_of (map te_of fes))"
    unfolding ts_joined_files by (auto simp: lists_own_def)
  have "length fes = card (set fes)" using ft(4) by (auto simp: distinct_map distinct_card)
  with ft(3) have "length fes = 1" by simp
  with ft(3) have fes: "fes = [fe_joined]" by (cases fes) auto
  have fill: "ptot_packet_fill (ptot_packet_init 1 PEER_SYNC) (table_bytes ?t) (sint (ucast (trans_table_len ?t) :: u32)) = Inr sync_joined_pkt"
    using table_len_int [OF ft(5)]
    by (simp add: fes tft_of_def ptot_packet_fill_def data_copy_def sync_joined_pkt_def MAX_PKT_DATA_LEN_def ptot_packet_init_def)
  have mark: "\<not> has_mark (field 0 (ptot_packet_len sync_joined_pkt) (ptot_bytes sync_joined_pkt))"
    using sync_joined_bytes set_field [of 0 "ptot_packet_len sync_joined_pkt" "ptot_bytes sync_joined_pkt"]
    by (intro no_bang_no_mark) auto
  have R: "sync_reply ?t (tr_ft tr_example) = []"
    using sync_reply_map(2) [of "tr_ft tr_example" ?t] tr_example_inv by (simp add: tr_example_map tr_inv_def ft_rep_def)
  have "c_bang \<notin> set (put_le 2 TRACKER_SYNC)" "c_bang \<notin> set (put_le 2 (4 :: u16))" by code_simp+
  then have mark': "\<not> has_mark (ttop_bytes (table_packet TRACKER_SYNC (tft_of [])))"
    using put_le_examples set_field [of 0 4 "table_bytes (tft_of [])"]
    by (intro no_bang_no_mark) (auto simp: table_packet_def Let_def ttop_bytes_def ttop_hdr_bytes_def trans_table_len_def table_bytes_def tft_of_def pad_def)
  have tr: "tr_callocs tr_example = []" "send_replies (tr_socks tr_example 4) = []" "wire_out (tr_socks tr_example 4) = []"
    by (simp_all add: tr_example_def tracker_start_def)
  have cl: "file_table_init (cl_ft ?cl) = ft_start" "send_replies (cl_sock ?cl) = []" "cl_ip ?cl = 1"
    by (simp_all add: cl_example_def ft_start_def file_table_init_def)
  have N: "\<forall>fe \<in> set (all_files 1 1 ts_joined). CHR 0x00 \<notin> set (fe_name fe) \<and> fe_name fe \<in> {''1/a''}"
    unfolding ts_joined_files by (simp add: fe_joined_def surveyed_def)
  have snd: "table_sendable (tft_of [])" by (simp add: table_sendable_def tft_of_def)
  from sync_establishes_agreement [OF tr_example_inv tr(1,2) cl(1,2), unfolded cl(3), OF _ ts_joined_files(2,3) files(1) N ft(1) _ fill mark R _ snd mark',
      of "ptot_packet_init 0 0" "ttop_of_bytes []" "[]"] ft(2) fes tr(3)
  show ?thesis by auto
qed

end
